(* ===== verification/Prelude.thy ===== *)
theory Prelude
  imports Complex_Main "HOL-Library.Word"
begin

text \<open>
  What the components share: the machine types of the 32-bit ARM target the tests are built
  for, the collections of simplification rules the component proofs use, and generic lemmas
  on lists, folds and words that mention no component.
\<close>

unbundle bit_operations_syntax

type_synonym u8 = "8 word"
type_synonym u16 = "16 word"
type_synonym u32 = "32 word"
type_synonym u64 = "64 word"

text \<open>\<open>unsigned long\<close>, \<open>size_t\<close> and a pointer are 32 bits wide on the target.\<close>

type_synonym ul = "32 word"

type_synonym cstr = string

named_theorems clib_simps
  \<open>definitions and evaluation rules of the modelled C library functions\<close>

named_theorems step_simps
  \<open>definitions that one step of a component unfolds to\<close>

subsection \<open>Lists and folds\<close>

text \<open>A loop \<open>for (i = 0; i < n; i++)\<close> is a fold over the indices; the last iteration is the
  outermost application.\<close>

lemma fold_upt_Suc [simp]: "fold f [0..<Suc n] s = f n (fold f [0..<n] s)"
  by simp

lemma fold_upt_invariant:
  assumes "P 0 s" and "\<And>i t. i < n \<Longrightarrow> P i t \<Longrightarrow> P (Suc i) (f i t)"
  shows "P n (fold f [0..<n] s)"
  using assms by (induction n) auto

lemma list_all_upt_iff: "list_all P [0..<n] \<longleftrightarrow> (\<forall>i<n. P i)"
  by (auto simp: list_all_iff)

lemma takeWhile_all: "list_all P xs \<Longrightarrow> takeWhile P xs = xs"
  by (auto simp: takeWhile_eq_all_conv list_all_iff)

lemma takeWhile_append_stop:
  assumes "list_all P xs" and "ys = [] \<or> \<not> P (hd ys)"
  shows "takeWhile P (xs @ ys) = xs"
  using assms by (induction xs) (auto simp: takeWhile_eq_Nil_iff)

lemma dropWhile_append_stop:
  assumes "list_all P xs" and "ys = [] \<or> \<not> P (hd ys)"
  shows "dropWhile P (xs @ ys) = ys"
  using assms by (induction xs) (auto simp: dropWhile_eq_self_iff)

subsection \<open>Words\<close>

lemma word_bit_mask_low: "bit (w :: 'a::len word) k \<Longrightarrow> k < LENGTH('a)"
  by (rule bit_imp_le_length)

lemma word_not_eq_self [simp]: "NOT w \<noteq> (w :: 'a::len word)"
proof
  assume "NOT w = w"
  then have "bit (NOT w) 0 = bit w 0" by simp
  then show False by (simp add: bit_not_iff)
qed

lemma word_neq_bitD: "(v :: 'a::len word) \<noteq> w \<Longrightarrow> \<exists>k < LENGTH('a). bit v k \<noteq> bit w k"
  by (metis bit_word_eqI)

lemma unat_mod_le: "unat (w :: 'a::len word) < 2 ^ LENGTH('a)"
  by (rule unsigned_less)

lemma and_not_mask_nat:
  "unat ((w :: ul) AND NOT (2 ^ q - 1)) = unat w - unat w mod 2 ^ q"
proof -
  have "push_bit q (drop_bit q w) = w AND NOT (mask q)"
    by (rule bit_eqI) (auto simp: bit_simps)
  then have e: "w AND NOT (mask q) = w - take_bit q w"
    using bits_ident [of q w] by (metis add_diff_cancel_right')
  have t: "unat (take_bit q w) = unat w mod 2 ^ q"
    by (simp only: unsigned_take_bit_eq) (simp add: take_bit_eq_mod)
  then have "take_bit q w \<le> w" by (simp add: word_le_nat_alt)
  then show ?thesis using t by (simp add: e unat_sub flip: mask_eq_exp_minus_1)
qed

subsection \<open>Signed arithmetic of C\<close>

text \<open>Conversion to a 32-bit \<open>int\<close> keeps the low 32 bits; \<open>/\<close> and \<open>%\<close> truncate towards 0.\<close>

definition to_int32 :: "int \<Rightarrow> int" where
  "to_int32 x = (x + 2 ^ 31) mod 2 ^ 32 - 2 ^ 31"

definition cdiv :: "int \<Rightarrow> int \<Rightarrow> int" where
  "cdiv a b = sgn a * sgn b * (\<bar>a\<bar> div \<bar>b\<bar>)"

definition cmod :: "int \<Rightarrow> int \<Rightarrow> int" where
  "cmod a b = a - b * cdiv a b"

lemma to_int32_range: "- (2 ^ 31) \<le> to_int32 x \<and> to_int32 x < 2 ^ 31"
  by (simp add: to_int32_def)

lemma to_int32_id: "- (2 ^ 31) \<le> x \<Longrightarrow> x < 2 ^ 31 \<Longrightarrow> to_int32 x = x"
  by (simp add: to_int32_def)

lemma to_int32_wrap:
  assumes "2 ^ 31 \<le> x" and "x < 2 ^ 31 + 2 ^ 32"
  shows "to_int32 x = x - 2 ^ 32"
proof -
  have "x + 2 ^ 31 = (x - 2 ^ 31) + 2 ^ 32" by simp
  then show ?thesis
    using assms by (simp only: to_int32_def mod_add_self2) (simp add: mod_pos_pos_trivial)
qed

lemma cdiv_nonneg: "0 \<le> a \<Longrightarrow> 0 < b \<Longrightarrow> cdiv a b = a div b"
  by (cases "a = 0") (simp_all add: cdiv_def)

lemma cdiv_neg: "a \<le> 0 \<Longrightarrow> 0 < b \<Longrightarrow> cdiv a b = - ((- a) div b)"
  by (cases "a = 0") (simp_all add: cdiv_def)

end
