(* ===== verification/MemTests.thy ===== *)
theory MemTests
  imports Prelude
begin

text \<open>
  The memory tests of \<^verbatim>\<open>src/memory_test/memtester/tests.c\<close>, built with
  \<^verbatim>\<open>TEST_NARROW_WRITES\<close> (see \<^verbatim>\<open>conf-cc\<close>) for a 32-bit \<open>unsigned long\<close>. The memory
  under test, \<open>rand\<close> and the value of an over-wide shift are parameters of the model, fields
  of a \<open>machine\<close>; each test is a function on a state that holds the memory, the position in
  the random sequence and the failure messages printed so far.
\<close>

subsection \<open>The machine and the state of a run\<close>

record ('m, 'r) machine =
  rd32 :: "'m \<Rightarrow> nat \<Rightarrow> ul"
  wr32 :: "nat \<Rightarrow> ul \<Rightarrow> 'm \<Rightarrow> 'm"
  wr16 :: "nat \<Rightarrow> u16 \<Rightarrow> 'm \<Rightarrow> 'm"
  wr8 :: "nat \<Rightarrow> u8 \<Rightarrow> 'm \<Rightarrow> 'm"
  c_rand :: "'r \<Rightarrow> u32 \<times> 'r"
  over_shift :: "nat \<Rightarrow> ul"
  use_phys :: bool
  physaddrbase :: u64

datatype location = PhysAddr u64 | Offset ul

datatype report = Mismatch ul ul location | BadAddressLine location

record ('m, 'r) mt_state =
  mt_mem :: 'm
  mt_rng :: 'r
  mt_err :: "report list"

text \<open>The place a failure message names: a physical address with \<open>-p\<close>, else the offset.\<close>

definition locate :: "('m, 'r) machine \<Rightarrow> nat \<Rightarrow> location" where
  "locate M i =
     (if use_phys M then PhysAddr (physaddrbase M + ucast ((of_nat i :: ul) * 4))
      else Offset (of_nat i * 4))"

subsection \<open>Random values and constants of sizes.h\<close>

definition rand32 :: "('m, 'r) machine \<Rightarrow> 'r \<Rightarrow> ul \<times> 'r" where
  "rand32 M g = (let (x, g1) = c_rand M g; (y, g2) = c_rand M g1 in (x OR push_bit 16 y, g2))"

definition rand_ul :: "('m, 'r) machine \<Rightarrow> 'r \<Rightarrow> ul \<times> 'r" where
  "rand_ul M g = rand32 M g"

abbreviation UL_ONEBITS :: ul where "UL_ONEBITS \<equiv> 0xffffffff"
abbreviation UL_LEN :: nat where "UL_LEN \<equiv> 32"
abbreviation CHECKERBOARD1 :: ul where "CHECKERBOARD1 \<equiv> 0x55555555"
abbreviation CHECKERBOARD2 :: ul where "CHECKERBOARD2 \<equiv> 0xaaaaaaaa"

definition UL_BYTE :: "ul \<Rightarrow> ul" where
  "UL_BYTE x = x OR push_bit 8 x OR push_bit 16 x OR push_bit 24 x"

text \<open>\<open>ONE << n\<close>: undefined in C for \<open>n \<ge> 32\<close>, so the machine says what it gives there.\<close>

definition one_shl :: "('m, 'r) machine \<Rightarrow> nat \<Rightarrow> ul" where
  "one_shl M n = (if n < UL_LEN then push_bit n 1 else over_shift M n)"

subsection \<open>Comparing the two halves\<close>

definition compare_step ::
  "('m, 'r) machine \<Rightarrow> nat \<Rightarrow> nat \<Rightarrow> nat \<Rightarrow> int \<times> ('m, 'r) mt_state \<Rightarrow> int \<times> ('m, 'r) mt_state" where
  "compare_step M bufa bufb i rs =
     (let s = snd rs;
          v1 = rd32 M (mt_mem s) (bufa + 4 * i);
          v2 = rd32 M (mt_mem s) (bufb + 4 * i)
      in if v1 \<noteq> v2
         then (- 1, s\<lparr>mt_err := mt_err s @ [Mismatch v1 v2 (locate M i)]\<rparr>)
         else rs)"

definition compare_regions ::
  "('m, 'r) machine \<Rightarrow> nat \<Rightarrow> nat \<Rightarrow> nat \<Rightarrow> ('m, 'r) mt_state \<Rightarrow> int \<times> ('m, 'r) mt_state" where
  "compare_regions M bufa bufb count s =
     fold (compare_step M bufa bufb) [0..<count] (0, s)"

subsection \<open>The stuck address test\<close>

definition stuck_value :: "nat \<Rightarrow> nat \<Rightarrow> nat \<Rightarrow> ul" where
  "stuck_value j p i = (if (j + i) mod 2 = 0 then of_nat p else NOT (of_nat p))"

definition stuck_set ::
  "('m, 'r) machine \<Rightarrow> nat \<Rightarrow> nat \<Rightarrow> nat \<Rightarrow> 'm \<Rightarrow> 'm" where
  "stuck_set M bufa count j m =
     fold (\<lambda>i. wr32 M (bufa + 4 * i) (stuck_value j (bufa + 4 * i) i)) [0..<count] m"

fun stuck_check ::
  "('m, 'r) machine \<Rightarrow> nat \<Rightarrow> nat \<Rightarrow> nat list \<Rightarrow> ('m, 'r) mt_state \<Rightarrow> int \<times> ('m, 'r) mt_state" where
  "stuck_check M bufa j [] s = (0, s)"
| "stuck_check M bufa j (i # is) s =
     (if rd32 M (mt_mem s) (bufa + 4 * i) \<noteq> stuck_value j (bufa + 4 * i) i
      then (- 1, s\<lparr>mt_err := mt_err s @ [BadAddressLine (locate M i)]\<rparr>)
      else stuck_check M bufa j is s)"

fun stuck_sweeps ::
  "('m, 'r) machine \<Rightarrow> nat \<Rightarrow> nat \<Rightarrow> nat list \<Rightarrow> ('m, 'r) mt_state \<Rightarrow> int \<times> ('m, 'r) mt_state" where
  "stuck_sweeps M bufa count [] s = (0, s)"
| "stuck_sweeps M bufa count (j # js) s =
     (let (r, s') = stuck_check M bufa j [0..<count]
                      (s\<lparr>mt_mem := stuck_set M bufa count j (mt_mem s)\<rparr>)
      in if r \<noteq> 0 then (- 1, s') else stuck_sweeps M bufa count js s')"

definition test_stuck_address ::
  "('m, 'r) machine \<Rightarrow> nat \<Rightarrow> nat \<Rightarrow> ('m, 'r) mt_state \<Rightarrow> int \<times> ('m, 'r) mt_state" where
  "test_stuck_address M bufa count s = stuck_sweeps M bufa count [0..<16] s"

subsection \<open>Tests on values that are already in memory\<close>

type_synonym ('m, 'r) mem_test =
  "('m, 'r) machine \<Rightarrow> nat \<Rightarrow> nat \<Rightarrow> nat \<Rightarrow> ('m, 'r) mt_state \<Rightarrow> int \<times> ('m, 'r) mt_state"

definition test_random_value :: "('m, 'r) mem_test" where
  "test_random_value M bufa bufb count s =
     compare_regions M bufa bufb count
       (fold (\<lambda>i s. let (v, g) = rand_ul M (mt_rng s)
                    in s\<lparr>mt_mem := wr32 M (bufa + 4 * i) v (wr32 M (bufb + 4 * i) v (mt_mem s)),
                         mt_rng := g\<rparr>) [0..<count] s)"

text \<open>\<open>*p1++ op= q; *p2++ op= q;\<close>\<close>

definition update_both ::
  "('m, 'r) machine \<Rightarrow> nat \<Rightarrow> nat \<Rightarrow> nat \<Rightarrow> (ul \<Rightarrow> ul) \<Rightarrow> 'm \<Rightarrow> 'm" where
  "update_both M bufa bufb count f m =
     fold (\<lambda>i m. let m1 = wr32 M (bufa + 4 * i) (f (rd32 M m (bufa + 4 * i))) m
                 in wr32 M (bufb + 4 * i) (f (rd32 M m1 (bufb + 4 * i))) m1) [0..<count] m"

definition op_comparison :: "(ul \<Rightarrow> ul \<Rightarrow> ul) \<Rightarrow> ('m, 'r) mem_test" where
  "op_comparison f M bufa bufb count s =
     (let (q, g) = rand_ul M (mt_rng s)
      in compare_regions M bufa bufb count
           (s\<lparr>mt_mem := update_both M bufa bufb count (\<lambda>v. f v q) (mt_mem s), mt_rng := g\<rparr>))"

definition test_xor_comparison :: "('m, 'r) mem_test" where
  "test_xor_comparison = op_comparison (\<lambda>v q. v XOR q)"

definition test_sub_comparison :: "('m, 'r) mem_test" where
  "test_sub_comparison = op_comparison (\<lambda>v q. v - q)"

definition test_mul_comparison :: "('m, 'r) mem_test" where
  "test_mul_comparison = op_comparison (\<lambda>v q. v * q)"

definition test_div_comparison :: "('m, 'r) mem_test" where
  "test_div_comparison = op_comparison (\<lambda>v q. v div (if q = 0 then q + 1 else q))"

definition test_or_comparison :: "('m, 'r) mem_test" where
  "test_or_comparison = op_comparison (\<lambda>v q. v OR q)"

definition test_and_comparison :: "('m, 'r) mem_test" where
  "test_and_comparison = op_comparison (\<lambda>v q. v AND q)"

subsection \<open>Tests that write a pattern first\<close>

text \<open>\<open>*p1++ = *p2++ = v;\<close> stores through \<open>p2\<close> first.\<close>

definition set_regions ::
  "('m, 'r) machine \<Rightarrow> nat \<Rightarrow> nat \<Rightarrow> nat \<Rightarrow> (nat \<Rightarrow> ul) \<Rightarrow> 'm \<Rightarrow> 'm" where
  "set_regions M bufa bufb count f m =
     fold (\<lambda>i m. wr32 M (bufa + 4 * i) (f i) (wr32 M (bufb + 4 * i) (f i) m)) [0..<count] m"

definition test_seqinc_comparison :: "('m, 'r) mem_test" where
  "test_seqinc_comparison M bufa bufb count s =
     (let (q, g) = rand_ul M (mt_rng s)
      in compare_regions M bufa bufb count
           (s\<lparr>mt_mem := set_regions M bufa bufb count (\<lambda>i. of_nat i + q) (mt_mem s), mt_rng := g\<rparr>))"

text \<open>The outer loop of the pattern tests: set, compare, stop at the first failure.\<close>

fun sweeps ::
  "('m, 'r) machine \<Rightarrow> nat \<Rightarrow> nat \<Rightarrow> nat \<Rightarrow> ('j \<Rightarrow> nat \<Rightarrow> ul) \<Rightarrow> 'j list \<Rightarrow>
   ('m, 'r) mt_state \<Rightarrow> int \<times> ('m, 'r) mt_state" where
  "sweeps M bufa bufb count pat [] s = (0, s)"
| "sweeps M bufa bufb count pat (j # js) s =
     (let (r, s') = compare_regions M bufa bufb count
                      (s\<lparr>mt_mem := set_regions M bufa bufb count (pat j) (mt_mem s)\<rparr>)
      in if r \<noteq> 0 then (- 1, s') else sweeps M bufa bufb count pat js s')"

definition solidbits_pattern :: "nat \<Rightarrow> nat \<Rightarrow> ul" where
  "solidbits_pattern j i =
     (let q = if j mod 2 = 0 then UL_ONEBITS else 0 in if i mod 2 = 0 then q else NOT q)"

definition test_solidbits_comparison :: "('m, 'r) mem_test" where
  "test_solidbits_comparison M bufa bufb count s =
     sweeps M bufa bufb count solidbits_pattern [0..<64] s"

definition checkerboard_pattern :: "nat \<Rightarrow> nat \<Rightarrow> ul" where
  "checkerboard_pattern j i =
     (let q = if j mod 2 = 0 then CHECKERBOARD1 else CHECKERBOARD2
      in if i mod 2 = 0 then q else NOT q)"

definition test_checkerboard_comparison :: "('m, 'r) mem_test" where
  "test_checkerboard_comparison M bufa bufb count s =
     sweeps M bufa bufb count checkerboard_pattern [0..<64] s"

definition test_blockseq_comparison :: "('m, 'r) mem_test" where
  "test_blockseq_comparison M bufa bufb count s =
     sweeps M bufa bufb count (\<lambda>j i. UL_BYTE (of_nat j)) [0..<256] s"

definition test_walkbits0_comparison :: "('m, 'r) mem_test" where
  "test_walkbits0_comparison M bufa bufb count s =
     sweeps M bufa bufb count
       (\<lambda>j i. if j < UL_LEN then one_shl M j else one_shl M (UL_LEN * 2 - j - 1))
       [0..<UL_LEN * 2] s"

definition test_walkbits1_comparison :: "('m, 'r) mem_test" where
  "test_walkbits1_comparison M bufa bufb count s =
     sweeps M bufa bufb count
       (\<lambda>j i. if j < UL_LEN then UL_ONEBITS XOR one_shl M j
              else UL_ONEBITS XOR one_shl M (UL_LEN * 2 - j - 1))
       [0..<UL_LEN * 2] s"

definition bitspread_pattern :: "('m, 'r) machine \<Rightarrow> nat \<Rightarrow> nat \<Rightarrow> ul" where
  "bitspread_pattern M j i =
     (if j < UL_LEN
      then (if i mod 2 = 0 then one_shl M j OR one_shl M (j + 2)
            else UL_ONEBITS XOR (one_shl M j OR one_shl M (j + 2)))
      else (if i mod 2 = 0 then one_shl M (UL_LEN * 2 - 1 - j) OR one_shl M (UL_LEN * 2 + 1 - j)
            else UL_ONEBITS XOR
                   (one_shl M (UL_LEN * 2 - 1 - j) OR one_shl M (UL_LEN * 2 + 1 - j))))"

definition test_bitspread_comparison :: "('m, 'r) mem_test" where
  "test_bitspread_comparison M bufa bufb count s =
     sweeps M bufa bufb count (bitspread_pattern M) [0..<UL_LEN * 2] s"

text \<open>Round \<open>j\<close> for bit \<open>k\<close> uses \<open>q\<close> after \<open>j + 1\<close> complements of \<open>ONE << k\<close>.\<close>

definition bitflip_pattern :: "('m, 'r) machine \<Rightarrow> nat \<times> nat \<Rightarrow> nat \<Rightarrow> ul" where
  "bitflip_pattern M kj i =
     (let q = (NOT ^^ Suc (snd kj)) (one_shl M (fst kj)) in if i mod 2 = 0 then q else NOT q)"

definition test_bitflip_comparison :: "('m, 'r) mem_test" where
  "test_bitflip_comparison M bufa bufb count s =
     sweeps M bufa bufb count (bitflip_pattern M) (List.product [0..<UL_LEN] [0..<8]) s"

subsection \<open>Narrow writes\<close>

text \<open>The bytes and half-words of the unions \<open>mword8\<close> and \<open>mword16\<close>, little-endian.\<close>

definition byte_of :: "nat \<Rightarrow> ul \<Rightarrow> u8" where
  "byte_of k v = ucast (drop_bit (8 * k) v)"

definition half_of :: "nat \<Rightarrow> ul \<Rightarrow> u16" where
  "half_of k v = ucast (drop_bit (16 * k) v)"

definition narrow_fill ::
  "(nat \<Rightarrow> ul \<Rightarrow> 'm \<Rightarrow> 'm) \<Rightarrow> ('m, 'r) machine \<Rightarrow> nat \<Rightarrow> nat \<Rightarrow> nat \<Rightarrow>
   ('m, 'r) mt_state \<Rightarrow> ('m, 'r) mt_state" where
  "narrow_fill wrn M p1 p2 count s =
     fold (\<lambda>i s. let (v, g) = rand_ul M (mt_rng s)
                 in s\<lparr>mt_mem := wrn (p1 + 4 * i) v (wr32 M (p2 + 4 * i) v (mt_mem s)),
                      mt_rng := g\<rparr>) [0..<count] s"

definition write_bytes :: "('m, 'r) machine \<Rightarrow> nat \<Rightarrow> ul \<Rightarrow> 'm \<Rightarrow> 'm" where
  "write_bytes M p v m = fold (\<lambda>b. wr8 M (p + b) (byte_of b v)) [0..<UL_LEN div 8] m"

definition write_halves :: "('m, 'r) machine \<Rightarrow> nat \<Rightarrow> ul \<Rightarrow> 'm \<Rightarrow> 'm" where
  "write_halves M p v m = fold (\<lambda>b. wr16 M (p + 2 * b) (half_of b v)) [0..<UL_LEN div 16] m"

fun narrow_attempts ::
  "(nat \<Rightarrow> ul \<Rightarrow> 'm \<Rightarrow> 'm) \<Rightarrow> ('m, 'r) machine \<Rightarrow> nat \<Rightarrow> nat \<Rightarrow> nat \<Rightarrow> nat list \<Rightarrow>
   ('m, 'r) mt_state \<Rightarrow> int \<times> ('m, 'r) mt_state" where
  "narrow_attempts wrn M bufa bufb count [] s = (0, s)"
| "narrow_attempts wrn M bufa bufb count (attempt # as) s =
     (let s1 = (if odd attempt then narrow_fill wrn M bufa bufb count s
                else narrow_fill wrn M bufb bufa count s);
          (r, s2) = compare_regions M bufa bufb count s1
      in if r \<noteq> 0 then (- 1, s2) else narrow_attempts wrn M bufa bufb count as s2)"

definition test_8bit_wide_random :: "('m, 'r) mem_test" where
  "test_8bit_wide_random M bufa bufb count s =
     narrow_attempts (write_bytes M) M bufa bufb count [0..<2] s"

definition test_16bit_wide_random :: "('m, 'r) mem_test" where
  "test_16bit_wide_random M bufa bufb count s =
     narrow_attempts (write_halves M) M bufa bufb count [0..<2] s"

end
