(* ===== verification/MemSound.thy ===== *)
theory MemSound
  imports MemTests
begin

text \<open>
  What the memory tests promise. The locale \<open>ram\<close> states what working memory does; its lemmas
  show that on such memory no test raises a false alarm, and that the tests which only update
  what is already stored rely on the two halves agreeing before. Outside the locale: every
  mismatch is reported, a stuck data bit is found by the solid bits test, and the stuck
  address test passes exactly when the address decoder keeps the tested words apart. The
  locale is interpreted on a little-endian byte store.
\<close>

subsection \<open>Comparing\<close>

definition agree :: "('m, 'r) machine \<Rightarrow> nat \<Rightarrow> nat \<Rightarrow> nat \<Rightarrow> 'm \<Rightarrow> bool" where
  "agree M a b n m \<longleftrightarrow> (\<forall>i<n. rd32 M m (a + 4 * i) = rd32 M m (b + 4 * i))"

definition mismatches :: "('m, 'r) machine \<Rightarrow> nat \<Rightarrow> nat \<Rightarrow> nat \<Rightarrow> 'm \<Rightarrow> nat list" where
  "mismatches M a b n m = filter (\<lambda>i. rd32 M m (a + 4 * i) \<noteq> rd32 M m (b + 4 * i)) [0..<n]"

lemma mismatches_Nil: "mismatches M a b n m = [] \<longleftrightarrow> agree M a b n m"
  by (auto simp: mismatches_def agree_def filter_empty_conv)

lemma compare_regions_spec:
  "compare_regions M a b n s =
     (if agree M a b n (mt_mem s) then 0 else - 1,
      s\<lparr>mt_err := mt_err s @ map (\<lambda>i. Mismatch (rd32 M (mt_mem s) (a + 4 * i))
                                        (rd32 M (mt_mem s) (b + 4 * i)) (locate M i))
                            (mismatches M a b n (mt_mem s))\<rparr>)"
proof (induction n)
  case 0
  show ?case by (simp add: compare_regions_def agree_def mismatches_def)
next
  case (Suc n)
  then show ?case
    by (auto simp: compare_regions_def agree_def mismatches_def compare_step_def Let_def less_Suc_eq)
qed

lemma compare_regions_agree:
  "agree M a b n (mt_mem s) \<Longrightarrow> compare_regions M a b n s = (0, s)"
  using mismatches_Nil [of M a b n "mt_mem s"] by (simp add: compare_regions_spec)

lemma compare_regions_disagree:
  "\<not> agree M a b n (mt_mem s) \<Longrightarrow> fst (compare_regions M a b n s) = - 1"
  by (simp add: compare_regions_spec)

text \<open>A test passes quietly: it returns 0, prints nothing and leaves the halves equal.\<close>

definition quiet_pass ::
  "('m, 'r) machine \<Rightarrow> nat \<Rightarrow> nat \<Rightarrow> nat \<Rightarrow> ('m, 'r) mt_state \<Rightarrow> int \<times> ('m, 'r) mt_state \<Rightarrow> bool" where
  "quiet_pass M a b n s p \<longleftrightarrow>
     fst p = 0 \<and> mt_err (snd p) = mt_err s \<and> agree M a b n (mt_mem (snd p))"

lemma quiet_pass_compare:
  "agree M a b n (mt_mem t) \<Longrightarrow> mt_err t = mt_err s \<Longrightarrow>
     quiet_pass M a b n s (compare_regions M a b n t)"
  by (simp add: quiet_pass_def compare_regions_agree)

text \<open>A pattern test fails if one of its rounds leaves the halves different in every memory.\<close>

lemma sweeps_detect:
  assumes "j \<in> set js" and "\<And>m. \<not> agree M a b n (set_regions M a b n (pat j) m)"
  shows "fst (sweeps M a b n pat js s) = - 1"
  using assms(1)
proof (induction js arbitrary: s)
  case (Cons k ks)
  then show ?case
    using assms(2)
    by (cases "k = j")
      (auto simp: compare_regions_spec Let_def split: if_splits)
qed simp

subsection \<open>Working memory\<close>

text \<open>Replacing byte or half-word \<open>k\<close> of a word.\<close>

definition put_byte :: "nat \<Rightarrow> u8 \<Rightarrow> ul \<Rightarrow> ul" where
  "put_byte k b v = (v AND NOT (push_bit (8 * k) (mask 8))) OR push_bit (8 * k) (ucast b)"

definition put_half :: "nat \<Rightarrow> u16 \<Rightarrow> ul \<Rightarrow> ul" where
  "put_half k h v = (v AND NOT (push_bit (16 * k) (mask 16))) OR push_bit (16 * k) (ucast h)"

lemma bit_put_byte:
  "bit (put_byte k b v) i \<longleftrightarrow>
     i < 32 \<and> (if 8 * k \<le> i \<and> i < 8 * k + 8 then bit b (i - 8 * k) else bit v i)"
  using bit_imp_le_length [of b "i - 8 * k"] bit_imp_le_length [of v i]
  by (auto simp: put_byte_def bit_simps)

lemma bit_put_half:
  "bit (put_half k h v) i \<longleftrightarrow>
     i < 32 \<and> (if 16 * k \<le> i \<and> i < 16 * k + 16 then bit h (i - 16 * k) else bit v i)"
  using bit_imp_le_length [of h "i - 16 * k"] bit_imp_le_length [of v i]
  by (auto simp: put_half_def bit_simps)

lemma bit_byte_of: "bit (byte_of k v) i \<longleftrightarrow> i < 8 \<and> bit v (8 * k + i)"
  using bit_imp_le_length [of v "8 * k + i"] by (auto simp: byte_of_def bit_simps)

lemma bit_half_of: "bit (half_of k v) i \<longleftrightarrow> i < 16 \<and> bit v (16 * k + i)"
  using bit_imp_le_length [of v "16 * k + i"] by (auto simp: half_of_def bit_simps)

lemma put_bytes_all:
  "put_byte 3 (byte_of 3 v) (put_byte 2 (byte_of 2 v)
     (put_byte 1 (byte_of 1 v) (put_byte 0 (byte_of 0 v) w))) = v"
  by (rule bit_word_eqI) (auto simp: bit_put_byte bit_byte_of)

lemma put_halves_all: "put_half 1 (half_of 1 v) (put_half 0 (half_of 0 v) w) = v"
  by (rule bit_word_eqI) (auto simp: bit_put_half bit_half_of)

lemma product_nonempty: "0 < m \<Longrightarrow> 0 < n \<Longrightarrow> List.product [0..<m] [0..<n] \<noteq> []"
  by (simp add: upt_conv_Cons)

locale ram =
  fixes M :: "('m, 'r) machine"
  assumes rd_wr32_same: "rd32 M (wr32 M a v m) a = v"
    and rd_wr32_other: "a + 4 \<le> b \<or> b + 4 \<le> a \<Longrightarrow> rd32 M (wr32 M a v m) b = rd32 M m b"
    and rd_wr8_same: "k < 4 \<Longrightarrow> rd32 M (wr8 M (b + k) x m) b = put_byte k x (rd32 M m b)"
    and rd_wr8_other: "a < b \<or> b + 4 \<le> a \<Longrightarrow> rd32 M (wr8 M a x m) b = rd32 M m b"
    and rd_wr16_same: "k < 2 \<Longrightarrow> rd32 M (wr16 M (b + 2 * k) h m) b = put_half k h (rd32 M m b)"
    and rd_wr16_other: "a + 2 \<le> b \<or> b + 4 \<le> a \<Longrightarrow> rd32 M (wr16 M a h m) b = rd32 M m b"
begin

lemma rd_wr32_index:
  "rd32 M (wr32 M (a + 4 * i) v m) (a + 4 * j) = (if i = j then v else rd32 M m (a + 4 * j))"
  by (cases "i = j") (auto simp: rd_wr32_same intro!: rd_wr32_other)

lemma rd_wr32_apart:
  assumes "a + 4 * n \<le> b \<or> b + 4 * n \<le> a" and "i < n" and "j < n"
  shows "rd32 M (wr32 M (a + 4 * i) v m) (b + 4 * j) = rd32 M m (b + 4 * j)"
    and "rd32 M (wr32 M (b + 4 * i) v m) (a + 4 * j) = rd32 M m (a + 4 * j)"
  using assms by (auto intro!: rd_wr32_other)

lemma rd_set_regions:
  assumes "a + 4 * n \<le> b \<or> b + 4 * n \<le> a" and "k \<le> n" and "j < k"
  shows "rd32 M (set_regions M a b k f m) (a + 4 * j) = f j"
    and "rd32 M (set_regions M a b k f m) (b + 4 * j) = f j"
proof -
  have "rd32 M (set_regions M a b k f m) (a + 4 * j) = f j \<and>
        rd32 M (set_regions M a b k f m) (b + 4 * j) = f j"
    using assms(2,3)
  proof (induction k)
    case (Suc k)
    then show ?case
      using assms(1)
      by (cases "j = k")
        (auto simp: set_regions_def rd_wr32_index rd_wr32_apart [where n = n])
  qed simp
  then show "rd32 M (set_regions M a b k f m) (a + 4 * j) = f j"
    and "rd32 M (set_regions M a b k f m) (b + 4 * j) = f j" by blast+
qed

lemma agree_set_regions:
  "a + 4 * n \<le> b \<or> b + 4 * n \<le> a \<Longrightarrow> agree M a b n (set_regions M a b n f m)"
  by (simp add: agree_def rd_set_regions [where n = n])

text \<open>A pattern test on working memory: no alarm, no message, and the halves agree after.\<close>

lemma sweeps_ok:
  assumes "a + 4 * n \<le> b \<or> b + 4 * n \<le> a"
  shows "\<exists>m. sweeps M a b n pat js s = (0, s\<lparr>mt_mem := m\<rparr>) \<and>
    (js \<noteq> [] \<or> agree M a b n (mt_mem s) \<longrightarrow> agree M a b n m)"
proof (induction js arbitrary: s)
  case Nil
  show ?case by (rule exI [of _ "mt_mem s"]) simp
next
  case (Cons j js)
  let ?s = "s\<lparr>mt_mem := set_regions M a b n (pat j) (mt_mem s)\<rparr>"
  have ag: "agree M a b n (mt_mem ?s)"
    using agree_set_regions [OF assms] by simp
  obtain m where "sweeps M a b n pat js ?s = (0, ?s\<lparr>mt_mem := m\<rparr>)" "agree M a b n m"
    using Cons.IH [of ?s] ag by auto
  then show ?case
    by (intro exI [of _ m]) (simp add: compare_regions_agree [OF ag])
qed

lemma quiet_pass_sweeps:
  assumes "a + 4 * n \<le> b \<or> b + 4 * n \<le> a" and "js \<noteq> []"
  shows "quiet_pass M a b n s (sweeps M a b n pat js s)"
  using sweeps_ok [OF assms(1), of pat js s] assms(2) by (auto simp: quiet_pass_def)

lemma test_random_value_ok:
  assumes "a + 4 * n \<le> b \<or> b + 4 * n \<le> a"
  shows "quiet_pass M a b n s (test_random_value M a b n s)"
proof -
  let ?f = "\<lambda>i s. let (v, g) = rand_ul M (mt_rng s)
    in s\<lparr>mt_mem := wr32 M (a + 4 * i) v (wr32 M (b + 4 * i) v (mt_mem s)), mt_rng := g\<rparr>"
  have "k \<le> n \<Longrightarrow> agree M a b k (mt_mem (fold ?f [0..<k] s)) \<and> mt_err (fold ?f [0..<k] s) = mt_err s" for k
  proof (induction k)
    case (Suc k)
    then show ?case
      using assms
      by (auto simp: agree_def less_Suc_eq Let_def rd_wr32_index rd_wr32_apart [where n = n]
          split: prod.splits)
  qed (simp add: agree_def)
  then show ?thesis
    unfolding test_random_value_def by (intro quiet_pass_compare) auto
qed

lemma rd_update_both:
  assumes "a + 4 * n \<le> b \<or> b + 4 * n \<le> a" and "k \<le> n" and "j < n"
  shows "rd32 M (update_both M a b k f m) (a + 4 * j) =
      (if j < k then f (rd32 M m (a + 4 * j)) else rd32 M m (a + 4 * j)) \<and>
    rd32 M (update_both M a b k f m) (b + 4 * j) =
      (if j < k then f (rd32 M m (b + 4 * j)) else rd32 M m (b + 4 * j))"
  using assms(2,3)
proof (induction k arbitrary: j)
  case 0
  then show ?case by (simp add: update_both_def)
next
  case (Suc k)
  note ih = Suc.IH [of j] Suc.IH [of k]
  show ?case
    using Suc.prems ih assms(1)
    by (cases "j = k")
      (auto simp: update_both_def Let_def rd_wr32_index rd_wr32_apart [where n = n])
qed

lemma agree_update_both:
  assumes "a + 4 * n \<le> b \<or> b + 4 * n \<le> a" and "agree M a b n m"
  shows "agree M a b n (update_both M a b n f m)"
  using rd_update_both [OF assms(1) order_refl] assms(2) by (simp add: agree_def)

lemma op_comparison_ok:
  assumes "a + 4 * n \<le> b \<or> b + 4 * n \<le> a" and "agree M a b n (mt_mem s)"
  shows "quiet_pass M a b n s (op_comparison f M a b n s)"
  using agree_update_both [OF assms]
  by (auto simp: op_comparison_def split: prod.splits intro!: quiet_pass_compare)

text \<open>For an injective operation the result tells whether the halves agreed before.\<close>

lemma op_comparison_inj:
  assumes "a + 4 * n \<le> b \<or> b + 4 * n \<le> a" and "\<And>q. inj (\<lambda>v. f v q)"
  shows "fst (op_comparison f M a b n s) = 0 \<longleftrightarrow> agree M a b n (mt_mem s)"
proof -
  have "agree M a b n (update_both M a b n (\<lambda>v. f v q) (mt_mem s)) \<longleftrightarrow> agree M a b n (mt_mem s)" for q
    using rd_update_both [OF assms(1) order_refl, of _ "\<lambda>v. f v q" "mt_mem s"]
      inj_eq [OF assms(2) [of q]] by (simp add: agree_def)
  then show ?thesis
    by (auto simp: op_comparison_def compare_regions_spec split: prod.splits)
qed

lemma test_seqinc_ok:
  assumes "a + 4 * n \<le> b \<or> b + 4 * n \<le> a"
  shows "quiet_pass M a b n s (test_seqinc_comparison M a b n s)"
  using agree_set_regions [OF assms]
  by (auto simp: test_seqinc_comparison_def split: prod.splits intro!: quiet_pass_compare)

lemma rd_write_bytes: "rd32 M (write_bytes M p v m) p = v"
proof -
  have "[0..<UL_LEN div 8] = [0, 1, 2, 3]" by (simp add: upt_rec)
  then show ?thesis
    using rd_wr8_same [of 0 p] rd_wr8_same [of 1 p] rd_wr8_same [of 2 p] rd_wr8_same [of 3 p]
    by (simp add: write_bytes_def put_bytes_all [unfolded One_nat_def])
qed

lemma rd_write_bytes_other:
  assumes "p + 4 \<le> x \<or> x + 4 \<le> p"
  shows "rd32 M (write_bytes M p v m) x = rd32 M m x"
proof -
  have "[0..<UL_LEN div 8] = [0, 1, 2, 3]" by (simp add: upt_rec)
  then show ?thesis
    using assms by (auto simp: write_bytes_def rd_wr8_other)
qed

lemma rd_write_halves: "rd32 M (write_halves M p v m) p = v"
proof -
  have "[0..<UL_LEN div 16] = [0, 1]" by (simp add: upt_rec)
  then show ?thesis
    using rd_wr16_same [of 0 p] rd_wr16_same [of 1 p]
    by (simp add: write_halves_def put_halves_all [unfolded One_nat_def])
qed

lemma rd_write_halves_other:
  assumes "p + 4 \<le> x \<or> x + 4 \<le> p"
  shows "rd32 M (write_halves M p v m) x = rd32 M m x"
proof -
  have "[0..<UL_LEN div 16] = [0, 1]" by (simp add: upt_rec)
  then show ?thesis
    using assms by (auto simp: write_halves_def rd_wr16_other)
qed

lemma narrow_fill_agree:
  assumes dis: "p + 4 * n \<le> q \<or> q + 4 * n \<le> p"
    and same: "\<And>x v m. rd32 M (wrn x v m) x = v"
    and other: "\<And>x y v m. x + 4 \<le> y \<or> y + 4 \<le> x \<Longrightarrow> rd32 M (wrn x v m) y = rd32 M m y"
    and "k \<le> n"
  shows "agree M p q k (mt_mem (narrow_fill wrn M p q k s)) \<and>
    mt_err (narrow_fill wrn M p q k s) = mt_err s"
  using assms(4)
proof (induction k)
  case 0
  show ?case by (simp add: agree_def narrow_fill_def)
next
  case (Suc k)
  have w: "j < n \<Longrightarrow> i < n \<Longrightarrow> rd32 M (wrn (p + 4 * i) v m) (q + 4 * j) = rd32 M m (q + 4 * j)" for i j v m
    using dis by (auto intro!: other)
  have p: "rd32 M (wrn (p + 4 * i) v m) (p + 4 * j) = (if i = j then v else rd32 M m (p + 4 * j))" for i j v m
    by (cases "i = j") (auto simp: same intro!: other)
  show ?case
    using Suc dis
    by (auto simp: narrow_fill_def agree_def less_Suc_eq Let_def w p rd_wr32_index
        rd_wr32_apart [where n = n] split: prod.splits)
qed

lemma agree_commute: "agree M a b n m \<longleftrightarrow> agree M b a n m"
  by (auto simp: agree_def)

lemma narrow_attempts_ok:
  assumes dis: "a + 4 * n \<le> b \<or> b + 4 * n \<le> a"
    and same: "\<And>x v m. rd32 M (wrn x v m) x = v"
    and other: "\<And>x y v m. x + 4 \<le> y \<or> y + 4 \<le> x \<Longrightarrow> rd32 M (wrn x v m) y = rd32 M m y"
    and "as \<noteq> [] \<or> agree M a b n (mt_mem s)"
  shows "quiet_pass M a b n s (narrow_attempts wrn M a b n as s)"
  using assms(4)
proof (induction as arbitrary: s)
  case Nil
  then show ?case by (simp add: quiet_pass_def)
next
  case (Cons t as)
  let ?s = "if odd t then narrow_fill wrn M a b n s else narrow_fill wrn M b a n s"
  have ag: "agree M a b n (mt_mem ?s)" and er: "mt_err ?s = mt_err s"
    using narrow_fill_agree [OF dis same other order_refl, where s = s]
      narrow_fill_agree [OF _ same other order_refl, where p = b and q = a and s = s]
      dis agree_commute [of b a] by auto
  have "quiet_pass M a b n ?s (narrow_attempts wrn M a b n as ?s)"
    using Cons.IH ag by blast
  then show ?case
    using er by (simp add: compare_regions_agree [OF ag] quiet_pass_def Let_def split: if_splits)
qed

lemma rd_stuck_set:
  assumes "i < k"
  shows "rd32 M (stuck_set M a k j m) (a + 4 * i) = stuck_value j (a + 4 * i) i"
  using assms by (induction k) (auto simp: stuck_set_def rd_wr32_index)

lemma stuck_sweeps_ok: "\<exists>m. stuck_sweeps M a n js s = (0, s\<lparr>mt_mem := m\<rparr>)"
proof (induction js arbitrary: s)
  case Nil
  show ?case by (rule exI [of _ "mt_mem s"]) simp
next
  case (Cons j js)
  let ?s = "s\<lparr>mt_mem := stuck_set M a n j (mt_mem s)\<rparr>"
  have "stuck_check M a j is t = (0, t)"
    if "\<forall>i\<in>set is. rd32 M (mt_mem t) (a + 4 * i) = stuck_value j (a + 4 * i) i" for "is" t
    using that by (induction "is") auto
  from this [of "[0..<n]" ?s] have c: "stuck_check M a j [0..<n] ?s = (0, ?s)"
    by (simp add: rd_stuck_set)
  then show ?case
    using Cons.IH [of ?s] by auto
qed

lemma pattern_tests_ok:
  assumes "a + 4 * n \<le> b \<or> b + 4 * n \<le> a"
  shows "\<forall>t \<in> {test_random_value, test_seqinc_comparison, test_solidbits_comparison,
             test_blockseq_comparison, test_checkerboard_comparison, test_bitspread_comparison,
             test_bitflip_comparison, test_walkbits1_comparison, test_walkbits0_comparison,
             test_8bit_wide_random, test_16bit_wide_random}.
           quiet_pass M a b n s (t M a b n s)"
  using assms
  by (auto simp: test_solidbits_comparison_def test_blockseq_comparison_def
      test_checkerboard_comparison_def test_bitspread_comparison_def test_bitflip_comparison_def
      test_walkbits1_comparison_def test_walkbits0_comparison_def test_8bit_wide_random_def
      test_16bit_wide_random_def product_nonempty
      rd_write_bytes rd_write_bytes_other rd_write_halves rd_write_halves_other
      intro!: quiet_pass_sweeps test_random_value_ok test_seqinc_ok narrow_attempts_ok)

lemma update_tests_ok:
  assumes "a + 4 * n \<le> b \<or> b + 4 * n \<le> a" and "agree M a b n (mt_mem s)"
  shows "\<forall>t \<in> {test_xor_comparison, test_sub_comparison, test_mul_comparison,
             test_div_comparison, test_or_comparison, test_and_comparison}.
           quiet_pass M a b n s (t M a b n s)"
  using op_comparison_ok [OF assms]
  by (simp add: test_xor_comparison_def test_sub_comparison_def test_mul_comparison_def
      test_div_comparison_def test_or_comparison_def test_and_comparison_def)

end

subsection \<open>A byte store is working memory\<close>

definition le_word :: "(nat \<Rightarrow> u8) \<Rightarrow> nat \<Rightarrow> ul" where
  "le_word m a =
     ucast (m a) OR push_bit 8 (ucast (m (a + 1))) OR push_bit 16 (ucast (m (a + 2)))
       OR push_bit 24 (ucast (m (a + 3)))"

definition byte_machine ::
  "('r \<Rightarrow> u32 \<times> 'r) \<Rightarrow> (nat \<Rightarrow> ul) \<Rightarrow> bool \<Rightarrow> u64 \<Rightarrow> (nat \<Rightarrow> u8, 'r) machine" where
  "byte_machine rnd ov up pb =
     \<lparr>rd32 = le_word,
      wr32 = (\<lambda>a v m. m(a := byte_of 0 v, a + 1 := byte_of 1 v, a + 2 := byte_of 2 v,
                         a + 3 := byte_of 3 v)),
      wr16 = (\<lambda>a h m. m(a := ucast h, a + 1 := ucast (drop_bit 8 h))),
      wr8 = (\<lambda>a b m. m(a := b)),
      c_rand = rnd, over_shift = ov, use_phys = up, physaddrbase = pb\<rparr>"

lemma u8_no_bit: "8 \<le> i \<Longrightarrow> \<not> bit (w :: u8) i"
  using bit_imp_le_length [of w i] by auto

lemma bit_le_word: "bit (le_word m a) i \<longleftrightarrow> i < 32 \<and> bit (m (a + i div 8)) (i mod 8)"
proof -
  consider "i < 8" | "8 \<le> i" "i < 16" | "16 \<le> i" "i < 24" | "24 \<le> i" "i < 32" | "32 \<le> i"
    by linarith
  then show ?thesis
  proof cases
    case 2
    then have "i div 8 = 1 \<and> i mod 8 = i - 8 \<and> i - 8 < 32" by presburger
    with 2 show ?thesis by (simp add: le_word_def bit_simps u8_no_bit)
  next
    case 3
    then have "i div 8 = 2 \<and> i mod 8 = i - 16 \<and> i - 16 < 32" by presburger
    with 3 show ?thesis by (simp add: le_word_def bit_simps u8_no_bit)
  next
    case 4
    then have "i div 8 = 3 \<and> i mod 8 = i - 24 \<and> i - 24 < 32" by presburger
    with 4 show ?thesis by (simp add: le_word_def bit_simps u8_no_bit)
  qed (simp_all add: le_word_def bit_simps u8_no_bit)
qed

lemma le_word_cong: "(\<And>k. k < 4 \<Longrightarrow> m (a + k) = m' (a + k)) \<Longrightarrow> le_word m a = le_word m' a"
  by (rule bit_word_eqI) (simp add: bit_le_word)

lemma le_word_wr32:
  "le_word (m(a := byte_of 0 v, a + 1 := byte_of 1 v, a + 2 := byte_of 2 v, a + 3 := byte_of 3 v)) a = v"
proof (rule bit_word_eqI)
  fix i assume i: "i < LENGTH(32)"
  then have "i div 8 = 0 \<or> i div 8 = 1 \<or> i div 8 = 2 \<or> i div 8 = 3" by simp linarith
  moreover have "8 * (i div 8) + i mod 8 = i" by simp
  ultimately show "bit (le_word (m(a := byte_of 0 v, a + 1 := byte_of 1 v,
      a + 2 := byte_of 2 v, a + 3 := byte_of 3 v)) a) i = bit v i"
    using i by (elim disjE) (simp_all add: bit_le_word bit_byte_of, linarith)
qed

lemma le_word_wr8: "k < 4 \<Longrightarrow> le_word (m(b + k := x)) b = put_byte k x (le_word m b)"
proof (rule bit_word_eqI)
  fix i assume "k < 4" "i < LENGTH(32)"
  moreover have "i div 8 = k \<longleftrightarrow> 8 * k \<le> i \<and> i < 8 * k + 8" by linarith
  moreover have "8 * k \<le> i \<Longrightarrow> i < 8 * k + 8 \<Longrightarrow> i mod 8 = i - 8 * k"
    by (metis calculation(3) minus_mult_div_eq_mod)
  ultimately show "bit (le_word (m(b + k := x)) b) i = bit (put_byte k x (le_word m b)) i"
    by (auto simp: bit_le_word bit_put_byte)
qed

lemma put_half_as_bytes:
  assumes "k < 2"
  shows "put_byte (2 * k + 1) (ucast (drop_bit 8 h)) (put_byte (2 * k) (ucast h) w) = put_half k h w"
proof (rule bit_word_eqI)
  fix i assume i: "i < LENGTH(32)"
  have e: "8 + (i - 8 * (2 * k + 1)) = i - 16 * k" if "8 * (2 * k + 1) \<le> i"
    using that by simp
  show "bit (put_byte (2 * k + 1) (ucast (drop_bit 8 h)) (put_byte (2 * k) (ucast h) w)) i =
      bit (put_half k h w) i"
    using i e by (simp add: bit_put_byte bit_put_half bit_simps) linarith
qed

lemma le_word_wr16:
  assumes "k < 2"
  shows "le_word (m(b + 2 * k := ucast h, b + (2 * k + 1) := ucast (drop_bit 8 h))) b =
     put_half k h (le_word m b)"
proof -
  have "2 * k < 4" "2 * k + 1 < 4" using assms by auto
  then show ?thesis
    using put_half_as_bytes [OF assms] by (simp only: le_word_wr8)
qed

interpretation bm: ram "byte_machine rnd ov up pb"
proof
  fix a b k :: nat and v m x h
  let ?M = "byte_machine rnd ov up pb"
  show "rd32 ?M (wr32 ?M a v m) a = v"
    using le_word_wr32 by (simp add: byte_machine_def)
  show "rd32 ?M (wr32 ?M a v m) b = rd32 ?M m b" if "a + 4 \<le> b \<or> b + 4 \<le> a"
    using that by (auto simp: byte_machine_def intro!: le_word_cong)
  show "rd32 ?M (wr8 ?M (b + k) x m) b = put_byte k x (rd32 ?M m b)" if "k < 4"
    using that by (simp add: byte_machine_def le_word_wr8)
  show "rd32 ?M (wr8 ?M a x m) b = rd32 ?M m b" if "a < b \<or> b + 4 \<le> a"
    using that by (auto simp: byte_machine_def intro!: le_word_cong)
  show "rd32 ?M (wr16 ?M (b + 2 * k) h m) b = put_half k h (rd32 ?M m b)" if "k < 2"
    using le_word_wr16 [OF that, of m b h] by (simp add: byte_machine_def)
  show "rd32 ?M (wr16 ?M a h m) b = rd32 ?M m b" if "a + 2 \<le> b \<or> b + 4 \<le> a"
    using that by (auto simp: byte_machine_def intro!: le_word_cong)
qed

subsection \<open>Faulty memory\<close>

text \<open>Memory whose cells are read through a fault, and memory whose address decoder maps word
  \<open>i\<close> of the buffer at \<open>base\<close> to word \<open>d i\<close>.\<close>

definition read_fault ::
  "('m, 'r) machine \<Rightarrow> (nat \<Rightarrow> ul \<Rightarrow> ul) \<Rightarrow> ('m, 'r) machine" where
  "read_fault M flt = M\<lparr>rd32 := (\<lambda>m x. flt x (rd32 M m x))\<rparr>"

definition decoded :: "('m, 'r) machine \<Rightarrow> nat \<Rightarrow> (nat \<Rightarrow> nat) \<Rightarrow> ('m, 'r) machine" where
  "decoded M base d =
     M\<lparr>rd32 := (\<lambda>m x. rd32 M m (base + 4 * d ((x - base) div 4))),
       wr32 := (\<lambda>x. wr32 M (base + 4 * d ((x - base) div 4)))\<rparr>"

lemma set_regions_read_fault: "set_regions (read_fault M flt) = set_regions M"
  by (intro ext) (simp add: set_regions_def read_fault_def)

lemma solidbits_pattern_flip:
  "k < 32 \<Longrightarrow> bit (solidbits_pattern 1 i) k \<longleftrightarrow> \<not> bit (solidbits_pattern 0 i) k"
  using bit_mask_iff [where 'a = ul, of 32 k]
  by (auto simp: solidbits_pattern_def mask_eq_exp_minus_1 bit_simps possible_bit_def)

lemma stuck_value_inj:
  assumes "even p" "even q" "p < 2 ^ 32" "q < 2 ^ 32" "stuck_value j p i = stuck_value j q k"
  shows "p = q"
proof -
  have inj: "(of_nat p :: ul) = of_nat q \<Longrightarrow> p = q"
    using assms by (simp add: word_of_nat_eq_iff take_bit_nat_eq_self)
  have "\<not> bit (of_nat p :: ul) 0" "\<not> bit (of_nat q :: ul) 0"
    using assms by (simp_all add: bit_0)
  then have "(of_nat p :: ul) \<noteq> NOT (of_nat q)" "NOT (of_nat p :: ul) \<noteq> of_nat q"
    by (auto simp: bit_simps dest: arg_cong [where f = "\<lambda>w. bit w 0"])
  with inj assms(5) show ?thesis
    by (auto simp: stuck_value_def split: if_splits)
qed

lemma rd_decoded:
  "ram M \<Longrightarrow> rd32 (decoded M a d) (wr32 (decoded M a d) (a + 4 * i) v m) (a + 4 * j) =
     (if d i = d j then v else rd32 (decoded M a d) m (a + 4 * j))"
  by (simp add: decoded_def ram.rd_wr32_index)

lemma rd_stuck_set_decoded:
  assumes "ram M" and "inj_on d {..<n}" and "k \<le> n" and "i < k"
  shows "rd32 (decoded M a d) (stuck_set (decoded M a d) a k j m) (a + 4 * i) =
    stuck_value j (a + 4 * i) i"
  using assms(3,4)
proof (induction k)
  case (Suc k)
  have "d k = d i \<longleftrightarrow> k = i"
    using assms(2) Suc.prems by (auto dest: inj_onD)
  then show ?case
    using Suc by (simp add: stuck_set_def rd_decoded [OF assms(1)])
qed simp

lemma stuck_check_iff:
  "fst (stuck_check M a j is s) = 0 \<longleftrightarrow>
     (\<forall>i\<in>set is. rd32 M (mt_mem s) (a + 4 * i) = stuck_value j (a + 4 * i) i)"
  by (induction "is") auto

lemma stuck_check_range: "fst (stuck_check M a j is s) \<in> {0, - 1}"
  by (induction "is") auto

lemma stuck_sweeps_iff_one:
  "fst (stuck_sweeps M a n (j # js) s) = 0 \<Longrightarrow>
     fst (stuck_check M a j [0..<n] (s\<lparr>mt_mem := stuck_set M a n j (mt_mem s)\<rparr>)) = 0"
  by (auto simp: Let_def split: prod.splits if_splits)

lemma stuck_sweeps_all_ok:
  assumes "\<And>j m i. i < n \<Longrightarrow> rd32 M (stuck_set M a n j m) (a + 4 * i) = stuck_value j (a + 4 * i) i"
  shows "fst (stuck_sweeps M a n js s) = 0"
proof (induction js arbitrary: s)
  case (Cons j js)
  have "fst (stuck_check M a j [0..<n] (s\<lparr>mt_mem := stuck_set M a n j (mt_mem s)\<rparr>)) = 0"
    by (simp add: stuck_check_iff assms)
  then show ?case using Cons.IH by (auto simp: Let_def split: prod.splits)
qed simp

subsection \<open>Properties\<close>

text \<open>The comparison of the two halves returns 0 exactly when every pair of words is equal,
  and prints one message per differing pair, in order, with both values and the place; the
  memory and the random sequence are left alone.\<close>

lemma compare_regions_correct:
  "compare_regions M bufa bufb count s =
     (let w1 = (\<lambda>i. rd32 M (mt_mem s) (bufa + 4 * i)); w2 = (\<lambda>i. rd32 M (mt_mem s) (bufb + 4 * i))
      in (if map w1 [0..<count] = map w2 [0..<count] then 0 else - 1,
          s\<lparr>mt_err := mt_err s @ map (\<lambda>i. Mismatch (w1 i) (w2 i) (locate M i))
                                     (filter (\<lambda>i. w1 i \<noteq> w2 i) [0..<count])\<rparr>))"
  by (auto simp: compare_regions_spec agree_def mismatches_def Let_def)

text \<open>C2: the stuck address test on memory whose decoder sends word \<open>i\<close> of the buffer to cell
  \<open>d i\<close> passes exactly when no two words of the buffer share a cell.\<close>

theorem stuck_address_iff_decoder_injective:
  assumes "ram M" and "even bufa" and "bufa + 4 * count \<le> 2 ^ 32"
  shows "fst (test_stuck_address (decoded M bufa d) bufa count s) = 0 \<longleftrightarrow> inj_on d {..<count}"
proof
  let ?M = "decoded M bufa d"
  assume "fst (test_stuck_address ?M bufa count s) = 0"
  moreover have "[0..<16] = 0 # [1..<16::nat]" by (simp add: upt_conv_Cons)
  ultimately have "fst (stuck_check ?M bufa 0 [0..<count]
      (s\<lparr>mt_mem := stuck_set ?M bufa count 0 (mt_mem s)\<rparr>)) = 0"
    unfolding test_stuck_address_def using stuck_sweeps_iff_one by metis
  then have v: "i < count \<Longrightarrow> rd32 ?M (stuck_set ?M bufa count 0 (mt_mem s)) (bufa + 4 * i) =
      stuck_value 0 (bufa + 4 * i) i" for i
    by (simp add: stuck_check_iff)
  show "inj_on d {..<count}"
  proof (rule inj_onI)
    fix i k assume i: "i \<in> {..<count}" and k: "k \<in> {..<count}" and "d i = d k"
    then have "stuck_value 0 (bufa + 4 * i) i = stuck_value 0 (bufa + 4 * k) k"
      using v [of i] v [of k] by (simp add: decoded_def)
    then have "bufa + 4 * i = bufa + 4 * k"
      using i k assms(2,3) by (intro stuck_value_inj) auto
    then show "i = k" by simp
  qed
next
  assume "inj_on d {..<count}"
  then show "fst (test_stuck_address (decoded M bufa d) bufa count s) = 0"
    unfolding test_stuck_address_def
    using rd_stuck_set_decoded [OF assms(1) _ order_refl] by (intro stuck_sweeps_all_ok)
qed

theorem stuck_address_witness:
  "ram (byte_machine (\<lambda>g. (0, g)) (\<lambda>_. 0) False 0) \<and>
   fst (test_stuck_address (decoded (byte_machine (\<lambda>g. (0, g)) (\<lambda>_. 0) False 0) 4096 (\<lambda>i. i mod 2))
     4096 3 \<lparr>mt_mem = (\<lambda>_. 0), mt_rng = (), mt_err = []\<rparr>) \<noteq> 0"
proof -
  have "\<not> inj_on (\<lambda>i::nat. i mod 2) {..<3}"
    using inj_onD [of "\<lambda>i::nat. i mod 2" "{..<3}" 0 2] by auto
  then show ?thesis
    using bm.ram_axioms stuck_address_iff_decoder_injective
      [OF bm.ram_axioms, of 4096 3 "\<lambda>g. (0, g)" "\<lambda>_. 0" False 0 "\<lambda>i. i mod 2"
        "\<lparr>mt_mem = (\<lambda>_. 0), mt_rng = (), mt_err = []\<rparr>"] by simp
qed



text \<open>On working memory with two separate halves no test raises a false alarm: each of the
  tests that write their own values returns 0, prints nothing and leaves the halves equal, and
  so does each test that updates what is stored if the halves were equal before.\<close>

lemma tests_no_false_alarm:
  assumes "ram M" and "bufa + 4 * count \<le> bufb"
  shows "(\<forall>t \<in> {test_random_value, test_seqinc_comparison, test_solidbits_comparison,
             test_blockseq_comparison, test_checkerboard_comparison, test_bitspread_comparison,
             test_bitflip_comparison, test_walkbits1_comparison, test_walkbits0_comparison,
             test_8bit_wide_random, test_16bit_wide_random}.
           quiet_pass M bufa bufb count s (t M bufa bufb count s)) \<and>
         (agree M bufa bufb count (mt_mem s) \<longrightarrow>
           (\<forall>t \<in> {test_xor_comparison, test_sub_comparison, test_mul_comparison,
             test_div_comparison, test_or_comparison, test_and_comparison}.
           quiet_pass M bufa bufb count s (t M bufa bufb count s)))"
  using ram.pattern_tests_ok [OF assms(1), of bufa count bufb s]
    ram.update_tests_ok [OF assms(1), of bufa count bufb s] assms(2) by auto

text \<open>On working memory the xor and the sub test tell exactly whether the halves agreed before
  the test, so they find an error that happened since the previous test.\<close>

lemma xor_sub_tests_decide_agreement:
  assumes "ram M" and "bufa + 4 * count \<le> bufb"
  shows "(fst (test_xor_comparison M bufa bufb count s) = 0 \<longleftrightarrow> agree M bufa bufb count (mt_mem s)) \<and>
    (fst (test_sub_comparison M bufa bufb count s) = 0 \<longleftrightarrow> agree M bufa bufb count (mt_mem s))"
proof -
  have "inj (\<lambda>v::ul. v XOR q)" and "inj (\<lambda>v::ul. v - q)" for q
    by (auto intro!: injI) (metis xor_self_eq xor.assoc xor.right_neutral)
  then show ?thesis
    unfolding test_xor_comparison_def test_sub_comparison_def
    using ram.op_comparison_inj [OF assms(1)] assms(2) by blast
qed

theorem xor_sub_tests_witness:
  "fst (test_xor_comparison (byte_machine (\<lambda>g. (0, g)) (\<lambda>_. 0) False 0) 0 64 16
     \<lparr>mt_mem = (\<lambda>x. if x = 65 then 4 else 0), mt_rng = (), mt_err = []\<rparr>) \<noteq> 0"
proof -
  have "\<not> agree (byte_machine (\<lambda>g. (0, g)) (\<lambda>_. 0) False 0) 0 64 16
      (\<lambda>x. if x = 65 then 4 else (0 :: u8))"
    by (auto simp: agree_def byte_machine_def le_word_def intro!: exI [of _ 0])
  then show ?thesis
    using xor_sub_tests_decide_agreement [OF bm.ram_axioms, of 0 16 64 "\<lambda>g. (0, g)" "\<lambda>_. 0" False 0
        "\<lparr>mt_mem = (\<lambda>x. if x = 65 then 4 else 0), mt_rng = (), mt_err = []\<rparr>"] by simp
qed

end
