(* ===== verification/CLib.thy ===== *)
theory CLib
  imports Prelude
begin

text \<open>
  The functions of the C library the modelled programs call, on strings without their
  terminating NUL: the character classes of \<^verbatim>\<open><ctype.h>\<close>, \<^verbatim>\<open>strtoul\<close>,
  \<^verbatim>\<open>strtol\<close> and \<^verbatim>\<open>atoi\<close> with their end pointer and range error, \<^verbatim>\<open>strchr\<close>,
  \<^verbatim>\<open>strcasecmp\<close> and the integer conversions of \<^verbatim>\<open>printf\<close>. The section on round
  trips shows that scanning a printed number gives the number back.
\<close>

subsection \<open>Character classes\<close>

definition isspace :: "char \<Rightarrow> bool" where
  "isspace c \<longleftrightarrow> c = CHR '' '' \<or> (9 \<le> (of_char c :: nat) \<and> (of_char c :: nat) \<le> 13)"

definition isblank :: "char \<Rightarrow> bool" where
  "isblank c \<longleftrightarrow> c = CHR '' '' \<or> (of_char c :: nat) = 9"

definition isdigit :: "char \<Rightarrow> bool" where
  "isdigit c \<longleftrightarrow> 48 \<le> (of_char c :: nat) \<and> (of_char c :: nat) \<le> 57"

definition digit_val :: "char \<Rightarrow> nat" where
  "digit_val c =
     (let n = of_char c in
      if 48 \<le> n \<and> n \<le> 57 then n - 48
      else if 97 \<le> n \<and> n \<le> 122 then n - 87
      else if 65 \<le> n \<and> n \<le> 90 then n - 55
      else 99)"

definition isxdigit :: "char \<Rightarrow> bool" where
  "isxdigit c \<longleftrightarrow> digit_val c < 16"

definition tolower :: "char \<Rightarrow> char" where
  "tolower c =
     (let n = of_char c :: nat in if 65 \<le> n \<and> n \<le> 90 then char_of (n + 32) else c)"

subsection \<open>Strings\<close>

text \<open>\<open>strchr\<close> returns the suffix that starts at the character, or None for NULL.\<close>

fun strchr :: "cstr \<Rightarrow> char \<Rightarrow> cstr option" where
  "strchr [] c = None"
| "strchr (x # xs) c = (if x = c then Some (x # xs) else strchr xs c)"

definition strcaseeq :: "cstr \<Rightarrow> cstr \<Rightarrow> bool" where
  "strcaseeq s t \<longleftrightarrow> map tolower s = map tolower t"

abbreviation nl :: cstr where "nl \<equiv> [CHR 0x0A]"
abbreviation tab :: cstr where "tab \<equiv> [CHR 0x09]"

subsection \<open>Scanning numbers\<close>

definition scan_sign :: "cstr \<Rightarrow> bool \<times> cstr" where
  "scan_sign s =
     (case s of [] \<Rightarrow> (False, s)
      | c # t \<Rightarrow> if c = CHR ''-'' then (True, t)
                 else if c = CHR ''+'' then (False, t) else (False, s))"

text \<open>The base prefix: \<open>0x\<close> counts only before a hexadecimal digit.\<close>

definition scan_base :: "nat \<Rightarrow> cstr \<Rightarrow> nat \<times> cstr" where
  "scan_base base s =
     (if (base = 0 \<or> base = 16) \<and> 3 \<le> length s \<and> s ! 0 = CHR ''0'' \<and>
         (s ! 1 = CHR ''x'' \<or> s ! 1 = CHR ''X'') \<and> isxdigit (s ! 2)
      then (16, drop 2 s)
      else if base = 0
      then (if s \<noteq> [] \<and> hd s = CHR ''0'' then 8 else 10, s)
      else (base, s))"

definition digits_value :: "nat \<Rightarrow> nat list \<Rightarrow> nat" where
  "digits_value b ds = foldl (\<lambda>a d. a * b + d) 0 ds"

text \<open>Sign, digits and rest of a number at the start of the string; no digit is no number.\<close>

definition scan_number :: "nat \<Rightarrow> cstr \<Rightarrow> (bool \<times> nat \<times> cstr) option" where
  "scan_number base s =
     (let (neg, s2) = scan_sign (dropWhile isspace s);
          (b, s3) = scan_base base s2;
          ds = takeWhile (\<lambda>c. digit_val c < b) s3
      in if ds = [] then None
         else Some (neg, digits_value b (map digit_val ds), dropWhile (\<lambda>c. digit_val c < b) s3))"

text \<open>
  \<open>strtoul(s, &end, base)\<close> at width \<open>'a\<close>: the value, the suffix \<open>end\<close> points at, and
  whether \<open>errno\<close> is set to \<open>ERANGE\<close>, in which case the value is the largest one.
\<close>

definition strtou :: "nat \<Rightarrow> cstr \<Rightarrow> 'a::len word \<times> cstr \<times> bool" where
  "strtou base s =
     (case scan_number base s of
        None \<Rightarrow> (0, s, False)
      | Some (neg, v, r) \<Rightarrow>
          if 2 ^ LENGTH('a) \<le> v then (- 1, r, True)
          else (if neg then - of_nat v else of_nat v, r, False))"

definition strtoul :: "nat \<Rightarrow> cstr \<Rightarrow> ul" where
  "strtoul base s = fst (strtou base s)"

text \<open>\<open>strtol\<close> saturates at the bounds of a 32-bit \<open>long\<close>.\<close>

definition strtol :: "nat \<Rightarrow> cstr \<Rightarrow> int" where
  "strtol base s =
     (case scan_number base s of
        None \<Rightarrow> 0
      | Some (neg, v, r) \<Rightarrow>
          if neg then max (- (2 ^ 31)) (- int v) else min (2 ^ 31 - 1) (int v))"

definition atoi :: "cstr \<Rightarrow> int" where
  "atoi s = strtol 10 s"

subsection \<open>Printing numbers\<close>

function digits_of :: "nat \<Rightarrow> nat \<Rightarrow> nat list" where
  "digits_of b n = (if b < 2 \<or> n < b then [n] else digits_of b (n div b) @ [n mod b])"
  by pat_completeness auto
termination
  by (relation "measure snd") (auto simp: div_less_dividend)

definition digit_char :: "nat \<Rightarrow> char" where
  "digit_char d = char_of (if d < 10 then 48 + d else 87 + d)"

text \<open>\<open>%u\<close> is base 10 and \<open>%x\<close> base 16; \<open>%0wx\<close> pads with zeros up to the width.\<close>

definition fmt_base :: "nat \<Rightarrow> nat \<Rightarrow> cstr" where
  "fmt_base b n = map digit_char (digits_of b n)"

definition pad0 :: "nat \<Rightarrow> cstr \<Rightarrow> cstr" where
  "pad0 w s = replicate (w - length s) CHR ''0'' @ s"

definition fmt_u :: "nat \<Rightarrow> cstr" where
  "fmt_u n = fmt_base 10 n"

definition fmt_0x :: "nat \<Rightarrow> nat \<Rightarrow> cstr" where
  "fmt_0x w n = pad0 w (fmt_base 16 n)"

definition toupper_hex :: "char \<Rightarrow> char" where
  "toupper_hex c = (if 97 \<le> (of_char c :: nat) then char_of ((of_char c :: nat) - 32) else c)"

definition fmt_X :: "nat \<Rightarrow> nat \<Rightarrow> cstr" where
  "fmt_X w n = map toupper_hex (fmt_0x w n)"

definition fmt_d :: "int \<Rightarrow> cstr" where
  "fmt_d i = (if i < 0 then CHR ''-'' # fmt_u (nat (- i)) else fmt_u (nat i))"

declare digits_of.simps [simp del]

lemmas clib_defs [clib_simps] =
  isspace_def isblank_def isdigit_def digit_val_def isxdigit_def tolower_def strcaseeq_def
  scan_sign_def scan_base_def digits_value_def scan_number_def strtou_def strtoul_def
  strtol_def atoi_def fmt_base_def pad0_def fmt_u_def fmt_0x_def fmt_d_def digit_char_def
  digits_of.simps

subsection \<open>Round trips\<close>

lemma digits_value_snoc: "digits_value b (ds @ [d]) = digits_value b ds * b + d"
  by (simp add: digits_value_def)

lemma digits_value_digits_of: "2 \<le> b \<Longrightarrow> digits_value b (digits_of b n) = n"
proof (induction b n rule: digits_of.induct)
  case (1 b n)
  then show ?case
    by (cases "n < b")
      (simp_all add: digits_of.simps [of b n] digits_value_snoc, simp add: digits_value_def)
qed

lemma digits_of_less: "2 \<le> b \<Longrightarrow> d \<in> set (digits_of b n) \<Longrightarrow> d < b"
proof (induction b n rule: digits_of.induct)
  case (1 b n)
  then show ?case
    by (cases "n < b") (auto simp: digits_of.simps [of b n])
qed

lemma digits_of_nonempty [simp]: "digits_of b n \<noteq> []"
  by (simp add: digits_of.simps [of b n])

lemma of_char_digit_char:
  "d < 36 \<Longrightarrow> (of_char (digit_char d) :: nat) = (if d < 10 then 48 + d else 87 + d)"
  by (simp add: digit_char_def of_char_of)

lemma digit_val_digit_char [simp]: "d < 36 \<Longrightarrow> digit_val (digit_char d) = d"
  by (simp add: digit_val_def of_char_digit_char Let_def)

lemma digit_char_plain:
  assumes "d < 36"
  shows "\<not> isspace (digit_char d)" "digit_char d \<noteq> CHR ''-''" "digit_char d \<noteq> CHR ''+''"
proof -
  have "(of_char (digit_char d) :: nat) \<ge> 48"
    using assms by (simp add: of_char_digit_char)
  then show "\<not> isspace (digit_char d)" "digit_char d \<noteq> CHR ''-''" "digit_char d \<noteq> CHR ''+''"
    by (auto simp: isspace_def)
qed

lemma digit_char_nth: "d < 16 \<Longrightarrow> digit_char d = ''0123456789abcdef'' ! d"
proof -
  have "map digit_char [0..<16] = ''0123456789abcdef''" by code_simp
  then show "d < 16 \<Longrightarrow> digit_char d = ''0123456789abcdef'' ! d"
    using nth_map [of d "[0..<16]" digit_char] by simp
qed

lemma fmt_base_nonempty [simp]: "fmt_base b n \<noteq> []"
  by (simp add: fmt_base_def)

lemma fmt_base_digits:
  assumes "2 \<le> b" and "b \<le> 36" and "c \<in> set (fmt_base b n)"
  shows "digit_val c < b" and "\<exists>d<b. c = digit_char d"
proof -
  obtain d where d: "d \<in> set (digits_of b n)" "c = digit_char d"
    using assms(3) by (auto simp: fmt_base_def)
  then have "d < b" using digits_of_less assms(1) by blast
  with d assms(2) show "digit_val c < b" and "\<exists>d<b. c = digit_char d"
    by auto
qed

lemma map_digit_val_fmt_base:
  assumes "2 \<le> b" and "b \<le> 36"
  shows "map digit_val (fmt_base b n) = digits_of b n"
proof -
  have "map (digit_val \<circ> digit_char) (digits_of b n) = map id (digits_of b n)"
    using assms digits_of_less [of b _ n] by (intro map_cong) force+
  then show ?thesis by (simp add: fmt_base_def)
qed

text \<open>No digit of a base up to 33 prints as the \<open>x\<close> of a prefix, nor is it one of the
  characters that are no digit in any base.\<close>

lemma digit_char_not_x:
  assumes "d < 33"
  shows "digit_char d \<noteq> CHR ''x''" "digit_char d \<noteq> CHR ''X''"
proof -
  have "(of_char (digit_char d) :: nat) \<noteq> 120" "(of_char (digit_char d) :: nat) \<noteq> 88"
    using assms by (simp_all add: of_char_digit_char)
  then show "digit_char d \<noteq> CHR ''x''" "digit_char d \<noteq> CHR ''X''"
    by auto
qed

lemma scan_base_fmt_base:
  assumes "2 \<le> b" and "b \<le> 33" and "r = [] \<or> 36 \<le> digit_val (hd r)"
  shows "scan_base b (fmt_base b n @ r) = (b, fmt_base b n @ r)"
proof -
  have "(fmt_base b n @ r) ! 1 \<noteq> CHR ''x'' \<and> (fmt_base b n @ r) ! 1 \<noteq> CHR ''X''"
    if l: "2 \<le> length (fmt_base b n @ r)"
  proof (cases "2 \<le> length (fmt_base b n)")
    case True
    then have "(fmt_base b n @ r) ! 1 \<in> set (fmt_base b n)"
      by (simp add: nth_append)
    then obtain d where "d < b" "(fmt_base b n @ r) ! 1 = digit_char d"
      using fmt_base_digits(2) [of b _ n] assms by force
    then show ?thesis using digit_char_not_x [of d] assms by simp
  next
    case False
    moreover have "length (fmt_base b n) \<noteq> 0" by simp
    ultimately have "length (fmt_base b n) = 1" by linarith
    with l have "(fmt_base b n @ r) ! 1 = hd r" "r \<noteq> []"
      by (cases r; simp add: nth_append)+
    moreover have "digit_val CHR ''x'' = 33" "digit_val CHR ''X'' = 33"
      by (simp_all add: digit_val_def)
    ultimately show ?thesis using assms(3) by auto
  qed
  then show ?thesis using assms by (auto simp: scan_base_def)
qed

lemma scan_number_fmt_base:
  assumes "2 \<le> b" and "b \<le> 33" and "r = [] \<or> 36 \<le> digit_val (hd r)"
  shows "scan_number b (fmt_base b n @ r) = Some (False, n, r)"
proof -
  have b36: "b \<le> 36" using assms by simp
  obtain c cs where c: "fmt_base b n = c # cs"
    using fmt_base_nonempty by (metis list.exhaust)
  then obtain d where f: "c = digit_char d" "d < b"
    using fmt_base_digits(2) [of b c n] assms b36 by auto
  have s: "dropWhile isspace (fmt_base b n @ r) = fmt_base b n @ r"
    and g: "scan_sign (fmt_base b n @ r) = (False, fmt_base b n @ r)"
    using digit_char_plain [of d] c f b36 by (simp_all add: scan_sign_def)
  have p: "scan_base b (fmt_base b n @ r) = (b, fmt_base b n @ r)"
    using assms by (rule scan_base_fmt_base)
  have a: "list_all (\<lambda>c. digit_val c < b) (fmt_base b n)"
    using fmt_base_digits(1) [of b _ n] assms b36 by (simp add: list_all_iff)
  have stop: "r = [] \<or> \<not> digit_val (hd r) < b"
    using assms by auto
  note tw = takeWhile_append_stop [OF a stop] dropWhile_append_stop [OF a stop]
  show ?thesis
    using assms b36 unfolding scan_number_def
    by (simp add: s g p tw map_digit_val_fmt_base digits_value_digits_of)
qed

lemma strtoul_fmt_base:
  assumes "2 \<le> b" and "b \<le> 33" and "n < 2 ^ 32"
  shows "strtoul b (fmt_base b n) = of_nat n"
  using scan_number_fmt_base [of b "[]" n] assms by (simp add: strtoul_def strtou_def)

lemma atoi_fmt_u: "n < 2 ^ 31 \<Longrightarrow> atoi (fmt_u n) = int n"
  using scan_number_fmt_base [of 10 "[]" n] by (simp add: atoi_def strtol_def fmt_u_def)

subsection \<open>Hexadecimal fields of a fixed width\<close>

lemma length_digits_of: "2 \<le> b \<Longrightarrow> 0 < k \<Longrightarrow> n < b ^ k \<Longrightarrow> length (digits_of b n) \<le> k"
proof (induction b n arbitrary: k rule: digits_of.induct)
  case (1 b n)
  show ?case
  proof (cases "n < b")
    case False
    then obtain j where k: "k = Suc j" "0 < j"
      using "1.prems" by (cases k; cases "k - 1") auto
    have "n div b < b ^ j" using "1.prems" k by (simp add: less_mult_imp_div_less mult.commute)
    then show ?thesis using "1.IH" [of j] "1.prems" False k by (subst digits_of.simps) simp
  qed (use "1.prems" in \<open>subst digits_of.simps, simp\<close>)
qed

lemma length_fmt_0x: "0 < w \<Longrightarrow> n < 16 ^ w \<Longrightarrow> length (fmt_0x w n) = w"
  using length_digits_of [of 16 w n] by (simp add: fmt_0x_def pad0_def fmt_base_def)

lemma digits_value_zeros: "digits_value b (replicate k 0 @ ds) = digits_value b ds"
  by (induction k) (simp_all add: digits_value_def)

lemma value_fmt_0x: "digits_value 16 (map digit_val (fmt_0x w n)) = n"
proof -
  have "digit_val CHR ''0'' = 0" by (simp add: digit_val_def)
  then show ?thesis
    using map_digit_val_fmt_base [of 16 n] digits_value_digits_of [of 16 n]
    by (simp add: fmt_0x_def pad0_def digits_value_zeros)
qed

lemma fmt_0x_inj: "fmt_0x w m = fmt_0x w n \<Longrightarrow> m = n"
  by (metis value_fmt_0x)

lemma fmt_0x_digit: "c \<in> set (fmt_0x w n) \<Longrightarrow> digit_val c < 16"
  using fmt_base_digits(1) [of 16 c n]
  by (auto simp: fmt_0x_def pad0_def digit_val_def split: if_splits)

text \<open>With base 0 a number after \<open>0x\<close> is read as hexadecimal.\<close>

lemma scan_number_hex:
  assumes "r = [] \<or> 36 \<le> digit_val (hd r)"
  shows "scan_number 0 (''0x'' @ fmt_base 16 n @ r) = Some (False, n, r)"
proof -
  let ?s = "fmt_base 16 n"
  obtain c cs where c: "?s = c # cs" using fmt_base_nonempty by (metis list.exhaust)
  have d: "list_all (\<lambda>c. digit_val c < 16) ?s" by (auto simp: list_all_iff dest: fmt_base_digits(1) [rotated 2])
  have stop: "r = [] \<or> \<not> digit_val (hd r) < 16" using assms by auto
  have b: "scan_base 0 (''0x'' @ ?s @ r) = (16, ?s @ r)"
    using d by (simp add: scan_base_def c isxdigit_def)
  have s: "dropWhile isspace (''0x'' @ ?s @ r) = ''0x'' @ ?s @ r" "scan_sign (''0x'' @ ?s @ r) = (False, ''0x'' @ ?s @ r)"
    by (simp_all add: isspace_def scan_sign_def)
  show ?thesis
    unfolding scan_number_def s prod.case Let_def b takeWhile_append_stop [OF d stop] dropWhile_append_stop [OF d stop]
    by (simp add: map_digit_val_fmt_base digits_value_digits_of)
qed

lemma strtoul_hex:
  assumes "r = [] \<or> 36 \<le> digit_val (hd r)" and "n < 2 ^ 32"
  shows "strtoul 0 (''0x'' @ fmt_base 16 n @ r) = of_nat n"
  using scan_number_hex [OF assms(1), of n] assms(2) by (simp add: strtoul_def strtou_def)

lemma strchr_append: "c \<notin> set s \<Longrightarrow> strchr (s @ c # t) c = Some (c # t)"
  by (induction s) auto

lemma strchr_None: "strchr s c = None \<longleftrightarrow> c \<notin> set s"
  by (induction s) auto

subsection \<open>Decimal numbers where any base is read\<close>

lemma hd_digits_of: "2 \<le> b \<Longrightarrow> 0 < n \<Longrightarrow> hd (digits_of b n) \<noteq> 0"
proof (induction b n rule: digits_of.induct)
  case (1 b n)
  show ?case
  proof (cases "n < b")
    case False
    then have "0 < n div b" using "1.prems" by (simp add: div_greater_zero_iff)
    then show ?thesis using 1 False by (subst digits_of.simps) simp
  qed (use "1.prems" in \<open>subst digits_of.simps, simp\<close>)
qed

lemma scan_number_0_fmt_u: "scan_number 0 (fmt_u n) = Some (False, n, [])"
proof (cases "n = 0")
  case True
  have "scan_number 0 (fmt_u 0) = Some (False, 0, [])" by code_simp
  with True show ?thesis by simp
next
  case False
  obtain c cs where c: "fmt_base 10 n = c # cs" using fmt_base_nonempty by (metis list.exhaust)
  obtain d where d: "hd (digits_of 10 n) = d" "c = digit_char d"
    using c by (cases "digits_of 10 n") (auto simp: fmt_base_def)
  have "d < 10" using digits_of_less [of 10 d n] d(1) digits_of_nonempty by fastforce
  moreover have "d \<noteq> 0" using hd_digits_of [of 10 n] False d(1) by simp
  ultimately have z: "c \<noteq> CHR ''0''" using d(2) digit_val_digit_char [of d] by (auto simp: digit_val_def)
  have plain: "\<not> isspace c" "scan_sign (c # cs) = (False, c # cs)"
    using digit_char_plain [of d] \<open>d < 10\<close> d(2) by (simp_all add: scan_sign_def)
  have "scan_base 0 (c # cs) = (10, c # cs)" using z by (simp add: scan_base_def)
  moreover have "scan_base 10 (c # cs) = (10, c # cs)" by (simp add: scan_base_def)
  ultimately have "scan_number 0 (c # cs) = scan_number 10 (c # cs)"
    using plain by (simp add: scan_number_def)
  then show ?thesis using scan_number_fmt_base [of 10 "[]" n] c by (simp add: fmt_u_def)
qed

lemma strtoul_0_fmt_u:
  assumes "n < 2 ^ 32"
  shows "strtoul 0 (fmt_u n) = of_nat n"
  using assms by (simp add: strtoul_def strtou_def scan_number_0_fmt_u)

end
