(* ===== verification/Getopt.thy ===== *)
theory Getopt
  imports CLib
begin

text \<open>
  The option scanners of the C library, \<^verbatim>\<open>getopt\<close> and \<^verbatim>\<open>getopt_long\<close>, as the
  modelled programs call them: the arguments after the program name go in, the options in the
  order the calls return them come out, with the arguments left from \<^verbatim>\<open>optind\<close> on. The GNU
  scanner moves operands behind the options; the POSIX one stops at the first operand.
\<close>

text \<open>What a call returns: a character, or the number a long option is declared with.\<close>

datatype optcode = Opt char | OptN nat

type_synonym optev = "optcode \<times> cstr"

record longopt =
  lo_name :: cstr
  lo_arg :: bool
  lo_val :: optcode

definition opt_bad :: optev where
  "opt_bad = (Opt CHR ''?'', [])"

text \<open>The entry of the option string for a character: does it take an argument?\<close>

definition short_entry :: "cstr \<Rightarrow> char \<Rightarrow> bool option" where
  "short_entry optstring c =
     (if c = CHR '':'' then None
      else case strchr optstring c of
             None \<Rightarrow> None
           | Some t \<Rightarrow> Some (2 \<le> length t \<and> t ! 1 = CHR '':''))"

text \<open>A missing argument gives a colon if the option string starts with one.\<close>

definition opt_missing :: "cstr \<Rightarrow> optev" where
  "opt_missing optstring =
     (if optstring \<noteq> [] \<and> hd optstring = CHR '':'' then (Opt CHR '':'', []) else opt_bad)"

fun short_cluster :: "cstr \<Rightarrow> cstr \<Rightarrow> cstr list \<Rightarrow> optev list \<times> cstr list" where
  "short_cluster optstring [] args = ([], args)"
| "short_cluster optstring (c # cs) args =
     (case short_entry optstring c of
        None \<Rightarrow> apfst ((#) opt_bad) (short_cluster optstring cs args)
      | Some False \<Rightarrow> apfst ((#) (Opt c, [])) (short_cluster optstring cs args)
      | Some True \<Rightarrow>
          if cs \<noteq> [] then ([(Opt c, cs)], args)
          else (case args of
                  [] \<Rightarrow> ([opt_missing optstring], [])
                | a # as \<Rightarrow> ([(Opt c, a)], as)))"

text \<open>A long option by its name or an unambiguous abbreviation of it.\<close>

definition long_entry :: "longopt list \<Rightarrow> cstr \<Rightarrow> longopt option" where
  "long_entry lopts name =
     (case filter (\<lambda>l. lo_name l = name) lopts of
        l # _ \<Rightarrow> Some l
      | [] \<Rightarrow>
          (case filter (\<lambda>l. take (length name) (lo_name l) = name) lopts of
             [] \<Rightarrow> None
           | l # ls \<Rightarrow>
               if list_all (\<lambda>k. lo_arg k = lo_arg l \<and> lo_val k = lo_val l) ls then Some l else None))"

definition long_option ::
  "cstr \<Rightarrow> longopt list \<Rightarrow> cstr \<Rightarrow> cstr list \<Rightarrow> optev \<times> cstr list" where
  "long_option optstring lopts body args =
     (let name = takeWhile (\<lambda>c. c \<noteq> CHR ''='') body;
          value = dropWhile (\<lambda>c. c \<noteq> CHR ''='') body
      in case long_entry lopts name of
           None \<Rightarrow> (opt_bad, args)
         | Some l \<Rightarrow>
             if value \<noteq> []
             then (if lo_arg l then (lo_val l, tl value) else opt_bad, args)
             else if \<not> lo_arg l then ((lo_val l, []), args)
             else (case args of
                     [] \<Rightarrow> (opt_missing optstring, [])
                   | a # as \<Rightarrow> ((lo_val l, a), as)))"

text \<open>One element of \<open>argv\<close> that is an option, with the elements after it.\<close>

definition opt_element ::
  "cstr \<Rightarrow> longopt list \<Rightarrow> cstr \<Rightarrow> cstr list \<Rightarrow> optev list \<times> cstr list" where
  "opt_element optstring lopts a args =
     (if lopts \<noteq> [] \<and> take 2 a = ''--''
      then (let (e, rest) = long_option optstring lopts (drop 2 a) args in ([e], rest))
      else short_cluster optstring (tl a) args)"

definition is_option :: "cstr \<Rightarrow> bool" where
  "is_option a \<longleftrightarrow> 2 \<le> length a \<and> hd a = CHR ''-''"

lemma short_cluster_length: "length (snd (short_cluster o' cs args)) \<le> length args"
  by (induction cs) (auto simp: apfst_def map_prod_def split: option.splits bool.splits list.splits prod.splits)

lemma opt_element_length: "length (snd (opt_element o' l a args)) \<le> length args"
  by (auto simp: opt_element_def long_option_def short_cluster_length Let_def
      split: option.splits list.splits prod.splits)

lemma opt_element_shorter:
  "(es, rest) = opt_element o' l a args \<Longrightarrow> length rest < Suc (length args)"
  using opt_element_length [of o' l a args] by (cases "opt_element o' l a args") auto

function getopt_scan ::
  "bool \<Rightarrow> cstr \<Rightarrow> longopt list \<Rightarrow> cstr list \<Rightarrow> optev list \<times> cstr list" where
  "getopt_scan permute optstring lopts [] = ([], [])"
| "getopt_scan permute optstring lopts (a # args) =
     (if a = ''--'' then ([], args)
      else if is_option a
      then (let (es, rest) = opt_element optstring lopts a args;
                (es', ops) = getopt_scan permute optstring lopts rest
            in (es @ es', ops))
      else if permute
      then apsnd ((#) a) (getopt_scan permute optstring lopts args)
      else ([], a # args))"
  by pat_completeness auto
termination
  by (relation "measure (\<lambda>(_, _, _, as). length as)")
    (auto dest: opt_element_shorter)

text \<open>\<open>getopt\<close> of a program built for plain POSIX, of a GNU program, and \<open>getopt_long\<close>.\<close>

definition getopt_posix :: "cstr \<Rightarrow> cstr list \<Rightarrow> optev list \<times> cstr list" where
  "getopt_posix optstring args = getopt_scan False optstring [] args"

definition getopt :: "cstr \<Rightarrow> cstr list \<Rightarrow> optev list \<times> cstr list" where
  "getopt optstring args = getopt_scan True optstring [] args"

definition getopt_long :: "cstr \<Rightarrow> longopt list \<Rightarrow> cstr list \<Rightarrow> optev list \<times> cstr list" where
  "getopt_long optstring lopts args = getopt_scan True optstring lopts args"

lemmas getopt_defs [clib_simps] =
  getopt_posix_def getopt_def getopt_long_def opt_element_def is_option_def long_option_def
  long_entry_def opt_missing_def short_entry_def opt_bad_def

text \<open>Every operand that is left was an argument, and none is invented.\<close>

lemma short_cluster_operands: "set (snd (short_cluster o' cs args)) \<subseteq> set args"
  by (induction cs)
    (auto simp: apfst_def map_prod_def split: option.splits bool.splits list.splits prod.splits)

lemma opt_element_operands: "set (snd (opt_element o' l a args)) \<subseteq> set args"
  using short_cluster_operands [of o' "tl a" args]
  by (auto simp: opt_element_def long_option_def Let_def split: option.splits list.splits prod.splits)

lemma getopt_operands: "set (snd (getopt_scan p o' l args)) \<subseteq> set args"
proof (induction p o' l args rule: getopt_scan.induct)
  case (2 p o' l a args)
  obtain es rest where e: "opt_element o' l a args = (es, rest)" by force
  then have "set rest \<subseteq> set args"
    using opt_element_operands [of o' l a args] by simp
  then show ?case
    using 2 e by (auto simp: apsnd_def map_prod_def split: prod.splits) blast+
qed simp

text \<open>Without permutation the scan stops at an operand.\<close>

lemma getopt_posix_operand:
  "args \<noteq> [] \<Longrightarrow> \<not> is_option (hd args) \<Longrightarrow> getopt_posix o' args = ([], args)"
  by (cases args) (auto simp: getopt_posix_def is_option_def)

end
