(* ===== verification/Memtester.thy ===== *)
theory Memtester
  imports MemSound Getopt
begin

text \<open>
  The driver of \<^verbatim>\<open>src/memory_test/memtester/memtester.c\<close>: the environment variable that
  selects the tests, the options and operands, the allocation loop that asks for less memory
  until the system grants and locks it, and the loop over the tests. What the system answers
  to \<open>sysconf\<close>, \<open>stat\<close>, \<open>open\<close>, \<open>mmap\<close>, \<open>malloc\<close> and \<open>mlock\<close> is a parameter; progress
  output is left out. The program is built for plain POSIX, so \<open>getopt\<close> does not permute.
\<close>

subsection \<open>Results and parameters\<close>

abbreviation EXIT_FAIL_NONSTARTER :: ul where "EXIT_FAIL_NONSTARTER \<equiv> 1"
abbreviation EXIT_FAIL_ADDRESSLINES :: ul where "EXIT_FAIL_ADDRESSLINES \<equiv> 2"
abbreviation EXIT_FAIL_OTHERTEST :: ul where "EXIT_FAIL_OTHERTEST \<equiv> 4"

text \<open>Every early exit of \<open>main\<close>; all leave with \<open>EXIT_FAIL_NONSTARTER\<close>.\<close>

datatype mt_error =
    NoPageSize | BadTestMask | BadPhysaddr | PhysNotAligned | CannotStat cstr | NotCharDevice cstr
  | BadOption | DeviceWithoutPhys | NoMemArg | BadMemArg | BadMemSuffix | BeyondAddressable
  | BelowPageSize | BadLoops | LoopSuffix | OpenFailed cstr | MmapFailed cstr

record mt_opts =
  use_phys_opt :: bool
  physaddrbase_opt :: u64
  device_name :: cstr
  device_specified :: bool

definition mt_opts0 :: mt_opts where
  "mt_opts0 = \<lparr>use_phys_opt = False, physaddrbase_opt = 0, device_name = ''/dev/mem'',
     device_specified = False\<rparr>"

subsection \<open>Command line\<close>

text \<open>\<open>sysconf(_SC_PAGE_SIZE)\<close> as an int.\<close>

definition memtester_pagesize :: "int \<Rightarrow> mt_error + ul" where
  "memtester_pagesize sc = (if sc = - 1 then Inl NoPageSize else Inr (of_int sc))"

text \<open>The tests 0x7E need test 0x1 to fill the buffers first.\<close>

definition parse_testmask :: "cstr option \<Rightarrow> mt_error + ul" where
  "parse_testmask env =
     (case env of
        None \<Rightarrow> Inr 0
      | Some str \<Rightarrow>
          (let (testmask, rest, erange) = strtou 0 str in
           if erange then Inl BadTestMask
           else if testmask AND 0x7E \<noteq> 0 \<and> testmask AND 1 = 0 then Inr (testmask OR 1)
           else Inr testmask))"

text \<open>\<open>stat\<close> of a device: None if it fails, else whether it is a character device.\<close>

fun mt_option :: "(cstr \<Rightarrow> bool option) \<Rightarrow> ul \<Rightarrow> optev \<Rightarrow> mt_opts \<Rightarrow> mt_error + mt_opts" where
  "mt_option st pagesize (code, optarg) o' =
     (if code = Opt CHR ''p'' then
        (let (base, addrsuffix, erange) = (strtou 16 optarg :: u64 \<times> cstr \<times> bool) in
         if erange then Inl BadPhysaddr
         else if addrsuffix \<noteq> [] then Inl BadPhysaddr
         else if base AND ucast (pagesize - 1) \<noteq> 0 then Inl PhysNotAligned
         else Inr (o'\<lparr>physaddrbase_opt := base, use_phys_opt := True\<rparr>))
      else if code = Opt CHR ''d'' then
        (case st optarg of
           None \<Rightarrow> Inl (CannotStat optarg)
         | Some ischr \<Rightarrow>
             if \<not> ischr then Inl (NotCharDevice optarg)
             else Inr (o'\<lparr>device_name := optarg, device_specified := True\<rparr>))
      else Inl BadOption)"

fun mt_options ::
  "(cstr \<Rightarrow> bool option) \<Rightarrow> ul \<Rightarrow> optev list \<Rightarrow> mt_opts \<Rightarrow> mt_error + mt_opts" where
  "mt_options st pagesize [] o' = Inr o'"
| "mt_options st pagesize (e # es) o' =
     (case mt_option st pagesize e o' of Inl x \<Rightarrow> Inl x | Inr o1 \<Rightarrow> mt_options st pagesize es o1)"

definition mem_shift :: "cstr \<Rightarrow> nat option" where
  "mem_shift memsuffix =
     (case memsuffix of
        [] \<Rightarrow> Some 20
      | c # _ \<Rightarrow>
          if c = CHR ''G'' \<or> c = CHR ''g'' then Some 30
          else if c = CHR ''M'' \<or> c = CHR ''m'' then Some 20
          else if c = CHR ''K'' \<or> c = CHR ''k'' then Some 10
          else if c = CHR ''B'' \<or> c = CHR ''b'' then Some 0
          else None)"

definition parse_mem :: "ul \<Rightarrow> cstr \<Rightarrow> mt_error + ul" where
  "parse_mem pagesize arg =
     (let (wantraw, memsuffix, erange) = strtou 0 arg;
          maxbytes = - 1 :: ul; maxmb = drop_bit 20 maxbytes + 1
      in if erange then Inl BadMemArg
         else case mem_shift memsuffix of
                None \<Rightarrow> Inl BadMemSuffix
              | Some memshift \<Rightarrow>
                  (let wantbytes = push_bit memshift wantraw; wantmb = drop_bit 20 wantbytes in
                   if maxmb < wantmb then Inl BeyondAddressable
                   else if wantbytes < pagesize then Inl BelowPageSize
                   else Inr wantbytes))"

definition parse_loops :: "cstr list \<Rightarrow> mt_error + ul" where
  "parse_loops operands =
     (case operands of
        [] \<Rightarrow> Inr 0
      | a # _ \<Rightarrow>
          (let (loops, loopsuffix, erange) = strtou 0 a in
           if erange then Inl BadLoops else if loopsuffix \<noteq> [] then Inl LoopSuffix else Inr loops))"

text \<open>What the command line asks for.\<close>

record mt_job =
  j_pagesize :: ul
  j_testmask :: ul
  j_opts :: mt_opts
  j_wantbytes :: ul
  j_loops :: ul

definition mt_parse ::
  "int \<Rightarrow> (cstr \<Rightarrow> bool option) \<Rightarrow> cstr option \<Rightarrow> cstr list \<Rightarrow> mt_error + mt_job" where
  "mt_parse sc st env args =
     (case memtester_pagesize sc of Inl e \<Rightarrow> Inl e | Inr pagesize \<Rightarrow>
      (case parse_testmask env of Inl e \<Rightarrow> Inl e | Inr testmask \<Rightarrow>
       (let (es, operands) = getopt_posix ''p:d:'' args in
        case mt_options st pagesize es mt_opts0 of Inl e \<Rightarrow> Inl e | Inr o' \<Rightarrow>
        if device_specified o' \<and> \<not> use_phys_opt o' then Inl DeviceWithoutPhys
        else case operands of [] \<Rightarrow> Inl NoMemArg | arg # rest \<Rightarrow>
        (case parse_mem pagesize arg of Inl e \<Rightarrow> Inl e | Inr wantbytes \<Rightarrow>
         (case parse_loops rest of Inl e \<Rightarrow> Inl e | Inr loops \<Rightarrow>
          Inr \<lparr>j_pagesize = pagesize, j_testmask = testmask, j_opts = o',
               j_wantbytes = wantbytes, j_loops = loops\<rparr>)))))"

subsection \<open>Allocation\<close>

datatype mlock_answer = Locked | Eagain | Enomem | Eperm | OtherErrno

text \<open>The system calls, on a state of the system of their own; \<open>malloc\<close> gives 0 for NULL.\<close>

record 'e host =
  h_open :: "cstr \<Rightarrow> 'e \<Rightarrow> bool \<times> 'e"
  h_mmap :: "ul \<Rightarrow> u64 \<Rightarrow> 'e \<Rightarrow> ul option \<times> 'e"
  h_malloc :: "ul \<Rightarrow> 'e \<Rightarrow> ul \<times> 'e"
  h_free :: "ul \<Rightarrow> 'e \<Rightarrow> 'e"
  h_mlock :: "ul \<Rightarrow> ul \<Rightarrow> 'e \<Rightarrow> mlock_answer \<times> 'e"

record 'e mt_alloc =
  al_buf :: ul
  al_got :: ul
  al_aligned :: ul
  al_bufsize :: ul
  al_mlock :: bool
  al_env :: 'e

text \<open>\<open>while (!buf && wantbytes)\<close>, entered with \<open>buf\<close> NULL.\<close>

partial_function (option) malloc_down ::
  "'e host \<Rightarrow> ul \<Rightarrow> ul \<Rightarrow> 'e \<Rightarrow> (ul \<times> ul \<times> 'e) option" where
  "malloc_down H pagesize wantbytes e =
     (if wantbytes = 0 then Some (0, 0, e)
      else let (buf, e1) = h_malloc H wantbytes e in
           if buf \<noteq> 0 then Some (buf, wantbytes, e1)
           else malloc_down H pagesize (wantbytes - pagesize) e1)"

definition align_up :: "ul \<Rightarrow> ul \<Rightarrow> ul" where
  "align_up pagesize buf =
     (if buf mod pagesize \<noteq> 0 then (buf AND NOT (pagesize - 1)) + pagesize else buf)"

partial_function (option) alloc_loop ::
  "'e host \<Rightarrow> ul \<Rightarrow> ul \<Rightarrow> bool \<Rightarrow> ul \<Rightarrow> ul \<Rightarrow> 'e \<Rightarrow> 'e mt_alloc option" where
  "alloc_loop H pagesize orig do_mlock wantbytes aligned e =
     Option.bind (malloc_down H pagesize wantbytes e) (\<lambda>(buf, got, e1).
       if do_mlock then
         (let aligned' = align_up pagesize buf;
              bufsize = got - (aligned' - buf);
              (r, e2) = h_mlock H aligned' bufsize e1
          in if r = Locked then
               Some \<lparr>al_buf = buf, al_got = got, al_aligned = aligned', al_bufsize = bufsize,
                     al_mlock = True, al_env = e2\<rparr>
             else if r = Eagain \<or> r = Enomem then
               alloc_loop H pagesize orig True (got - pagesize) aligned' (h_free H buf e2)
             else if r = Eperm then
               alloc_loop H pagesize orig False orig aligned' (h_free H buf e2)
             else
               Some \<lparr>al_buf = buf, al_got = got, al_aligned = aligned', al_bufsize = bufsize,
                     al_mlock = False, al_env = e2\<rparr>)
       else
         Some \<lparr>al_buf = buf, al_got = got, al_aligned = aligned, al_bufsize = got,
               al_mlock = False, al_env = e1\<rparr>)"

text \<open>With \<open>-p\<close> the buffer is mapped from the device and no less is accepted.\<close>

definition map_phys :: "'e host \<Rightarrow> mt_job \<Rightarrow> 'e \<Rightarrow> mt_error + 'e mt_alloc" where
  "map_phys H j e =
     (let dev = device_name (j_opts j); (ok, e1) = h_open H dev e in
      if \<not> ok then Inl (OpenFailed dev)
      else let (m, e2) = h_mmap H (j_wantbytes j) (physaddrbase_opt (j_opts j)) e1 in
        case m of None \<Rightarrow> Inl (MmapFailed dev)
        | Some buf \<Rightarrow>
            (let (r, e3) = h_mlock H buf (j_wantbytes j) e2 in
             Inr \<lparr>al_buf = buf, al_got = j_wantbytes j, al_aligned = buf,
                  al_bufsize = j_wantbytes j, al_mlock = (r = Locked), al_env = e3\<rparr>))"

text \<open>\<open>aligned0\<close> is what the uninitialised variable \<open>aligned\<close> holds.\<close>

definition mt_allocate ::
  "'e host \<Rightarrow> mt_job \<Rightarrow> ul \<Rightarrow> 'e \<Rightarrow> (mt_error + 'e mt_alloc) option" where
  "mt_allocate H j aligned0 e =
     (if use_phys_opt (j_opts j) then Some (map_phys H j e)
      else map_option Inr
             (alloc_loop H (j_pagesize j) (j_wantbytes j) True (j_wantbytes j) aligned0 e))"

subsection \<open>The test loop\<close>

definition tests :: "(cstr \<times> ('m, 'r) mem_test) list" where
  "tests =
     [(''Random Value'', test_random_value), (''Compare XOR'', test_xor_comparison),
      (''Compare SUB'', test_sub_comparison), (''Compare MUL'', test_mul_comparison),
      (''Compare DIV'', test_div_comparison), (''Compare OR'', test_or_comparison),
      (''Compare AND'', test_and_comparison), (''Sequential Increment'', test_seqinc_comparison),
      (''Solid Bits'', test_solidbits_comparison), (''Block Sequential'', test_blockseq_comparison),
      (''Checkerboard'', test_checkerboard_comparison), (''Bit Spread'', test_bitspread_comparison),
      (''Bit Flip'', test_bitflip_comparison), (''Walking Ones'', test_walkbits1_comparison),
      (''Walking Zeroes'', test_walkbits0_comparison), (''8-bit Writes'', test_8bit_wide_random),
      (''16-bit Writes'', test_16bit_wide_random)]"

definition selected :: "ul \<Rightarrow> nat \<Rightarrow> bool" where
  "selected testmask i \<longleftrightarrow> \<not> (testmask \<noteq> 0 \<and> push_bit i 1 AND testmask = 0)"

fun run_tests ::
  "('m, 'r) machine \<Rightarrow> ul \<Rightarrow> nat \<Rightarrow> nat \<Rightarrow> nat \<Rightarrow> nat \<Rightarrow> (cstr \<times> ('m, 'r) mem_test) list \<Rightarrow>
   ul \<times> ('m, 'r) mt_state \<Rightarrow> ul \<times> ('m, 'r) mt_state" where
  "run_tests M testmask bufa bufb count i [] (exit_code, s) = (exit_code, s)"
| "run_tests M testmask bufa bufb count i ((name, fp) # ts) (exit_code, s) =
     (if \<not> selected testmask i
      then run_tests M testmask bufa bufb count (Suc i) ts (exit_code, s)
      else let (r, s') = fp M bufa bufb count s in
           run_tests M testmask bufa bufb count (Suc i) ts
             (if r = 0 then exit_code else exit_code OR EXIT_FAIL_OTHERTEST, s'))"

definition one_loop ::
  "('m, 'r) machine \<Rightarrow> ul \<Rightarrow> ul \<Rightarrow> ul \<Rightarrow> ul \<times> ('m, 'r) mt_state \<Rightarrow> ul \<times> ('m, 'r) mt_state" where
  "one_loop M testmask aligned bufsize p =
     (let (exit_code, s) = p;
          halflen = bufsize div 2;
          count = halflen div 4;
          bufa = unat aligned;
          bufb = unat (aligned + halflen);
          (r, s1) = test_stuck_address M (unat aligned) (unat (bufsize div 4)) s
      in run_tests M testmask bufa bufb (unat count) 0 tests
           (if r = 0 then exit_code else exit_code OR EXIT_FAIL_ADDRESSLINES, s1))"

partial_function (option) mt_loop ::
  "('m, 'r) machine \<Rightarrow> ul \<Rightarrow> ul \<Rightarrow> ul \<Rightarrow> ul \<Rightarrow> ul \<Rightarrow> ul \<times> ('m, 'r) mt_state \<Rightarrow>
   (ul \<times> ('m, 'r) mt_state) option" where
  "mt_loop M testmask aligned bufsize loops loop p =
     (if loops = 0 \<or> loop \<le> loops
      then mt_loop M testmask aligned bufsize loops (loop + 1) (one_loop M testmask aligned bufsize p)
      else Some p)"

text \<open>The exit status and the state at the end; None if the program does not end.\<close>

definition mt_main ::
  "'e host \<Rightarrow> ('m, 'r) machine \<Rightarrow> int \<Rightarrow> (cstr \<Rightarrow> bool option) \<Rightarrow> cstr option \<Rightarrow> cstr list \<Rightarrow> ul \<Rightarrow>
   'e \<Rightarrow> ('m, 'r) mt_state \<Rightarrow> (ul \<times> ('m, 'r) mt_state) option" where
  "mt_main H M sc st env args aligned0 e s =
     (case mt_parse sc st env args of
        Inl _ \<Rightarrow> Some (EXIT_FAIL_NONSTARTER, s)
      | Inr j \<Rightarrow>
          Option.bind (mt_allocate H j aligned0 e) (\<lambda>r.
            case r of Inl _ \<Rightarrow> Some (EXIT_FAIL_NONSTARTER, s)
            | Inr al \<Rightarrow>
                mt_loop (M\<lparr>use_phys := use_phys_opt (j_opts j),
                           physaddrbase := physaddrbase_opt (j_opts j)\<rparr>)
                  (j_testmask j) (al_aligned al) (al_bufsize al) (j_loops j) 1 (0, s)))"

subsection \<open>The test mask and the exit status\<close>

lemma push_bit_and_neq_0: "push_bit i 1 AND w \<noteq> 0 \<longleftrightarrow> bit (w :: ul) i"
  by (simp add: bit_iff_and_push_bit_not_eq_0 and.commute)

lemma parse_testmask_filled:
  assumes "parse_testmask env = Inr tm"
  shows "tm AND 0x7E = 0 \<or> bit tm 0"
proof (cases env)
  case None
  then show ?thesis using assms by (simp add: parse_testmask_def)
next
  case (Some str)
  obtain w r er where w: "(strtou 0 str :: ul \<times> cstr \<times> bool) = (w, r, er)"
    by (cases "strtou 0 str :: ul \<times> cstr \<times> bool")
  have "bit (w OR 1) 0" and "w AND 1 \<noteq> 0 \<Longrightarrow> bit w 0"
    using push_bit_and_neq_0 [of 0 w] by (simp_all add: bit_or_iff and.commute)
  then show ?thesis
    using assms Some w by (auto simp: parse_testmask_def split: if_splits)
qed

text \<open>A test that updates what is stored is selected only with the test that fills the buffer.\<close>

lemma selected_filled:
  assumes "tm AND 0x7E = 0 \<or> bit tm 0" and "selected tm i" and "1 \<le> i" and "i \<le> 6"
  shows "selected tm 0"
proof (cases "tm = 0")
  case False
  have "bit (0x7E :: ul) i"
    using assms(3,4) by (auto simp: le_Suc_eq numeral_eq_Suc)
  then have "bit tm i \<Longrightarrow> bit (tm AND 0x7E) i" by (simp add: bit_simps)
  then show ?thesis
    using assms(1,2) False push_bit_and_neq_0 [of i tm] push_bit_and_neq_0 [of 0 tm]
    by (auto simp: selected_def)
qed (simp add: selected_def)

lemma run_tests_append:
  "run_tests M tm a b n i (xs @ ys) p = run_tests M tm a b n (i + length xs) ys (run_tests M tm a b n i xs p)"
proof (induction xs arbitrary: i p)
  case Nil
  show ?case by (cases p) (cases ys; simp)
next
  case (Cons x xs)
  show ?case by (cases p; cases x) (simp add: Cons.IH split: prod.splits)
qed

lemma run_tests_skip:
  "(\<And>k. i \<le> k \<Longrightarrow> k < i + length ts \<Longrightarrow> \<not> selected tm k) \<Longrightarrow> run_tests M tm a b n i ts p = p"
proof (induction ts arbitrary: i p)
  case Nil
  show ?case by (cases p) simp
next
  case (Cons x ts)
  show ?case using Cons.prems [of i] Cons.prems by (cases p; cases x) (simp add: Cons.IH)
qed

text \<open>Tests that pass quietly whenever the halves agree, or whenever they are run.\<close>

lemma run_tests_agree:
  assumes "\<forall>t \<in> snd ` set ts. \<forall>s. agree M a b n (mt_mem s) \<longrightarrow> quiet_pass M a b n s (t M a b n s)"
    and "agree M a b n (mt_mem s)"
  shows "\<exists>s'. run_tests M tm a b n i ts (ec, s) = (ec, s') \<and> mt_err s' = mt_err s"
  using assms
proof (induction ts arbitrary: i s)
  case (Cons x ts)
  obtain nm t where x: "x = (nm, t)" by force
  obtain r s1 where t: "t M a b n s = (r, s1)" by force
  then have "r = 0" "mt_err s1 = mt_err s" "agree M a b n (mt_mem s1)"
    using Cons.prems x by (auto simp: quiet_pass_def)
  then show ?case
    using Cons.IH [of s "Suc i"] Cons.IH [of s1 "Suc i"] Cons.prems x t by auto
qed simp

lemma run_tests_quiet:
  assumes "\<forall>t \<in> snd ` set ts. \<forall>s. quiet_pass M a b n s (t M a b n s)"
  shows "\<exists>s'. run_tests M tm a b n i ts (ec, s) = (ec, s') \<and> mt_err s' = mt_err s"
  using assms
proof (induction ts arbitrary: i s)
  case (Cons x ts)
  obtain nm t where x: "x = (nm, t)" by force
  obtain r s1 where t: "t M a b n s = (r, s1)" by force
  moreover have "quiet_pass M a b n s (t M a b n s)"
    using Cons.prems x by simp
  ultimately have "r = 0" "mt_err s1 = mt_err s"
    by (simp_all add: quiet_pass_def)
  then show ?case
    using Cons.IH [of "Suc i" s] Cons.IH [of "Suc i" s1] Cons.prems x t by auto
qed simp

lemma tests_split: "tests = take 1 tests @ take 6 (drop 1 tests) @ drop 7 tests"
  and tests_Cons: "tests = (''Random Value'', test_random_value) # drop 1 tests"
  and length_tests [simp]: "length tests = 17"
  by (simp_all add: tests_def)

lemma run_all_tests_quiet:
  assumes "ram M" and "a + 4 * n \<le> b" and tm: "tm AND 0x7E = 0 \<or> bit tm 0"
  shows "\<exists>s'. run_tests M tm a b n 0 tests (ec, s) = (ec, s') \<and> mt_err s' = mt_err s"
proof (cases "selected tm 0")
  case True
  obtain s1 where r: "test_random_value M a b n s = (0, s1)" "mt_err s1 = mt_err s" "agree M a b n (mt_mem s1)"
    using ram.test_random_value_ok [OF assms(1), of a n b s] assms(2)
    by (cases "test_random_value M a b n s") (auto simp: quiet_pass_def)
  have "\<forall>t \<in> snd ` set (drop 1 tests). \<forall>s. agree M a b n (mt_mem s) \<longrightarrow> quiet_pass M a b n s (t M a b n s)"
    using ram.pattern_tests_ok [OF assms(1), of a n b] ram.update_tests_ok [OF assms(1), of a n b] assms(2)
    by (simp add: tests_def)
  from run_tests_agree [OF this r(3), of tm 1 ec] show ?thesis
    using True r by (subst tests_Cons) simp
next
  case False
  have "run_tests M tm a b n 1 (take 6 (drop 1 tests)) (ec, s) = (ec, s)"
    using selected_filled [OF tm] False by (intro run_tests_skip) fastforce
  moreover have "run_tests M tm a b n 0 (take 1 tests) (ec, s) = (ec, s)"
    using False by (intro run_tests_skip) auto
  moreover have "\<forall>t \<in> snd ` set (drop 7 tests). \<forall>s. quiet_pass M a b n s (t M a b n s)"
    using ram.pattern_tests_ok [OF assms(1), of a n b] assms(2) by (simp add: tests_def)
  then obtain s' where "run_tests M tm a b n 7 (drop 7 tests) (ec, s) = (ec, s')" "mt_err s' = mt_err s"
    using run_tests_quiet by blast
  ultimately have "run_tests M tm a b n 0 (take 1 tests @ take 6 (drop 1 tests) @ drop 7 tests) (ec, s) = (ec, s')"
    by (simp only: run_tests_append) simp
  then show ?thesis
    using \<open>mt_err s' = mt_err s\<close> tests_split by metis
qed

lemma stuck_quiet:
  assumes "ram M"
  shows "\<exists>s'. test_stuck_address M a n s = (0, s') \<and> mt_err s' = mt_err s"
  using ram.stuck_sweeps_ok [OF assms, of a n "[0..<16]" s] unfolding test_stuck_address_def by fastforce

lemma one_loop_quiet:
  assumes "ram M" and "tm AND 0x7E = 0 \<or> bit tm 0" and "unat aligned + unat bufsize \<le> 2 ^ 32"
  shows "\<exists>s'. one_loop M tm aligned bufsize (ec, s) = (ec, s') \<and> mt_err s' = mt_err s"
proof -
  have h: "unat (bufsize div 2) = unat bufsize div 2" and c: "unat (bufsize div 2 div 4) = unat bufsize div 2 div 4"
    by (simp_all add: unat_div)
  have "unat aligned + unat bufsize div 2 < 2 ^ 32"
    using assms(3) unsigned_less [of aligned] by (cases "unat bufsize = 0") auto
  then have "unat (aligned + bufsize div 2) = unat aligned + unat bufsize div 2"
    by (simp add: unat_word_ariths h)
  then have dis: "unat aligned + 4 * unat (bufsize div 2 div 4) \<le> unat (aligned + bufsize div 2)"
    by (simp add: c)
  obtain s1 where "test_stuck_address M (unat aligned) (unat (bufsize div 4)) s = (0, s1)" "mt_err s1 = mt_err s"
    using stuck_quiet [OF assms(1)] by blast
  then show ?thesis
    using run_all_tests_quiet [OF assms(1) dis assms(2), of ec s1] by (simp add: one_loop_def Let_def)
qed

lemma one_loop_iter_quiet:
  assumes "ram M" and "tm AND 0x7E = 0 \<or> bit tm 0" and "unat aligned + unat bufsize \<le> 2 ^ 32"
  shows "\<exists>s'. (one_loop M tm aligned bufsize ^^ k) (ec, s) = (ec, s') \<and> mt_err s' = mt_err s"
proof (induction k)
  case (Suc k)
  then obtain s' where "(one_loop M tm aligned bufsize ^^ k) (ec, s) = (ec, s')" "mt_err s' = mt_err s"
    by blast
  then show ?case using one_loop_quiet [OF assms, of ec s'] by auto
qed simp

lemma ram_update:
  assumes "ram M"
  shows "ram (M\<lparr>use_phys := u, physaddrbase := b\<rparr>)"
  using assms unfolding ram_def by simp

subsection \<open>Messages and exit status\<close>

text \<open>The exit status a list of failure messages stands for.\<close>

fun exit_bits :: "report list \<Rightarrow> ul" where
  "exit_bits [] = 0"
| "exit_bits (Mismatch _ _ _ # rs) = EXIT_FAIL_OTHERTEST OR exit_bits rs"
| "exit_bits (BadAddressLine _ # rs) = EXIT_FAIL_ADDRESSLINES OR exit_bits rs"

lemma exit_bits_append: "exit_bits (xs @ ys) = exit_bits xs OR exit_bits ys"
  by (induction xs rule: exit_bits.induct) (simp_all add: or.assoc)

lemma exit_bits_eq_0: "exit_bits rs = 0 \<longleftrightarrow> rs = []"
  by (induction rs rule: exit_bits.induct)
    (simp_all add: or_eq_0_iff)

definition reports :: "ul \<Rightarrow> ('m, 'r) mt_state \<Rightarrow> int \<times> ('m, 'r) mt_state \<Rightarrow> bool" where
  "reports bits s p \<longleftrightarrow>
     (\<exists>l. mt_err (snd p) = mt_err s @ l \<and> exit_bits l = (if fst p = 0 then 0 else bits))"

lemma reports_trans:
  assumes "mt_err s = mt_err t" and "reports b s p"
  shows "reports b t p"
  using assms by (simp add: reports_def)

lemma reports_0: "mt_err t = mt_err s \<Longrightarrow> reports b s (0, t)"
  by (simp add: reports_def)

lemma reports_quiet: "reports b s (0, t) \<Longrightarrow> mt_err t = mt_err s"
  by (auto simp: reports_def exit_bits_eq_0)

lemma reports_compare: "reports EXIT_FAIL_OTHERTEST s (compare_regions M a b n s)"
proof -
  have "exit_bits (map (\<lambda>i. Mismatch (f i) (g i) (h i)) xs) = (if xs = [] then 0 else EXIT_FAIL_OTHERTEST)"
    for f g h and xs :: "nat list"
    by (induction xs) auto
  then show ?thesis
    by (simp add: reports_def compare_regions_spec mismatches_Nil)
qed

lemma reports_compare': "mt_err s1 = mt_err s \<Longrightarrow> reports EXIT_FAIL_OTHERTEST s (compare_regions M a b n s1)"
  by (rule reports_trans [OF _ reports_compare])

lemma reports_sweeps: "reports EXIT_FAIL_OTHERTEST s (sweeps M a b n pat js s)"
proof (induction js arbitrary: s)
  case (Cons j js)
  let ?s = "s\<lparr>mt_mem := set_regions M a b n (pat j) (mt_mem s)\<rparr>"
  obtain r s1 where c: "compare_regions M a b n ?s = (r, s1)" by force
  have rep: "reports EXIT_FAIL_OTHERTEST s (r, s1)"
    using reports_compare' [of ?s s] c by (metis mt_state.select_convs(3) mt_state.surjective mt_state.update_convs(1))
  show ?case
  proof (cases "r = 0")
    case True
    then have "mt_err s1 = mt_err s" using rep reports_quiet by blast
    then show ?thesis using reports_trans [OF _ Cons.IH, of s1 s] c True by simp
  next
    case False
    then show ?thesis using rep c by (simp add: reports_def)
  qed
qed (simp add: reports_0)

lemma mt_err_narrow_fill [simp]: "mt_err (narrow_fill wrn M p q n s) = mt_err s"
  by (induction n) (auto simp: narrow_fill_def Let_def split: prod.splits)

lemma reports_narrow: "reports EXIT_FAIL_OTHERTEST s (narrow_attempts wrn M a b n as s)"
proof (induction "as" arbitrary: s)
  case (Cons t as)
  let ?s = "if odd t then narrow_fill wrn M a b n s else narrow_fill wrn M b a n s"
  obtain r s1 where c: "compare_regions M a b n ?s = (r, s1)" by force
  have rep: "reports EXIT_FAIL_OTHERTEST s (r, s1)"
    using reports_compare' [of ?s s M a b n] c by simp
  show ?case
  proof (cases "r = 0")
    case True
    then have "mt_err s1 = mt_err s" using rep reports_quiet by blast
    then show ?thesis using reports_trans [OF _ Cons.IH, of s1 s] c True by (simp add: Let_def)
  next
    case False
    then show ?thesis using rep c by (simp add: reports_def Let_def)
  qed
qed (simp add: reports_0)

lemma reports_op: "reports EXIT_FAIL_OTHERTEST s (op_comparison f M a b n s)"
  by (auto simp: op_comparison_def split: prod.splits intro!: reports_compare')

lemma reports_random: "reports EXIT_FAIL_OTHERTEST s (test_random_value M a b n s)"
proof -
  have "mt_err (fold (\<lambda>i s. let (v, g) = rand_ul M (mt_rng s)
      in s\<lparr>mt_mem := wr32 M (a + 4 * i) v (wr32 M (b + 4 * i) v (mt_mem s)), mt_rng := g\<rparr>) [0..<k] s) =
    mt_err s" for k
    by (induction k) (auto split: prod.splits)
  then show ?thesis
    unfolding test_random_value_def by (intro reports_compare')
qed

lemma reports_seqinc: "reports EXIT_FAIL_OTHERTEST s (test_seqinc_comparison M a b n s)"
  by (auto simp: test_seqinc_comparison_def split: prod.splits intro!: reports_compare')

lemma reports_tests: "(nm, t) \<in> set tests \<Longrightarrow> reports EXIT_FAIL_OTHERTEST s (t M a b n s)"
  by (auto simp: tests_def reports_random reports_op reports_seqinc reports_sweeps reports_narrow
      test_xor_comparison_def test_sub_comparison_def test_mul_comparison_def
      test_div_comparison_def test_or_comparison_def test_and_comparison_def
      test_solidbits_comparison_def test_blockseq_comparison_def
      test_checkerboard_comparison_def test_bitspread_comparison_def test_bitflip_comparison_def
      test_walkbits1_comparison_def test_walkbits0_comparison_def test_8bit_wide_random_def
      test_16bit_wide_random_def)

lemma reports_stuck_check: "reports EXIT_FAIL_ADDRESSLINES s (stuck_check M a j is s)"
  by (induction "is") (auto simp: reports_def exit_bits_eq_0)

lemma reports_stuck: "reports EXIT_FAIL_ADDRESSLINES s (stuck_sweeps M a n js s)"
proof (induction js arbitrary: s)
  case (Cons j js)
  let ?s = "s\<lparr>mt_mem := stuck_set M a n j (mt_mem s)\<rparr>"
  obtain r s1 where c: "stuck_check M a j [0..<n] ?s = (r, s1)" by force
  have rep: "reports EXIT_FAIL_ADDRESSLINES s (r, s1)"
    using reports_trans [OF _ reports_stuck_check [of ?s M a j "[0..<n]"], of s] c by simp
  show ?case
  proof (cases "r = 0")
    case True
    then have "mt_err s1 = mt_err s" using rep reports_quiet by blast
    then show ?thesis using reports_trans [OF _ Cons.IH, of s1 s] c True by simp
  next
    case False
    then show ?thesis using rep c by (simp add: reports_def)
  qed
qed (simp add: reports_0)

text \<open>A run of tests adds messages and the exit bits they stand for.\<close>

definition accounts :: "ul \<times> ('m, 'r) mt_state \<Rightarrow> ul \<times> ('m, 'r) mt_state \<Rightarrow> bool" where
  "accounts p q \<longleftrightarrow>
     (\<exists>l. mt_err (snd q) = mt_err (snd p) @ l \<and> fst q = fst p OR exit_bits l)"

lemma accounts_refl: "accounts p p"
  by (simp add: accounts_def exI [of _ "[]"])

lemma accounts_trans: "accounts p q \<Longrightarrow> accounts q r \<Longrightarrow> accounts p r"
  by (auto simp: accounts_def exit_bits_append or.assoc)

lemma accounts_test:
  "reports bits s (r, s') \<Longrightarrow> accounts (ec, s) (if r = 0 then ec else ec OR bits, s')"
  by (auto simp: accounts_def reports_def)

lemma accounts_run_tests:
  "set ts \<subseteq> set tests \<Longrightarrow> accounts p (run_tests M tm a b n i ts p)"
proof (induction ts arbitrary: i p)
  case Nil
  show ?case by (cases p) (simp add: accounts_refl)
next
  case (Cons x ts)
  obtain nm t ec s where x: "x = (nm, t)" and p: "p = (ec, s)" by (meson surj_pair)
  obtain r s1 where t: "t M a b n s = (r, s1)" by force
  have "reports EXIT_FAIL_OTHERTEST s (r, s1)"
    using reports_tests [of nm t s M a b n] Cons.prems x t by simp
  from accounts_test [OF this, of ec] show ?case
    using Cons x p t by (auto intro: accounts_trans)
qed

lemma accounts_one_loop: "accounts p (one_loop M tm al bs p)"
proof -
  obtain ec s where p: "p = (ec, s)" by force
  obtain r s1 where t: "test_stuck_address M (unat al) (unat (bs div 4)) s = (r, s1)" by force
  have "reports EXIT_FAIL_ADDRESSLINES s (r, s1)"
    using reports_stuck t unfolding test_stuck_address_def by metis
  from accounts_trans [OF accounts_test [OF this, of ec] accounts_run_tests [OF order_refl]]
  show ?thesis by (simp add: one_loop_def Let_def p t)
qed

lemma accounts_iter: "accounts p ((one_loop M tm al bs ^^ k) p)"
  by (induction k) (auto intro: accounts_refl accounts_trans [OF _ accounts_one_loop])

subsection \<open>The number of loops\<close>

lemma mt_loop_finite:
  assumes "loops < - 1" and "unat loop + k = unat loops + 1" and "loops \<noteq> 0"
  shows "mt_loop M tm al bs loops loop p = Some ((one_loop M tm al bs ^^ k) p)"
  using assms(2)
proof (induction k arbitrary: loop p)
  case 0
  then show ?case
    using assms(3) by (subst mt_loop.simps) (simp add: word_le_nat_alt)
next
  case (Suc k)
  have "unat loops < 2 ^ 32 - 1"
    using assms(1) by (simp add: word_less_nat_alt unsigned_minus_1_eq_mask mask_eq_exp_minus_1)
  then have "unat (loop + 1) = unat loop + 1"
    using Suc.prems by (simp add: unat_word_ariths)
  then show ?case
    using Suc by (subst mt_loop.simps) (simp add: word_le_nat_alt funpow_swap1)
qed

lemma mt_loop_endless:
  assumes "loops = 0 \<or> loops = - 1"
  shows "mt_loop M tm al bs loops loop p = None"
proof (rule ccontr)
  assume "mt_loop M tm al bs loops loop p \<noteq> None"
  then obtain y where "mt_loop M tm al bs loops loop p = Some y" by blast
  moreover have "\<not> (loops = 0 \<or> loops = - 1)" if "mt_loop M tm al bs loops loop p = Some y"
    for M :: "('a, 'b) machine" and tm al bs loops loop p y
    using that
    by (rule mt_loop.raw_induct [where P = "\<lambda>M tm al bs loops loop p y. \<not> (loops = 0 \<or> loops = - 1)", rotated])
      (auto split: if_splits)
  ultimately have "\<not> (loops = 0 \<or> loops = - 1)" by blast
  then show False using assms by blast
qed

subsection \<open>The allocation loop\<close>

text \<open>\<open>p\<close> is the page size; the request is a whole number of pages.\<close>

lemma malloc_down_pages:
  assumes "0 < p" and "k * p < 2 ^ 32"
  shows "\<exists>buf k' e'. malloc_down H (of_nat p) (of_nat (k * p)) e = Some (buf, of_nat (k' * p), e') \<and> k' \<le> k \<and>
    (if buf = 0 then k' = 0 else 0 < k' \<and> (\<exists>e0. h_malloc H (of_nat (k' * p)) e0 = (buf, e')))"
  using assms(2)
proof (induction k arbitrary: e)
  case 0
  then show ?case by (subst malloc_down.simps) simp
next
  case (Suc k)
  have nz: "(of_nat (Suc k * p) :: ul) \<noteq> 0"
    using Suc.prems assms(1) by (simp add: word_of_nat_eq_0_iff nat_dvd_not_less del: of_nat_mult mult_Suc)
  obtain buf e1 where m: "h_malloc H (of_nat (Suc k * p)) e = (buf, e1)" by force
  show ?case
  proof (cases "buf = 0")
    case True
    have "(of_nat (Suc k * p) :: ul) - of_nat p = of_nat (k * p)" by simp
    then have "malloc_down H (of_nat p) (of_nat (Suc k * p)) e = malloc_down H (of_nat p) (of_nat (k * p)) e1"
      using nz m True by (subst malloc_down.simps) (simp del: of_nat_mult mult_Suc of_nat_Suc)
    moreover have "k * p < 2 ^ 32" using Suc.prems by simp
    ultimately obtain buf' k' e' where
      "malloc_down H (of_nat p) (of_nat (Suc k * p)) e = Some (buf', of_nat (k' * p), e')" "k' \<le> k"
      "if buf' = 0 then k' = 0 else 0 < k' \<and> (\<exists>e0. h_malloc H (of_nat (k' * p)) e0 = (buf', e'))"
      using Suc.IH [of e1] by auto
    then show ?thesis by (intro exI [of _ buf'] exI [of _ k'] exI [of _ e']) simp
  next
    case False
    then show ?thesis
      using nz m by (subst malloc_down.simps) (auto simp del: of_nat_mult mult_Suc of_nat_Suc
          intro!: exI [of _ "Suc k"])
  qed
qed

lemma unat_two_power: "q < 32 \<Longrightarrow> unat (2 ^ q :: ul) = 2 ^ q"
proof -
  assume "q < 32"
  then have "(2 :: nat) ^ q < 2 ^ LENGTH(32)" by (intro power_strict_increasing) auto
  then have "unat (of_nat (2 ^ q) :: ul) = 2 ^ q"
    by (simp only: unsigned_of_nat take_bit_nat_eq_self of_nat_id)
  then show ?thesis by simp
qed

text \<open>Inside a block of at least a page, rounding up stays inside the block.\<close>

lemma align_up_inside:
  assumes "q < 32" and "2 ^ q \<le> got" and "unat buf + got \<le> 2 ^ 32"
  shows "unat buf \<le> unat (align_up (2 ^ q) buf)" and "unat (align_up (2 ^ q) buf) < unat buf + 2 ^ q"
    and "unat (align_up (2 ^ q) buf - buf) = unat (align_up (2 ^ q) buf) - unat buf"
proof -
  note p = unat_two_power [OF assms(1)]
  have mz: "buf mod 2 ^ q = 0 \<longleftrightarrow> unat buf mod 2 ^ q = 0"
    by (simp only: word_unat_eq_iff unat_mod p unsigned_0)
  have "unat buf - unat buf mod 2 ^ q + 2 ^ q < 2 ^ 32" if "unat buf mod 2 ^ q \<noteq> 0"
    using that assms(2,3) mod_less_eq_dividend [of "unat buf" "2 ^ q"] by linarith
  then have "unat (align_up (2 ^ q) buf) =
      (if unat buf mod 2 ^ q = 0 then unat buf else unat buf - unat buf mod 2 ^ q + 2 ^ q)"
    by (auto simp: align_up_def mz unat_word_ariths and_not_mask_nat p)
  moreover have "unat buf mod 2 ^ q < 2 ^ q" by simp
  ultimately have "unat buf \<le> unat (align_up (2 ^ q) buf) \<and> unat (align_up (2 ^ q) buf) < unat buf + 2 ^ q"
    using mod_less_eq_dividend [of "unat buf" "2 ^ q"]
    by (cases "unat buf mod 2 ^ q = 0") (simp, simp only: if_False, linarith)
  then show 1: "unat buf \<le> unat (align_up (2 ^ q) buf)" and "unat (align_up (2 ^ q) buf) < unat buf + 2 ^ q"
    by blast+
  from 1 show "unat (align_up (2 ^ q) buf - buf) = unat (align_up (2 ^ q) buf) - unat buf"
    by (simp add: unat_sub word_le_nat_alt)
qed

text \<open>The memory under test lies in the block \<open>malloc\<close> returned last, or is empty.\<close>

definition tested_inside :: "'e host \<Rightarrow> 'e mt_alloc \<Rightarrow> bool" where
  "tested_inside H al \<longleftrightarrow>
     al_bufsize al = 0 \<or>
     ((\<exists>e. fst (h_malloc H (al_got al) e) = al_buf al) \<and>
      unat (al_buf al) \<le> unat (al_aligned al) \<and>
      unat (al_aligned al) + unat (al_bufsize al) = unat (al_buf al) + unat (al_got al))"

text \<open>What the loop needs of the system: blocks do not wrap around the address space, and an
  empty range can be locked.\<close>

definition host_ok :: "'e host \<Rightarrow> bool" where
  "host_ok H \<longleftrightarrow>
     (\<forall>n e. fst (h_malloc H n e) \<noteq> 0 \<longrightarrow> unat (fst (h_malloc H n e)) + unat n \<le> 2 ^ 32) \<and>
     (\<forall>a e. fst (h_mlock H a 0 e) = Locked)"

definition never_eperm :: "'e host \<Rightarrow> bool" where
  "never_eperm H \<longleftrightarrow> (\<forall>a n e. fst (h_mlock H a n e) \<noteq> Eperm)"

lemma alloc_unlocked_ends:
  assumes "0 < p" and "k * p < 2 ^ 32"
  shows "\<exists>al. alloc_loop H (of_nat p) orig False (of_nat (k * p)) aligned e = Some al"
proof -
  obtain buf k' e' where "malloc_down H (of_nat p) (of_nat (k * p)) e = Some (buf, of_nat (k' * p), e')"
    using malloc_down_pages [OF assms, of H e] by blast
  then show ?thesis by (subst alloc_loop.simps) simp
qed

lemma pages_unat: "(k * p :: nat) < 2 ^ 32 \<Longrightarrow> unat (of_nat (k * p) :: ul) = k * p"
  by (simp add: unsigned_of_nat take_bit_nat_eq_self del: of_nat_mult)

lemma aligned_inside:
  assumes "host_ok H" and "q < 32" and "h_malloc H (of_nat (k * 2 ^ q)) e0 = (buf, e1)"
    and "buf \<noteq> 0" and "0 < k" and "k * 2 ^ q < (2 :: nat) ^ 32"
  shows "unat buf \<le> unat (align_up (2 ^ q) buf) \<and>
    unat (align_up (2 ^ q) buf) + unat (of_nat (k * 2 ^ q) - (align_up (2 ^ q) buf - buf)) =
      unat buf + k * 2 ^ q"
proof -
  have k: "unat (of_nat (k * 2 ^ q) :: ul) = k * 2 ^ q" by (rule pages_unat [OF assms(6)])
  have "2 ^ q \<le> k * 2 ^ q" using assms(5) by simp
  moreover have "unat buf + k * 2 ^ q \<le> 2 ^ 32"
    using assms(1,3,4) k unfolding host_ok_def by (metis fst_conv)
  ultimately have a: "unat buf \<le> unat (align_up (2 ^ q) buf)"
    "unat (align_up (2 ^ q) buf) < unat buf + 2 ^ q"
    "unat (align_up (2 ^ q) buf - buf) = unat (align_up (2 ^ q) buf) - unat buf"
    using align_up_inside [OF assms(2)] by blast+
  have "align_up (2 ^ q) buf - buf \<le> of_nat (k * 2 ^ q)"
    unfolding word_le_nat_alt k a(3) using a(2) \<open>2 ^ q \<le> k * 2 ^ q\<close> by linarith
  then have "unat (of_nat (k * 2 ^ q) - (align_up (2 ^ q) buf - buf)) =
      k * 2 ^ q - (unat (align_up (2 ^ q) buf) - unat buf)"
    by (simp only: unat_sub k a(3))
  then show ?thesis
    using a(1,2) \<open>2 ^ q \<le> k * 2 ^ q\<close> by linarith
qed

lemma alloc_loop_pages:
  assumes h: "host_ok H" and q: "q < 32" and "k * 2 ^ q < (2 :: nat) ^ 32" and "k0 * 2 ^ q < (2 :: nat) ^ 32"
  shows "\<exists>al. alloc_loop H (2 ^ q) (of_nat (k0 * 2 ^ q)) True (of_nat (k * 2 ^ q)) aligned e = Some al \<and>
    (never_eperm H \<longrightarrow> tested_inside H al)"
  using assms(3)
proof (induction k arbitrary: aligned e rule: less_induct)
  case (less k)
  let ?p = "2 ^ q :: ul" and ?al = "align_up (2 ^ q)"
  obtain buf k' e1 where m: "malloc_down H ?p (of_nat (k * 2 ^ q)) e = Some (buf, of_nat (k' * 2 ^ q), e1)"
    and k': "k' \<le> k" and b: "if buf = 0 then k' = 0 else 0 < k' \<and>
      (\<exists>e0. h_malloc H (of_nat (k' * 2 ^ q)) e0 = (buf, e1))"
    using malloc_down_pages [of "2 ^ q" k H e] less.prems by auto
  let ?got = "of_nat (k' * 2 ^ q) :: ul"
  let ?bs = "?got - (?al buf - buf)"
  obtain r e2 where r: "h_mlock H (?al buf) ?bs e1 = (r, e2)" by force
  have lt: "k' * 2 ^ q < (2 :: nat) ^ 32"
    using k' less.prems by (meson le_less_trans mult_le_mono1)
  have inside: "tested_inside H \<lparr>al_buf = buf, al_got = ?got, al_aligned = ?al buf, al_bufsize = ?bs,
      al_mlock = x, al_env = e2\<rparr>" for x
  proof (cases "buf = 0")
    case True
    then show ?thesis using b by (simp add: tested_inside_def align_up_def)
  next
    case False
    with b obtain e0 where e0: "h_malloc H ?got e0 = (buf, e1)" "0 < k'" by auto
    from aligned_inside [OF h q this(1) False this(2) lt] show ?thesis
      using e0(1) pages_unat [OF lt]
      by (auto simp: tested_inside_def intro!: exI [of _ e0] simp del: of_nat_mult)
  qed
  have retry: "\<exists>al. alloc_loop H ?p (of_nat (k0 * 2 ^ q)) True (?got - ?p) (?al buf) (h_free H buf e2) = Some al \<and>
    (never_eperm H \<longrightarrow> tested_inside H al)" if "r \<noteq> Locked"
  proof -
    have "0 < k'"
      using that r h b unfolding host_ok_def
      by (cases "buf = 0") (auto simp: align_up_def dest!: arg_cong [where f = fst])
    then have "?got - ?p = of_nat ((k' - 1) * 2 ^ q)" by (cases k') simp_all
    moreover have "(k' - 1) * 2 ^ q < (2 :: nat) ^ 32"
      using lt by (meson diff_le_self le_less_trans mult_le_mono1)
    ultimately show ?thesis
      using less.IH [of "k' - 1"] \<open>0 < k'\<close> k' by simp
  qed
  show ?case
  proof (cases r)
    case Eperm
    obtain al where "alloc_loop H ?p (of_nat (k0 * 2 ^ q)) False (of_nat (k0 * 2 ^ q)) (?al buf)
        (h_free H buf e2) = Some al"
      using alloc_unlocked_ends [of "2 ^ q" k0 H] assms(4) by fastforce
    moreover have "\<not> never_eperm H"
      using r Eperm unfolding never_eperm_def by (metis fst_conv)
    ultimately show ?thesis
      using m r Eperm by (subst alloc_loop.simps) (simp add: Let_def del: of_nat_mult)
  qed (use m r inside retry in \<open>subst alloc_loop.simps, simp add: Let_def del: of_nat_mult\<close>)+
qed

subsection \<open>Properties of a whole run\<close>

text \<open>C1: a run on working memory never fails: whatever the test mask, the number of loops and the
  options are, if the command line is accepted, memory is found and the run ends, the exit
  status is 0 and nothing is printed as a failure.\<close>

theorem mt_main_no_false_alarm:
  assumes "ram M" and "mt_parse sc st env args = Inr j"
    and "mt_allocate H j aligned0 e = Some (Inr al)"
    and "unat (al_aligned al) + unat (al_bufsize al) \<le> 2 ^ 32"
    and "j_loops j \<noteq> 0" and "j_loops j < - 1"
  shows "\<exists>s'. mt_main H M sc st env args aligned0 e s = Some (0, s') \<and> mt_err s' = mt_err s"
proof -
  let ?M = "M\<lparr>use_phys := use_phys_opt (j_opts j), physaddrbase := physaddrbase_opt (j_opts j)\<rparr>"
  have "parse_testmask env = Inr (j_testmask j)"
    using assms(2) by (auto simp: mt_parse_def split: sum.splits prod.splits if_splits list.splits)
  then have tm: "j_testmask j AND 0x7E = 0 \<or> bit (j_testmask j) 0"
    by (rule parse_testmask_filled)
  have "mt_loop ?M (j_testmask j) (al_aligned al) (al_bufsize al) (j_loops j) 1 (0, s) =
      Some ((one_loop ?M (j_testmask j) (al_aligned al) (al_bufsize al) ^^ unat (j_loops j)) (0, s))"
    using assms(5,6) by (intro mt_loop_finite) auto
  then show ?thesis
    using one_loop_iter_quiet [OF ram_update [OF assms(1)] tm assms(4)] assms(2,3)
    by (fastforce simp: mt_main_def)
qed

theorem mt_main_no_false_alarm_witness:
  "\<exists>s'. mt_main \<lparr>h_open = (\<lambda>_ e. (True, e)), h_mmap = (\<lambda>_ _ e. (None, e)),
       h_malloc = (\<lambda>_ e. (0x10000, e)), h_free = (\<lambda>_ e. e), h_mlock = (\<lambda>_ _ e. (Locked, e))\<rparr>
     (byte_machine (\<lambda>g. (0, g)) (\<lambda>_. 0) False 0) 4096 (\<lambda>_. None) (Some ''0x4'') [''8k'', ''3'']
     0 () \<lparr>mt_mem = (\<lambda>_. 7), mt_rng = (), mt_err = []\<rparr> = Some (0, s') \<and> mt_err s' = []"
proof -
  let ?H = "\<lparr>h_open = (\<lambda>_ e. (True, e)), h_mmap = (\<lambda>_ _ e. (None, e)),
       h_malloc = (\<lambda>_ e. (0x10000, e)), h_free = (\<lambda>_ e. e), h_mlock = (\<lambda>_ _ e. (Locked, e))\<rparr> :: unit host"
  have p: "mt_parse 4096 (\<lambda>_. None) (Some ''0x4'') [''8k'', ''3''] =
      Inr \<lparr>j_pagesize = 4096, j_testmask = 5, j_opts = mt_opts0, j_wantbytes = 8192, j_loops = 3\<rparr>"
    by (simp add: mt_parse_def memtester_pagesize_def parse_testmask_def parse_mem_def mem_shift_def
        parse_loops_def mt_opts0_def clib_simps)
  have a: "mt_allocate ?H \<lparr>j_pagesize = 4096, j_testmask = 5, j_opts = mt_opts0, j_wantbytes = 8192, j_loops = 3\<rparr> 0 ()
      = Some (Inr \<lparr>al_buf = 0x10000, al_got = 8192, al_aligned = 0x10000, al_bufsize = 8192, al_mlock = True, al_env = ()\<rparr>)"
    unfolding mt_allocate_def
    by (subst alloc_loop.simps, subst malloc_down.simps) (simp add: mt_opts0_def align_up_def Let_def)
  show ?thesis
    using mt_main_no_false_alarm [OF bm.ram_axioms p a, of "\<lambda>g. (0, g)" "\<lambda>_. 0" False 0
        "\<lparr>mt_mem = (\<lambda>_. 7), mt_rng = (), mt_err = []\<rparr>"] by simp
qed

text \<open>C4: the exit status of a run is exactly the bits of the failure messages it printed, on any
  memory whatsoever: 2 for a bad address line, 4 for a mismatch; in particular it is 0 iff no
  failure was printed.\<close>

theorem exit_status_is_messages:
  assumes "mt_loop M testmask aligned bufsize loops 1 (0, s) = Some (exit_code, s')"
  shows "\<exists>l. mt_err s' = mt_err s @ l \<and> exit_code = exit_bits l \<and> (exit_code = 0 \<longleftrightarrow> l = [])"
proof -
  have "loops \<noteq> 0" "loops < - 1"
    using assms mt_loop_endless [of loops M testmask aligned bufsize 1 "(0, s)"]
      word_order.not_eq_extremum [of loops] by fastforce+
  then have "(exit_code, s') = (one_loop M testmask aligned bufsize ^^ unat loops) (0, s)"
    using mt_loop_finite [of loops 1 "unat loops" M testmask aligned bufsize "(0, s)"] assms by auto
  then show ?thesis
    using accounts_iter [of "(0, s)"] by (metis accounts_def exit_bits_eq_0 fst_conv snd_conv or.left_neutral)
qed

theorem exit_status_is_messages_witness:
  "\<exists>exit_code s'. mt_loop (byte_machine (\<lambda>g. (0, g)) (\<lambda>_. 0) False 0) 0 0x1000 8 1 1
      (0, \<lparr>mt_mem = (\<lambda>_. 7), mt_rng = (), mt_err = []\<rparr>) = Some (exit_code, s') \<and>
      exit_code = exit_bits (mt_err s')"
proof -
  let ?s = "\<lparr>mt_mem = (\<lambda>_. 7), mt_rng = (), mt_err = []\<rparr> :: (nat \<Rightarrow> u8, unit) mt_state"
  let ?M = "byte_machine (\<lambda>g. (0, g)) (\<lambda>_. 0) False 0"
  obtain exit_code s' where o: "(one_loop ?M 0 0x1000 8 ^^ 1) (0, ?s) = (exit_code, s')"
    by (meson surj_pair)
  have "(1 :: ul) < - 1"
    by (simp add: word_less_nat_alt unsigned_minus_1_eq_mask mask_eq_exp_minus_1)
  then have "mt_loop ?M 0 0x1000 8 1 1 (0, ?s) = Some (exit_code, s')"
    using mt_loop_finite [of 1 1 1 ?M 0 "0x1000" 8 "(0, ?s)"] o by simp
  then show ?thesis using exit_status_is_messages [of ?M 0 "0x1000" 8 1 ?s exit_code s'] by auto
qed

text \<open>The run does as many rounds as asked for; with 0 (the default) or the largest number of
  loops it never ends.\<close>

lemma mt_loop_rounds:
  "mt_loop M testmask aligned bufsize loops 1 p =
     (if loops = 0 \<or> loops = - 1 then None
      else Some ((one_loop M testmask aligned bufsize ^^ unat loops) p))"
  using mt_loop_endless [of loops M testmask aligned bufsize 1 p]
    mt_loop_finite [of loops 1 "unat loops" M testmask aligned bufsize p]
  by (auto simp: word_order.not_eq_extremum)

text \<open>C5: for a request of whole pages the allocation loop ends, and unless locking is refused for
  lack of permission, all the memory that is then tested lies inside the last block
  \<open>malloc\<close> returned.\<close>

theorem alloc_ends_inside:
  assumes "host_ok H" and "q < 32" and "k * 2 ^ q < (2 :: nat) ^ 32"
  shows "\<exists>al. alloc_loop H (2 ^ q) (of_nat (k * 2 ^ q)) True (of_nat (k * 2 ^ q)) aligned0 e = Some al \<and>
    (never_eperm H \<longrightarrow> tested_inside H al)"
  using alloc_loop_pages [OF assms assms(3)] .

theorem alloc_ends_inside_witness:
  "\<exists>al. alloc_loop \<lparr>h_open = (\<lambda>_ e. (True, e)), h_mmap = (\<lambda>_ _ e. (None, e)),
       h_malloc = (\<lambda>n e. (if n \<le> 0x8000 then 0x10008 else 0, e)), h_free = (\<lambda>_ e. e),
       h_mlock = (\<lambda>_ n e. (if n < 0x4000 then Locked else Enomem, e))\<rparr>
     (2 ^ 12) (of_nat (16 * 2 ^ 12)) True (of_nat (16 * 2 ^ 12)) 0 () = Some al \<and>
     tested_inside \<lparr>h_open = (\<lambda>_ e. (True, e)), h_mmap = (\<lambda>_ _ e. (None, e)),
       h_malloc = (\<lambda>n e. (if n \<le> 0x8000 then 0x10008 else 0, e)), h_free = (\<lambda>_ e. e),
       h_mlock = (\<lambda>_ n e. (if n < 0x4000 then Locked else Enomem, e))\<rparr> al"
proof -
  let ?H = "\<lparr>h_open = (\<lambda>_ e. (True, e)), h_mmap = (\<lambda>_ _ e. (None, e)),
       h_malloc = (\<lambda>n e. (if n \<le> 0x8000 then 0x10008 else 0, e)), h_free = (\<lambda>_ e. e),
       h_mlock = (\<lambda>_ n e. (if n < 0x4000 then Locked else Enomem, e))\<rparr> :: unit host"
  have "host_ok ?H" and "never_eperm ?H"
    by (auto simp: host_ok_def never_eperm_def word_le_nat_alt)
  then show ?thesis
    using alloc_ends_inside [of ?H 12 16 0 "()"] by simp
qed

text \<open>If locking is refused for lack of permission, the second round tests a block that is
  shifted: with a block that does not start on a page, the tested memory ends as many bytes
  past the block as its start was moved to reach a page.\<close>

lemma eperm_overruns_block:
  assumes "\<And>e. fst (h_malloc H want e) = buf" and "\<And>a n e. fst (h_mlock H a n e) = Eperm"
    and "buf \<noteq> 0" and "want \<noteq> 0" and "buf mod pagesize \<noteq> 0"
  shows "\<exists>al. alloc_loop H pagesize want True want aligned0 e = Some al \<and>
    al_buf al = buf \<and> al_got al = want \<and>
    al_aligned al + al_bufsize al = buf + want + (align_up pagesize buf - buf)"
proof -
  have m: "malloc_down H pagesize want e = Some (buf, want, snd (h_malloc H want e))" for e
    using assms(1) [of e] assms(3,4) by (subst malloc_down.simps) (auto split: prod.splits)
  obtain e2 where l: "h_mlock H (align_up pagesize buf) (want - (align_up pagesize buf - buf))
      (snd (h_malloc H want e)) = (Eperm, e2)"
    by (metis assms(2) prod.collapse)
  have "alloc_loop H pagesize want False want x e =
      Some \<lparr>al_buf = buf, al_got = want, al_aligned = x, al_bufsize = want, al_mlock = False,
            al_env = snd (h_malloc H want e)\<rparr>" for x e
    by (subst alloc_loop.simps) (simp add: m)
  then show ?thesis
    by (subst alloc_loop.simps) (simp add: m Let_def l)
qed

end
