(* ===== verification/Sampling.thy ===== *)
theory Sampling
  imports Prelude
begin

text \<open>
  The interface of the statistics objects of the latency test: samples are pushed one by one,
  and what the object holds is related to the samples so far. A client that pushes a whole
  series keeps the relation.
\<close>

locale accumulator =
  fixes push :: "'x \<Rightarrow> 's \<Rightarrow> 's" and fresh :: "'s \<Rightarrow> bool" and holds :: "'x list \<Rightarrow> 's \<Rightarrow> bool"
  assumes holds_fresh: "fresh s \<Longrightarrow> holds [] s"
    and holds_push: "holds xs s \<Longrightarrow> holds (xs @ [x]) (push x s)"
begin

lemma holds_series: "holds xs s \<Longrightarrow> holds (xs @ ys) (fold push ys s)"
proof (induction ys arbitrary: xs s)
  case (Cons y ys)
  from Cons.IH [OF holds_push [OF Cons.prems]] show ?case by simp
qed simp

lemma holds_all: "fresh s \<Longrightarrow> holds xs (fold push xs s)"
  using holds_series [OF holds_fresh] by fastforce

end

end
