(* ===== verification/OnlineStats.thy ===== *)
theory OnlineStats
  imports Sampling
begin

text \<open>
  The class \<open>OnlineStats\<close> of \<^verbatim>\<open>src/rt_test/latency/OnlineStats.h\<close>. Doubles are taken as
  real numbers and sample counts as integers, so the theorems are about the update formulas
  and not about rounding. The interpretation of \<open>accumulator\<close> shows that the running
  values are the count, the mean, the central moments and the extremes of the samples.
\<close>

record ostats =
  m_samples :: int
  m_mean :: real
  m_moment2 :: real
  m_moment3 :: real
  m_moment4 :: real
  m_min :: real
  m_max :: real

text \<open>\<open>ZeroStats\<close> leaves the extremes alone; the constructor leaves them uninitialised.\<close>

definition ZeroStats :: "ostats \<Rightarrow> ostats" where
  "ZeroStats s = s\<lparr>m_samples := 0, m_mean := 0, m_moment2 := 0, m_moment3 := 0, m_moment4 := 0\<rparr>"

definition new_OnlineStats :: "real \<Rightarrow> real \<Rightarrow> ostats" where
  "new_OnlineStats min0 max0 =
     ZeroStats \<lparr>m_samples = 0, m_mean = 0, m_moment2 = 0, m_moment3 = 0, m_moment4 = 0,
                m_min = min0, m_max = max0\<rparr>"

definition push_extremes :: "real \<Rightarrow> ostats \<Rightarrow> ostats" where
  "push_extremes x s =
     (if m_samples s = 0 then s\<lparr>m_min := x, m_max := x\<rparr>
      else let s1 = (if x < m_min s then s\<lparr>m_min := x\<rparr> else s)
           in if x > m_max s1 then s1\<lparr>m_max := x\<rparr> else s1)"

definition Push :: "real \<Rightarrow> ostats \<Rightarrow> ostats" where
  "Push x s0 =
     (let n1 = m_samples s0;
          s = push_extremes x s0;
          samples = n1 + 1;
          delta = x - m_mean s;
          delta_n = delta / of_int samples;
          delta_n2 = delta_n * delta_n;
          term1 = delta * delta_n * of_int n1
      in s\<lparr>m_samples := samples,
           m_mean := m_mean s + delta_n,
           m_moment4 := m_moment4 s + (term1 * delta_n2 * of_int (samples * samples - 3 * samples + 3)
                          + 6 * delta_n2 * m_moment2 s - 4 * delta_n * m_moment3 s),
           m_moment3 := m_moment3 s + (term1 * delta_n * of_int (samples - 2) - 3 * delta_n * m_moment2 s),
           m_moment2 := m_moment2 s + term1\<rparr>)"

definition Values :: "ostats \<Rightarrow> int" where "Values s = m_samples s"
definition Mean :: "ostats \<Rightarrow> real" where "Mean s = m_mean s"
definition Variance :: "ostats \<Rightarrow> real" where "Variance s = m_moment2 s / (of_int (m_samples s) - 1)"
definition StdDeviation :: "ostats \<Rightarrow> real" where "StdDeviation s = sqrt (Variance s)"

definition Skew :: "ostats \<Rightarrow> real" where
  "Skew s = sqrt (of_int (m_samples s)) * m_moment3 s / (m_moment2 s powr (3 / 2))"

definition Kurtosis :: "ostats \<Rightarrow> real" where
  "Kurtosis s = of_int (m_samples s) * m_moment4 s / (m_moment2 s * m_moment2 s) - 3"

definition Max_sample :: "ostats \<Rightarrow> real" where "Max_sample s = m_max s"
definition Min_sample :: "ostats \<Rightarrow> real" where "Min_sample s = m_min s"

subsection \<open>The statistics of a list of samples\<close>

definition avg :: "real list \<Rightarrow> real" where
  "avg xs = sum_list xs / real (length xs)"

text \<open>The sum of the \<open>k\<close>-th powers of the distances from a centre.\<close>

definition powsum :: "nat \<Rightarrow> real \<Rightarrow> real list \<Rightarrow> real" where
  "powsum k c xs = (\<Sum>x\<leftarrow>xs. (x - c) ^ k)"

lemma powsum_simps [simp]:
  "powsum k c [] = 0" "powsum k c (xs @ ys) = powsum k c xs + powsum k c ys"
  "powsum k c [x] = (x - c) ^ k" "powsum k c (x # xs) = (x - c) ^ k + powsum k c xs"
  by (simp_all add: powsum_def)

lemma powsum_0: "powsum 0 c xs = real (length xs)"
  by (induction xs) simp_all

lemma powsum_1_avg: "powsum 1 (avg xs) xs = 0"
proof -
  have "powsum 1 c xs = sum_list xs - c * real (length xs)" for c
    by (induction xs) (simp_all add: algebra_simps)
  then show ?thesis by (cases "xs = []") (simp_all add: avg_def)
qed

text \<open>Moving the centre by \<open>d\<close>.\<close>

lemma powsum_shift:
  "powsum 2 (c + d) xs = powsum 2 c xs - 2 * d * powsum 1 c xs + d ^ 2 * real (length xs)"
  "powsum 3 (c + d) xs = powsum 3 c xs - 3 * d * powsum 2 c xs + 3 * d ^ 2 * powsum 1 c xs
     - d ^ 3 * real (length xs)"
  "powsum 4 (c + d) xs = powsum 4 c xs - 4 * d * powsum 3 c xs + 6 * d ^ 2 * powsum 2 c xs
     - 4 * d ^ 3 * powsum 1 c xs + d ^ 4 * real (length xs)"
  by (induction xs) (simp_all add: algebra_simps power2_eq_square power3_eq_cube power4_eq_xxxx)

definition stats_of :: "real list \<Rightarrow> ostats \<Rightarrow> bool" where
  "stats_of xs s \<longleftrightarrow>
     m_samples s = int (length xs) \<and>
     m_mean s = (if xs = [] then 0 else avg xs) \<and>
     m_moment2 s = powsum 2 (avg xs) xs \<and>
     m_moment3 s = powsum 3 (avg xs) xs \<and>
     m_moment4 s = powsum 4 (avg xs) xs \<and>
     (xs \<noteq> [] \<longrightarrow> m_min s = Min (set xs) \<and> m_max s = Max (set xs))"

lemma avg_snoc:
  assumes "xs \<noteq> []"
  shows "avg (xs @ [x]) = avg xs + (x - avg xs) / (real (length xs) + 1)"
proof -
  have "(S + x) / (n + 1) = S / n + (x - S / n) / (n + 1)" if "0 < n" for S n :: real
    using that by (simp add: divide_simps) (simp add: algebra_simps)
  from this [of "real (length xs)" "sum_list xs"] show ?thesis
    using assms by (simp add: avg_def add_ac)
qed

lemma extremes_step:
  assumes "stats_of xs s"
  shows "m_min (push_extremes x s) = Min (set (xs @ [x])) \<and> m_max (push_extremes x s) = Max (set (xs @ [x]))"
proof (cases "xs = []")
  case True
  then show ?thesis using assms by (simp add: stats_of_def push_extremes_def)
next
  case False
  then have "Min (set (xs @ [x])) = min x (m_min s)" "Max (set (xs @ [x])) = max x (m_max s)" "m_samples s \<noteq> 0"
    using assms by (simp_all add: stats_of_def)
  then show ?thesis by (auto simp: push_extremes_def Let_def min_def max_def)
qed

lemma push_extremes_rest [simp]:
  "m_samples (push_extremes x s) = m_samples s" "m_mean (push_extremes x s) = m_mean s"
  "m_moment2 (push_extremes x s) = m_moment2 s" "m_moment3 (push_extremes x s) = m_moment3 s"
  "m_moment4 (push_extremes x s) = m_moment4 s"
  by (simp_all add: push_extremes_def Let_def)

text \<open>The update formulas, with \<open>d\<close> the step of the mean and \<open>n\<close> samples before.\<close>

lemma moments_snoc:
  fixes xs x
  defines "n \<equiv> real (length xs)" and "d \<equiv> (x - avg xs) / (real (length xs) + 1)"
  assumes "xs \<noteq> []"
  shows "powsum 2 (avg (xs @ [x])) (xs @ [x]) = powsum 2 (avg xs) xs + (x - avg xs) * d * n"
    and "powsum 3 (avg (xs @ [x])) (xs @ [x]) =
      powsum 3 (avg xs) xs + ((x - avg xs) * d * n * d * (n - 1) - 3 * d * powsum 2 (avg xs) xs)"
    and "powsum 4 (avg (xs @ [x])) (xs @ [x]) =
      powsum 4 (avg xs) xs + ((x - avg xs) * d * n * (d * d) * ((n + 1) * (n + 1) - 3 * (n + 1) + 3)
        + 6 * (d * d) * powsum 2 (avg xs) xs - 4 * d * powsum 3 (avg xs) xs)"
proof -
  have d: "x - avg xs = (n + 1) * d" by (simp add: n_def d_def)
  then have x: "x - (avg xs + d) = n * d" by (simp add: algebra_simps)
  have a: "avg (xs @ [x]) = avg xs + d" using avg_snoc [OF assms(3)] by (simp add: d_def)
  have z: "powsum (Suc 0) (avg xs) xs = 0" using powsum_1_avg by simp
  note eqs = a x powsum_shift z n_def [symmetric]
  show "powsum 2 (avg (xs @ [x])) (xs @ [x]) = powsum 2 (avg xs) xs + (x - avg xs) * d * n"
    by (simp add: eqs) (simp add: d power2_eq_square algebra_simps)
  show "powsum 3 (avg (xs @ [x])) (xs @ [x]) =
      powsum 3 (avg xs) xs + ((x - avg xs) * d * n * d * (n - 1) - 3 * d * powsum 2 (avg xs) xs)"
    by (simp add: eqs) (simp add: d power3_eq_cube algebra_simps)
  show "powsum 4 (avg (xs @ [x])) (xs @ [x]) =
      powsum 4 (avg xs) xs + ((x - avg xs) * d * n * (d * d) * ((n + 1) * (n + 1) - 3 * (n + 1) + 3)
        + 6 * (d * d) * powsum 2 (avg xs) xs - 4 * d * powsum 3 (avg xs) xs)"
    by (simp add: eqs) (simp add: d power4_eq_xxxx power2_eq_square algebra_simps)
qed

lemma stats_of_push:
  assumes "stats_of xs s"
  shows "stats_of (xs @ [x]) (Push x s)"
proof (cases "xs = []")
  case True
  then show ?thesis
    using assms extremes_step [OF assms, of x] by (simp add: stats_of_def Push_def Let_def avg_def)
next
  case False
  then show ?thesis
    using assms extremes_step [OF assms, of x] moments_snoc [OF False, of x] avg_snoc [OF False, of x]
    by (simp add: stats_of_def Push_def Let_def add.commute)
qed

interpretation os: accumulator Push "\<lambda>s. \<exists>lo hi. s = new_OnlineStats lo hi" stats_of
proof
  show "stats_of [] s" if "\<exists>lo hi. s = new_OnlineStats lo hi" for s
    using that by (auto simp: new_OnlineStats_def ZeroStats_def stats_of_def)
qed (rule stats_of_push)

lemma stats_of_series: "stats_of xs (fold Push xs (new_OnlineStats lo hi))"
  by (rule os.holds_all) blast

subsection \<open>Properties\<close>

text \<open>C7: after any series of pushes the object holds the number of samples, their mean, the sums
  of the second, third and fourth powers of the distances from the mean, the smallest and the
  largest sample, whatever the uninitialised fields held.\<close>

theorem OnlineStats_exact:
  "let s = fold Push xs (new_OnlineStats lo hi) in
     Values s = int (length xs) \<and>
     (xs \<noteq> [] \<longrightarrow> Mean s = avg xs \<and> Min_sample s = Min (set xs) \<and> Max_sample s = Max (set xs)) \<and>
     m_moment2 s = (\<Sum>x\<leftarrow>xs. (x - avg xs) ^ 2) \<and>
     m_moment3 s = (\<Sum>x\<leftarrow>xs. (x - avg xs) ^ 3) \<and>
     m_moment4 s = (\<Sum>x\<leftarrow>xs. (x - avg xs) ^ 4)"
  using stats_of_series [of xs lo hi]
  by (auto simp: stats_of_def Let_def Values_def Mean_def Min_sample_def Max_sample_def powsum_def)

theorem OnlineStats_exact_witness:
  "let s = fold Push [2, 4, 9] (new_OnlineStats 7 8) in
     Mean s = 5 \<and> m_moment2 s = 26 \<and> Min_sample s = 2 \<and> Max_sample s = 9"
  using OnlineStats_exact [of "[2, 4, 9]" 7 8] by (simp add: avg_def Let_def)

text \<open>What the accessors compute: for at least two samples \<open>Variance\<close> is the unbiased sample
  variance and \<open>StdDeviation\<close> its root, and \<open>Variance\<close> is 0 iff all samples are equal.\<close>

lemma Variance_of_samples:
  assumes "2 \<le> length xs"
  shows "let s = fold Push xs (new_OnlineStats lo hi) in
    Variance s = (\<Sum>x\<leftarrow>xs. (x - avg xs) ^ 2) / real (length xs - 1) \<and>
    StdDeviation s ^ 2 = Variance s \<and> (Variance s = 0 \<longleftrightarrow> (\<forall>x\<in>set xs. x = avg xs))"
proof -
  let ?s = "fold Push xs (new_OnlineStats lo hi)"
  have v: "Variance ?s = powsum 2 (avg xs) xs / real (length xs - 1)"
    using stats_of_series [of xs lo hi] assms by (simp add: stats_of_def Variance_def)
  have nn: "0 \<le> powsum 2 c ys" for c ys
    by (induction ys) simp_all
  have "powsum 2 c ys = 0 \<longleftrightarrow> (\<forall>y\<in>set ys. y = c)" for c ys
    using nn by (induction ys) (auto simp: add_nonneg_eq_0_iff)
  then show ?thesis
    using assms v nn [of "avg xs" xs] by (auto simp: StdDeviation_def powsum_def Let_def)
qed

end
