(* ===== verification/Quantile.thy ===== *)
theory Quantile
  imports Sampling
begin

text \<open>
  The classes \<open>QuantileEstimator\<close> and \<open>Quantiles\<close> of
  \<^verbatim>\<open>src/rt_test/latency/QuantileEstimator.h\<close>, an estimator of a percentile with five
  markers (P-square). Doubles are taken as real numbers. The invariant says that the marker
  positions are increasing whole numbers from 1 to the number of samples and that the marker
  heights are sorted from the smallest to the largest sample.
\<close>

record mark =
  mq :: real
  mnp :: real
  mdn :: real
  mn :: real

text \<open>\<open>Marker marker[6]\<close>; entry 0 is not used.\<close>

record qest =
  marker :: "nat \<Rightarrow> mark"
  q_samples :: nat
  firstfive :: "real list"
  m_perc :: real
  q_k :: nat
  q_d :: int

definition ParabolicEstimate :: "(nat \<Rightarrow> mark) \<Rightarrow> nat \<Rightarrow> int \<Rightarrow> real" where
  "ParabolicEstimate mk i di =
     mq (mk i) + (of_int di / (mn (mk (i + 1)) - mn (mk (i - 1)))) *
       ((mn (mk i) - mn (mk (i - 1)) + of_int di) * (mq (mk (i + 1)) - mq (mk i))
          / (mn (mk (i + 1)) - mn (mk i)) +
        (mn (mk (i + 1)) - mn (mk i) - of_int di) * (mq (mk i) - mq (mk (i - 1)))
          / (mn (mk i) - mn (mk (i - 1))))"

definition LinearEstimate :: "(nat \<Rightarrow> mark) \<Rightarrow> nat \<Rightarrow> int \<Rightarrow> real" where
  "LinearEstimate mk i di =
     (let j = nat (int i + di) in
      mq (mk i) + of_int di * (mq (mk j) - mq (mk i)) / (mn (mk j) - mn (mk i)))"

definition new_QuantileEstimator :: "real \<Rightarrow> qest" where
  "new_QuantileEstimator perc =
     \<lparr>marker = (\<lambda>_. \<lparr>mq = 0, mnp = 0, mdn = 0, mn = 0\<rparr>), q_samples = 0, firstfive = [],
      m_perc = perc, q_k = 0, q_d = 0\<rparr>"

definition init_marks :: "real \<Rightarrow> real list \<Rightarrow> (nat \<Rightarrow> mark) \<Rightarrow> nat \<Rightarrow> mark" where
  "init_marks perc sorted5 mk0 =
     (let mk = fold (\<lambda>i mk. mk(i := (mk i)\<lparr>mq := sorted5 ! (i - 1), mn := real i\<rparr>)) [1, 2, 3, 4, 5] mk0
      in mk(1 := (mk 1)\<lparr>mnp := 1, mdn := 0\<rparr>,
            2 := (mk 2)\<lparr>mnp := 1 + 2 * perc, mdn := perc / 2\<rparr>,
            3 := (mk 3)\<lparr>mnp := 1 + 4 * perc, mdn := perc\<rparr>,
            4 := (mk 4)\<lparr>mnp := 3 + 2 * perc, mdn := (1 + perc) / 2\<rparr>,
            5 := (mk 5)\<lparr>mnp := 5, mdn := 1\<rparr>))"

text \<open>The cell of the new value, and the extreme markers moved out to it.\<close>

definition place :: "real \<Rightarrow> (nat \<Rightarrow> mark) \<Rightarrow> nat \<times> (nat \<Rightarrow> mark)" where
  "place x mk =
     (if x < mq (mk 1) then (1, mk(1 := (mk 1)\<lparr>mq := x\<rparr>))
      else if x < mq (mk 2) then (1, mk)
      else if x < mq (mk 3) then (2, mk)
      else if x < mq (mk 4) then (3, mk)
      else if x \<le> mq (mk 5) then (4, mk)
      else (4, mk(5 := (mk 5)\<lparr>mq := x\<rparr>)))"

definition bump_positions :: "nat \<Rightarrow> (nat \<Rightarrow> mark) \<Rightarrow> nat \<Rightarrow> mark" where
  "bump_positions k mk = fold (\<lambda>i mk. mk(i := (mk i)\<lparr>mn := mn (mk i) + 1\<rparr>)) [k + 1..<6] mk"

definition advance_desired :: "(nat \<Rightarrow> mark) \<Rightarrow> nat \<Rightarrow> mark" where
  "advance_desired mk = fold (\<lambda>i mk. mk(i := (mk i)\<lparr>mnp := mnp (mk i) + mdn (mk i)\<rparr>)) [1, 2, 3, 4, 5] mk"

definition adjust_mark :: "nat \<Rightarrow> (nat \<Rightarrow> mark) \<times> int \<Rightarrow> (nat \<Rightarrow> mark) \<times> int" where
  "adjust_mark i p =
     (let (mk, d0) = p; di = mnp (mk i) - mn (mk i) in
      if (di \<ge> 1 \<and> mn (mk (i + 1)) - mn (mk i) > 1) \<or> (di \<le> - 1 \<and> mn (mk (i - 1)) - mn (mk i) < - 1)
      then let d = (if di \<ge> 0 then 1 else - 1);
               qip = ParabolicEstimate mk i d;
               q' = (if mq (mk (i - 1)) < qip \<and> qip < mq (mk (i + 1)) then qip else LinearEstimate mk i d)
           in (mk(i := (mk i)\<lparr>mq := q', mn := mn (mk i) + of_int d\<rparr>), d)
      else p)"

definition q_push :: "real \<Rightarrow> qest \<Rightarrow> real \<times> qest" where
  "q_push x e =
     (if q_samples e < 5
      then (0, e\<lparr>firstfive := firstfive e @ [x], q_samples := q_samples e + 1\<rparr>)
      else
        let e1 = (if q_samples e = 5
                  then e\<lparr>firstfive := sort (firstfive e),
                         marker := init_marks (m_perc e) (sort (firstfive e)) (marker e)\<rparr>
                  else e);
            (k, mk1) = place x (marker e1);
            (mk2, d) = fold adjust_mark [2, 3, 4] (advance_desired (bump_positions k mk1), q_d e1);
            e2 = e1\<lparr>q_samples := q_samples e1 + 1, marker := mk2, q_k := k, q_d := d\<rparr>
        in (if m_perc e = 0 then mq (mk2 1) else if m_perc e = 1 then mq (mk2 5) else mq (mk2 3), e2))"

definition quantile :: "qest \<Rightarrow> real" where
  "quantile e = mq (marker e 3)"

text \<open>A hundred estimators.\<close>

definition new_Quantiles :: "qest list" where
  "new_Quantiles = map (\<lambda>i. new_QuantileEstimator (real i / 100)) [0..<100]"

definition Quantiles_Push :: "real \<Rightarrow> qest list \<Rightarrow> qest list" where
  "Quantiles_Push x qs = map (\<lambda>e. snd (q_push x e)) qs"

definition Quantiles_quantile :: "int \<Rightarrow> qest list \<Rightarrow> real" where
  "Quantiles_quantile i qs =
     (if i < 0 then 0 else if i > 99 then 0 else quantile (qs ! nat i))"

subsection \<open>The marker invariant\<close>

definition ordered :: "(nat \<Rightarrow> mark) \<Rightarrow> bool" where
  "ordered mk \<longleftrightarrow>
     mn (mk 1) + 1 \<le> mn (mk 2) \<and> mn (mk 2) + 1 \<le> mn (mk 3) \<and> mn (mk 3) + 1 \<le> mn (mk 4) \<and>
     mn (mk 4) + 1 \<le> mn (mk 5) \<and> mq (mk 1) \<le> mq (mk 2) \<and> mq (mk 2) \<le> mq (mk 3) \<and>
     mq (mk 3) \<le> mq (mk 4) \<and> mq (mk 4) \<le> mq (mk 5) \<and>
     mn (mk 1) \<in> \<int> \<and> mn (mk 2) \<in> \<int> \<and> mn (mk 3) \<in> \<int> \<and> mn (mk 4) \<in> \<int> \<and> mn (mk 5) \<in> \<int>"

definition ends :: "(nat \<Rightarrow> mark) \<Rightarrow> real \<Rightarrow> real \<Rightarrow> real \<Rightarrow> bool" where
  "ends mk n5 lo hi \<longleftrightarrow>
     mn (mk 1) = 1 \<and> mn (mk 5) = n5 \<and> mq (mk 1) = lo \<and> mq (mk 5) = hi"

text \<open>Two whole numbers more than 1 apart are at least 2 apart.\<close>

lemma Ints_gap: "(a :: real) \<in> \<int> \<Longrightarrow> b \<in> \<int> \<Longrightarrow> a + 1 < b \<Longrightarrow> a + 2 \<le> b"
proof (elim Ints_cases)
  fix z w assume "a = of_int z" "b = of_int w" and "a + 1 < b"
  then have "z + 1 < w" by linarith
  then show "a + 2 \<le> b" using \<open>a = of_int z\<close> \<open>b = of_int w\<close> by linarith
qed

lemma linear_up:
  fixes q :: real
  assumes "q \<le> r" and "2 \<le> g"
  shows "q \<le> q + (r - q) / g \<and> q + (r - q) / g \<le> r"
proof -
  have "(r - q) / g \<le> r - q"
    using assms by (simp add: divide_le_eq mult_le_cancel_left1)
  then show ?thesis using assms by simp
qed

lemma linear_between:
  assumes "ordered mk" and "i \<in> {2, 3, 4}"
    and "d = 1 \<and> mn (mk i) + 1 < mn (mk (i + 1)) \<or> d = - 1 \<and> mn (mk (i - 1)) + 1 < mn (mk i)"
  shows "mq (mk (i - 1)) \<le> LinearEstimate mk i d \<and> LinearEstimate mk i d \<le> mq (mk (i + 1))"
proof -
  have o: "mq (mk (i - 1)) \<le> mq (mk i)" "mq (mk i) \<le> mq (mk (i + 1))"
    "mn (mk (i - 1)) \<in> \<int>" "mn (mk i) \<in> \<int>" "mn (mk (i + 1)) \<in> \<int>" "i \<noteq> 0"
    using assms(1,2) by (auto simp: ordered_def)
  show ?thesis
    using assms(3)
  proof
    assume "d = 1 \<and> mn (mk i) + 1 < mn (mk (i + 1))"
    then have *: "nat (int i + d) = i + 1" "2 \<le> mn (mk (i + 1)) - mn (mk i)" "d = 1"
      using Ints_gap [OF o(4,5)] by auto
    then show ?thesis
      using linear_up [OF o(2) *(2)] o(1) by (simp add: LinearEstimate_def)
  next
    assume "d = - 1 \<and> mn (mk (i - 1)) + 1 < mn (mk i)"
    then have *: "nat (int i + d) = i - 1" "2 \<le> mn (mk i) - mn (mk (i - 1))" "d = - 1"
      using Ints_gap [OF o(3,4)] o(6) by auto
    have "(mq (mk i) - mq (mk (i - 1))) / (mn (mk (i - 1)) - mn (mk i)) =
        - ((mq (mk i) - mq (mk (i - 1))) / (mn (mk i) - mn (mk (i - 1))))"
      by (metis minus_diff_eq minus_divide_right)
    moreover have "(mq (mk i) - mq (mk (i - 1))) / (mn (mk i) - mn (mk (i - 1))) \<le> mq (mk i) - mq (mk (i - 1))"
      "0 \<le> (mq (mk i) - mq (mk (i - 1))) / (mn (mk i) - mn (mk (i - 1)))"
      using *(2) o(1) linear_up [OF o(1) *(2)] by auto
    ultimately show ?thesis
      using * o(2) by (simp add: LinearEstimate_def Let_def)
  qed
qed

text \<open>Replacing the inner marker \<open>i\<close> keeps the order if it stays between its neighbours.\<close>

lemma ordered_update:
  assumes "ordered mk" and "i \<in> {2, 3, 4}" and "n' \<in> \<int>"
    and "mn (mk (i - 1)) + 1 \<le> n'" and "n' + 1 \<le> mn (mk (i + 1))"
    and "mq (mk (i - 1)) \<le> q'" and "q' \<le> mq (mk (i + 1))"
  shows "ordered (mk(i := (mk i)\<lparr>mq := q', mn := n'\<rparr>))"
  using assms by (auto simp: ordered_def)

lemma adjust_mark_inv:
  assumes "ordered mk" and "ends mk n5 lo hi" and "i \<in> {2, 3, 4}"
  shows "ordered (fst (adjust_mark i (mk, d0))) \<and> ends (fst (adjust_mark i (mk, d0))) n5 lo hi"
proof -
  let ?di = "mnp (mk i) - mn (mk i)"
  let ?d = "if ?di \<ge> 0 then 1 else - 1 :: int"
  let ?up = "?di \<ge> 1 \<and> mn (mk (i + 1)) - mn (mk i) > 1"
  let ?dn = "?di \<le> - 1 \<and> mn (mk (i - 1)) - mn (mk i) < - 1"
  let ?q = "if mq (mk (i - 1)) < ParabolicEstimate mk i ?d \<and> ParabolicEstimate mk i ?d < mq (mk (i + 1))
    then ParabolicEstimate mk i ?d else LinearEstimate mk i ?d"
  have o: "mn (mk (i - 1)) \<in> \<int>" "mn (mk i) \<in> \<int>" "mn (mk (i + 1)) \<in> \<int>"
    "mn (mk (i - 1)) + 1 \<le> mn (mk i)" "mn (mk i) + 1 \<le> mn (mk (i + 1))"
    using assms(1,3) by (auto simp: ordered_def)
  show ?thesis
  proof (cases "?up \<or> ?dn")
    case True
    then have d: "?d = 1 \<and> mn (mk i) + 1 < mn (mk (i + 1)) \<or> ?d = - 1 \<and> mn (mk (i - 1)) + 1 < mn (mk i)"
      by auto
    have "mq (mk (i - 1)) \<le> ?q \<and> ?q \<le> mq (mk (i + 1))"
      using linear_between [OF assms(1,3) d] by auto
    moreover have "mn (mk (i - 1)) + 1 \<le> mn (mk i) + ?d \<and> mn (mk i) + ?d + 1 \<le> mn (mk (i + 1))"
      using d o Ints_gap [OF o(1,2)] Ints_gap [OF o(2,3)] by auto
    ultimately have "ordered (mk(i := (mk i)\<lparr>mq := ?q, mn := mn (mk i) + ?d\<rparr>))"
      using assms(1,3) o(2) by (intro ordered_update) auto
    moreover have "ends (mk(i := (mk i)\<lparr>mq := ?q, mn := mn (mk i) + ?d\<rparr>)) n5 lo hi"
      using assms(2,3) by (auto simp: ends_def)
    moreover have "fst (adjust_mark i (mk, d0)) = mk(i := (mk i)\<lparr>mq := ?q, mn := mn (mk i) + ?d\<rparr>)"
      using True by (simp add: adjust_mark_def Let_def)
    ultimately show ?thesis by simp
  next
    case False
    then have "adjust_mark i (mk, d0) = (mk, d0)"
      unfolding adjust_mark_def by (simp only: Let_def prod.case if_False)
    then show ?thesis using assms by simp
  qed
qed

lemma adjust_all_inv:
  assumes "ordered mk" and "ends mk n5 lo hi"
  shows "ordered (fst (fold adjust_mark [2, 3, 4] (mk, d0))) \<and> ends (fst (fold adjust_mark [2, 3, 4] (mk, d0))) n5 lo hi"
proof -
  have "ordered (fst (fold adjust_mark is p)) \<and> ends (fst (fold adjust_mark is p)) n5 lo hi"
    if "set is \<subseteq> {2, 3, 4}" "ordered (fst p)" "ends (fst p) n5 lo hi" for "is" p
    using that
  proof (induction "is" arbitrary: p)
    case (Cons i "is")
    then show ?case using adjust_mark_inv [of "fst p" n5 lo hi i "snd p"] by simp
  qed simp
  from this [of "[2, 3, 4]" "(mk, d0)"] show ?thesis using assms by simp
qed

lemma upt_6: "[Suc k..<6] = (if k = 0 then [1, 2, 3, 4, 5] else if k = 1 then [2, 3, 4, 5]
    else if k = 2 then [3, 4, 5] else if k = 3 then [4, 5] else if k = 4 then [5] else [])"
  by (auto simp: upt_rec numeral_eq_Suc)

text \<open>Placing a value and counting it: the last position grows by one, the extremes take it in.\<close>

lemma place_bump_inv:
  assumes "ordered mk" and "ends mk n5 lo hi" and "place x mk = (k, mk1)"
  shows "ordered (bump_positions k mk1) \<and> ends (bump_positions k mk1) (n5 + 1) (min x lo) (max x hi)"
  using assms
  by (auto simp: place_def bump_positions_def upt_6 ordered_def ends_def min_def max_def split: if_splits)

lemma advance_inv:
  "ordered (advance_desired mk) = ordered mk" "ends (advance_desired mk) n5 lo hi = ends mk n5 lo hi"
  by (simp_all add: advance_desired_def ordered_def ends_def)

lemma length_5_conv: "length ys = 5 \<Longrightarrow> \<exists>a b c d e. ys = [a, b, c, d, e]"
  by (auto simp: length_Suc_conv numeral_eq_Suc)

lemma init_marks_inv:
  assumes "length ys = 5" and "sorted ys"
  shows "ordered (init_marks p ys mk) \<and> ends (init_marks p ys mk) 5 (ys ! 0) (ys ! 4)"
proof -
  obtain a b c d e where "ys = [a, b, c, d, e]"
    using length_5_conv [OF assms(1)] by blast
  then show ?thesis
    using assms(2) by (auto simp: init_marks_def Let_def ordered_def ends_def)
qed

text \<open>The desired positions: marker \<open>i\<close> is to be at \<open>1 + (samples - 1) * dn\<close>.\<close>

definition desired :: "real \<Rightarrow> real \<Rightarrow> (nat \<Rightarrow> mark) \<Rightarrow> bool" where
  "desired p n mk \<longleftrightarrow>
     (\<forall>i\<in>{1, 2, 3, 4, 5}. mnp (mk i) = 1 + (n - 1) * mdn (mk i)) \<and>
     mdn (mk 1) = 0 \<and> mdn (mk 2) = p / 2 \<and> mdn (mk 3) = p \<and> mdn (mk 4) = (1 + p) / 2 \<and> mdn (mk 5) = 1"

lemma desired_cong:
  "(\<And>i. mnp (mk i) = mnp (mk' i) \<and> mdn (mk i) = mdn (mk' i)) \<Longrightarrow> desired p n mk = desired p n mk'"
  by (simp add: desired_def)

lemma desired_adjust: "desired p n (fst (fold adjust_mark is q)) = desired p n (fst q)"
proof (induction "is" arbitrary: q)
  case (Cons i "is")
  have "desired p n (fst (adjust_mark i q)) = desired p n (fst q)"
    by (rule desired_cong) (auto simp: adjust_mark_def Let_def split: prod.splits)
  then show ?case using Cons.IH by simp
qed simp

lemma desired_place_bump:
  assumes "place x mk = (k, mk1)"
  shows "desired p n (bump_positions k mk1) = desired p n mk"
proof -
  have "mnp (bump_positions k mk1 i) = mnp (mk1 i) \<and> mdn (bump_positions k mk1 i) = mdn (mk1 i)" for i
    by (auto simp: bump_positions_def upt_6)
  moreover have "mnp (mk1 i) = mnp (mk i) \<and> mdn (mk1 i) = mdn (mk i)" for i
    using assms by (auto simp: place_def split: if_splits)
  ultimately show ?thesis by (intro desired_cong) simp
qed

lemma desired_advance: "desired p n mk \<Longrightarrow> desired p (n + 1) (advance_desired mk)"
  by (auto simp: desired_def advance_desired_def algebra_simps)

lemma desired_init: "desired p 5 (init_marks p ys mk)"
  by (simp add: desired_def init_marks_def Let_def field_simps)

subsection \<open>The estimator and its samples\<close>

definition estimates :: "real \<Rightarrow> real list \<Rightarrow> qest \<Rightarrow> bool" where
  "estimates p xs e \<longleftrightarrow>
     m_perc e = p \<and> q_samples e = length xs \<and>
     (if length xs \<le> 5 then firstfive e = xs \<and> mq (marker e 3) = 0
      else ordered (marker e) \<and> ends (marker e) (real (length xs)) (Min (set xs)) (Max (set xs)) \<and>
           desired p (real (length xs)) (marker e))"

lemma sort5_ends:
  assumes "length xs = 5"
  shows "sort xs ! 0 = Min (set xs)" "sort xs ! 4 = Max (set xs)"
proof -
  obtain a b c d e where s: "sort xs = [a, b, c, d, e]"
    using assms length_5_conv [of "sort xs"] by auto
  have "sorted [a, b, c, d, e]" using sorted_sort [of xs] s by simp
  moreover have "set xs = {a, b, c, d, e}" using set_sort [of "\<lambda>x. x" xs] s by simp
  ultimately show "sort xs ! 0 = Min (set xs)" "sort xs ! 4 = Max (set xs)"
    unfolding s by (auto simp: min_def max_def)
qed

lemma estimates_push:
  assumes "estimates p xs e"
  shows "estimates p (xs @ [x]) (snd (q_push x e))"
proof (cases "length xs < 5")
  case True
  then show ?thesis using assms by (auto simp: estimates_def q_push_def)
next
  case False
  let ?mk = "if q_samples e = 5 then init_marks p (sort xs) (marker e) else marker e"
  have inv: "ordered ?mk \<and> ends ?mk (real (length xs)) (Min (set xs)) (Max (set xs)) \<and> desired p (real (length xs)) ?mk"
    using assms False init_marks_inv [of "sort xs" p "marker e"] sort5_ends [of xs] desired_init
    by (auto simp: estimates_def)
  obtain k mk1 where pl: "place x ?mk = (k, mk1)" by force
  let ?mk2 = "fst (fold adjust_mark [2, 3, 4] (advance_desired (bump_positions k mk1), q_d e))"
  have pb: "ordered (bump_positions k mk1) \<and> ends (bump_positions k mk1) (real (length xs) + 1)
      (min x (Min (set xs))) (max x (Max (set xs)))"
    using place_bump_inv [OF _ _ pl] inv by blast
  have "ordered ?mk2 \<and> ends ?mk2 (real (length xs) + 1) (min x (Min (set xs))) (max x (Max (set xs)))"
    using pb by (intro adjust_all_inv) (simp_all add: advance_inv)
  moreover have "desired p (real (length xs) + 1) ?mk2"
    using inv desired_advance [of p _ "bump_positions k mk1"]
    by (simp only: desired_adjust fst_conv desired_place_bump [OF pl])
  moreover have "marker (snd (q_push x e)) = ?mk2" "q_samples (snd (q_push x e)) = Suc (length xs)"
      "m_perc (snd (q_push x e)) = p"
    using assms False pl by (auto simp: estimates_def q_push_def Let_def split: prod.splits if_splits)
  moreover have "xs \<noteq> []" using False by auto
  ultimately show ?thesis
    using False by (simp add: estimates_def add.commute)
qed

lemma estimates_new: "estimates p [] (new_QuantileEstimator p)"
  by (simp add: estimates_def new_QuantileEstimator_def)

interpretation qe: accumulator "\<lambda>x e. snd (q_push x e)" "\<lambda>e. e = new_QuantileEstimator p" "estimates p"
  by unfold_locales (auto simp: estimates_new estimates_push)

lemma estimates_series: "estimates p xs (fold (\<lambda>x e. snd (q_push x e)) xs (new_QuantileEstimator p))"
  by (rule qe.holds_all) simp

subsection \<open>Properties\<close>



text \<open>The estimate is 0 up to the fifth sample, and from the sixth on it always lies between the
  smallest and the largest sample, for every percentile.\<close>

lemma quantile_within_samples:
  "let e = fold (\<lambda>x e. snd (q_push x e)) xs (new_QuantileEstimator p) in
     if length xs \<le> 5 then quantile e = 0 else Min (set xs) \<le> quantile e \<and> quantile e \<le> Max (set xs)"
  using estimates_series [of p xs]
  by (auto simp: estimates_def ordered_def ends_def quantile_def Let_def)

text \<open>Each of the hundred estimators of \<open>Quantiles\<close> sees every sample, so every valid index
  gives a value between the extremes once six samples are in; any other index gives 0.\<close>

lemma Quantiles_within_samples:
  assumes "5 < length xs"
  shows "let qs = fold Quantiles_Push xs new_Quantiles in
    if 0 \<le> i \<and> i \<le> 99 then Min (set xs) \<le> Quantiles_quantile i qs \<and> Quantiles_quantile i qs \<le> Max (set xs)
    else Quantiles_quantile i qs = 0"
proof -
  have "fold Quantiles_Push xs qs = map (fold (\<lambda>x e. snd (q_push x e)) xs) qs" for qs
    by (induction xs arbitrary: qs) (simp_all add: Quantiles_Push_def)
  then have q: "0 \<le> i \<Longrightarrow> i \<le> 99 \<Longrightarrow> fold Quantiles_Push xs new_Quantiles ! nat i =
      fold (\<lambda>x e. snd (q_push x e)) xs (new_QuantileEstimator (real (nat i) / 100))"
    by (simp add: new_Quantiles_def)
  show ?thesis
    using estimates_series [of "real (nat i) / 100" xs] assms q
    by (auto simp: Quantiles_quantile_def quantile_def estimates_def ordered_def ends_def Let_def)
qed

end
