(* ===== verification/RtLatency.thy ===== *)
theory RtLatency
  imports OnlineStats Quantile
begin

text \<open>
  The timer latency test of \<^verbatim>\<open>src/rt_test/latency/latency.cpp\<close>: the histogram, the clock
  arithmetic, the scheduler set-up and the thread that measures how late a 100 ms sleep ends.
  Clock readings and the answers of the scheduler and resource limit calls are parameters;
  an access outside the histogram array is the result None.
\<close>

subsection \<open>The histogram\<close>

record histogram =
  buckets :: int
  hist :: "int list"
  overflow :: int
  underflow :: int

definition new_Histogram :: "int \<Rightarrow> histogram" where
  "new_Histogram n = \<lparr>buckets = n * 2, hist = replicate (nat (n * 2)) 0, overflow = 0, underflow = 0\<rparr>"

definition Acc :: "int \<Rightarrow> histogram \<Rightarrow> histogram option" where
  "Acc val h =
     (let ndx = val + cdiv (buckets h) 2 in
      if ndx \<ge> buckets h then Some (h\<lparr>overflow := overflow h + 1\<rparr>)
      else let h1 = (if ndx < 0 then h\<lparr>underflow := underflow h + 1\<rparr> else h) in
           if 0 \<le> ndx \<and> nat ndx < length (hist h1)
           then Some (h1\<lparr>hist := (hist h1)[nat ndx := hist h1 ! nat ndx + 1]\<rparr>)
           else None)"

subsection \<open>Clock arithmetic\<close>

record timespec =
  tv_sec :: int
  tv_nsec :: int

abbreviation NSEC_PER_SEC :: int where "NSEC_PER_SEC \<equiv> 1000000000"

definition calcdiff :: "timespec \<Rightarrow> timespec \<Rightarrow> int" where
  "calcdiff t1 t2 = NSEC_PER_SEC * (tv_sec t1 - tv_sec t2) + (tv_nsec t1 - tv_nsec t2)"

definition timens :: "timespec \<Rightarrow> int" where
  "timens t = NSEC_PER_SEC * tv_sec t + tv_nsec t"

subsection \<open>Scheduler set-up\<close>

text \<open>The scheduler and resource limit calls on a state of the kernel. \<open>k_setsched\<close> and
  \<open>k_setrlimit\<close> give 0 or an errno, \<open>k_getparam\<close> and \<open>k_getrlimit\<close> None on failure.\<close>

record 'k kernel =
  k_getsched :: "'k \<Rightarrow> int"
  k_getparam :: "'k \<Rightarrow> int option"
  k_setsched :: "int \<Rightarrow> int \<Rightarrow> 'k \<Rightarrow> int \<times> 'k"
  k_prio_max :: "int \<Rightarrow> int option"
  k_getrlimit :: "'k \<Rightarrow> (ul \<times> ul) option"
  k_setrlimit :: "ul \<times> ul \<Rightarrow> 'k \<Rightarrow> int \<times> 'k"

definition SCHED_FIFO :: int where "SCHED_FIFO = 1"
definition SCHED_RR :: int where "SCHED_RR = 2"
definition EPERM :: int where "EPERM = 1"
definition RLIM_INFINITY :: ul where "RLIM_INFINITY = - 1"

definition check_privs :: "'k kernel \<Rightarrow> 'k \<Rightarrow> int \<times> 'k" where
  "check_privs K k =
     (let policy = k_getsched K k in
      if policy = SCHED_FIFO \<or> policy = SCHED_RR then (0, k)
      else case k_getparam K k of
             None \<Rightarrow> (1, k)
           | Some old_param \<Rightarrow>
               (let (r, k1) = k_setsched K SCHED_FIFO 1 k in
                if r \<noteq> 0 then (1, k1)
                else let (r2, k2) = k_setsched K policy old_param k1 in (if r2 \<noteq> 0 then - 1 else 0, k2)))"

text \<open>The result of opening and writing \<open>/dev/cpu_dma_latency\<close>: the descriptor kept and the
  line printed. \<open>fd\<close> is -1 on failure, \<open>written\<close> the return value of \<open>write\<close>.\<close>

datatype latency_line = LatencyError | LatencySet

definition set_latency_target :: "bool \<Rightarrow> int \<Rightarrow> int \<Rightarrow> int \<times> latency_line option" where
  "set_latency_target stat_ok fd written =
     (if stat_ok then
        (if fd = - 1 then (fd, None)
         else if written = 0 then (fd, Some LatencyError)
         else (fd, Some LatencySet))
      else (- 1, None))"

text \<open>\<open>raise_soft_prio\<close> exits the program on a failing call: \<open>Inl\<close> the exit status.\<close>

definition raise_soft_prio :: "'k kernel \<Rightarrow> int \<Rightarrow> int \<Rightarrow> 'k \<Rightarrow> int + (int \<times> 'k)" where
  "raise_soft_prio K policy prio k =
     (case k_prio_max K policy of None \<Rightarrow> Inl 1 | Some policy_max \<Rightarrow>
      case k_getrlimit K k of None \<Rightarrow> Inl 1 | Some (rlim_cur, rlim_max) \<Rightarrow>
      (let soft_max = (if rlim_cur = RLIM_INFINITY then policy_max else sint rlim_cur);
           hard_max = (if rlim_max = RLIM_INFINITY then policy_max else sint rlim_max)
       in if prio > soft_max \<and> prio \<le> hard_max
          then let (err, k1) = k_setrlimit K (of_int prio, rlim_max) k in
               if err \<noteq> 0 then Inl 1 else Inr (0, k1)
          else Inr (- 1, k)))"

partial_function (option) setscheduler ::
  "'k kernel \<Rightarrow> int \<Rightarrow> int \<Rightarrow> 'k \<Rightarrow> (int + (int \<times> 'k)) option" where
  "setscheduler K policy prio k =
     (let (err, k1) = k_setsched K policy prio k in
      if err \<noteq> 0 \<and> err = EPERM
      then (case raise_soft_prio K policy prio k1 of
              Inl x \<Rightarrow> Some (Inl x)
            | Inr (err1, k2) \<Rightarrow>
                if err1 = 0 then setscheduler K policy prio k2 else Some (Inr (err, k2)))
      else Some (Inr (err, k1)))"

subsection \<open>The timer thread\<close>

record timerctx =
  clksrc :: int
  iterations :: nat
  interval :: int
  priority :: int
  threadid :: int
  pm_q5 :: qest
  pm_q50 :: qest
  pm_q95 :: qest
  pm_q99 :: qest
  pstats :: ostats
  phist :: histogram

definition new_timerctx :: "real \<Rightarrow> real \<Rightarrow> timerctx" where
  "new_timerctx min0 max0 =
     \<lparr>clksrc = 0, iterations = 0, interval = 0, priority = 0, threadid = 0,
      pm_q5 = new_QuantileEstimator 0.05, pm_q50 = new_QuantileEstimator 0.50,
      pm_q95 = new_QuantileEstimator 0.95, pm_q99 = new_QuantileEstimator 0.99,
      pstats = new_OnlineStats min0 max0, phist = new_Histogram 1000\<rparr>"

text \<open>What the three clock calls of one iteration return.\<close>

record clock_reading =
  ret_now :: int
  now_time :: timespec
  ret_sleep :: int
  ret_next :: int
  next_time :: timespec

datatype thread_end = ThreadExit int | ThreadCrash | ThreadDone timerctx

definition sleep_req :: timespec where
  "sleep_req = \<lparr>tv_sec = 0, tv_nsec = 100 * (1000 * 1000)\<rparr>"

text \<open>\<open>(int)(diff-timens(req))/1000\<close>: the cast binds before the division.\<close>

definition timer_delta :: "timespec \<Rightarrow> timespec \<Rightarrow> int" where
  "timer_delta now next = cdiv (to_int32 (calcdiff next now - timens sleep_req)) 1000"

definition timer_push :: "int \<Rightarrow> timerctx \<Rightarrow> timerctx option" where
  "timer_push delta c =
     (let x = of_int delta;
          c1 = c\<lparr>pm_q5 := snd (q_push x (pm_q5 c)), pm_q50 := snd (q_push x (pm_q50 c)),
                 pm_q99 := snd (q_push x (pm_q99 c)), pm_q95 := snd (q_push x (pm_q95 c)),
                 pstats := Push x (pstats c)\<rparr>
      in map_option (\<lambda>h. c1\<lparr>phist := h\<rparr>) (Acc delta (phist c1)))"

fun timer_loop :: "clock_reading list \<Rightarrow> timerctx \<Rightarrow> thread_end" where
  "timer_loop [] c = ThreadDone c"
| "timer_loop (r # rs) c =
     (if ret_now r \<noteq> 0 then ThreadExit 1
      else if ret_sleep r \<noteq> 0 then ThreadExit 1
      else if ret_next r \<noteq> 0 then ThreadExit 1
      else case timer_push (timer_delta (now_time r) (next_time r)) c of
             None \<Rightarrow> ThreadCrash
           | Some c' \<Rightarrow> timer_loop rs c')"

definition timerthread :: "bool \<Rightarrow> bool \<Rightarrow> (nat \<Rightarrow> clock_reading) \<Rightarrow> timerctx \<Rightarrow> thread_end" where
  "timerthread sched_ok mlock_ok rd c =
     (if \<not> sched_ok then ThreadExit (- 1)
      else if \<not> mlock_ok then ThreadExit (- 2)
      else timer_loop (map rd [0..<iterations c]) c)"

subsection \<open>The program\<close>

datatype lat_line =
    Percentile int nat real
  | Moments int real real real
  | HistRow int "int list"
  | OverRow "int list"
  | UnderRow "int list"

abbreviation MY_PRIORITY :: int where "MY_PRIORITY \<equiv> 80"

definition thread_ctx :: "real \<Rightarrow> real \<Rightarrow> nat \<Rightarrow> timerctx" where
  "thread_ctx min0 max0 i =
     (new_timerctx min0 max0)\<lparr>threadid := int i, clksrc := 1, interval := 100 * 1000 * 1000,
        iterations := 5000, priority := MY_PRIORITY\<rparr>"

definition thread_report :: "timerctx \<Rightarrow> lat_line list" where
  "thread_report c =
     [Percentile (threadid c) 5 (quantile (pm_q5 c)), Percentile (threadid c) 50 (quantile (pm_q50 c)),
      Percentile (threadid c) 95 (quantile (pm_q95 c)), Percentile (threadid c) 99 (quantile (pm_q99 c)),
      Moments (threadid c) (StdDeviation (pstats c)) (Skew (pstats c)) (Kurtosis (pstats c))]"

definition lat_report :: "timerctx list \<Rightarrow> lat_line list" where
  "lat_report cs =
     concat (map thread_report cs) @
     map (\<lambda>i. HistRow (int i) (map (\<lambda>c. hist (phist c) ! i) cs)) [0..<nat (buckets (phist (cs ! 0)))] @
     [OverRow (map (\<lambda>c. overflow (phist c)) cs), UnderRow (map (\<lambda>c. underflow (phist c)) cs)]"

fun done_ctx :: "thread_end \<Rightarrow> timerctx option" where
  "done_ctx (ThreadDone c) = Some c"
| "done_ctx _ = None"

text \<open>
  The four threads share nothing but the process: it prints the report if all of them are done,
  and else it ends as thread \<open>first\<close>, the first that is not, does. None is a crash.
\<close>

definition lat_main ::
  "'k kernel \<Rightarrow> 'k \<Rightarrow> bool \<times> int \<times> int \<Rightarrow> bool \<Rightarrow>
   (nat \<Rightarrow> bool \<times> bool \<times> (nat \<Rightarrow> clock_reading)) \<Rightarrow> nat \<Rightarrow>
   real \<Rightarrow> real \<Rightarrow> (int \<times> latency_line option \<times> lat_line list) option" where
  "lat_main K k dma mlock_ok env first min0 max0 =
     (if fst (check_privs K k) \<noteq> 0 then Some (1, None, [])
      else
        let (stat_ok, fd, written) = dma; line = snd (set_latency_target stat_ok fd written) in
        if \<not> mlock_ok then Some (1, line, [])
        else let ends = map (\<lambda>i. let (so, mo, rd) = env i in timerthread so mo rd (thread_ctx min0 max0 i)) [0..<4] in
             case those (map done_ctx ends) of
               Some cs \<Rightarrow> Some (0, line, lat_report cs)
             | None \<Rightarrow> (case ends ! first of ThreadExit x \<Rightarrow> Some (x, line, []) | _ \<Rightarrow> None))"

subsection \<open>The histogram counts\<close>

definition bucket_of :: "int \<Rightarrow> int \<Rightarrow> int list \<Rightarrow> int" where
  "bucket_of n v xs = int (length (filter (\<lambda>x. x = v - n) xs))"

text \<open>Bucket \<open>i\<close> holds how often \<open>i - n\<close> was seen, if no sample was below \<open>- n\<close>.\<close>

definition hist_of :: "int \<Rightarrow> int list \<Rightarrow> histogram \<Rightarrow> bool" where
  "hist_of n xs h \<longleftrightarrow>
     buckets h = n * 2 \<and> length (hist h) = nat (n * 2) \<and>
     ((\<forall>x\<in>set xs. - n \<le> x) \<longrightarrow>
        (\<forall>i<nat (n * 2). hist h ! i = bucket_of n (int i) xs) \<and>
        overflow h = int (length (filter (\<lambda>x. n \<le> x) xs)) \<and> underflow h = 0)"

lemma half_buckets: "0 \<le> n \<Longrightarrow> cdiv (n * 2) 2 = n"
  by (simp add: cdiv_nonneg)

lemma Acc_None_iff:
  assumes "0 \<le> n" and "buckets h = n * 2" and "length (hist h) = nat (n * 2)"
  shows "Acc val h = None \<longleftrightarrow> val < - n"
  using assms by (auto simp: Acc_def half_buckets Let_def)

lemma hist_of_Acc:
  assumes "0 \<le> n" and "hist_of n xs h" and "Acc v h = Some h'"
  shows "hist_of n (xs @ [v]) h'"
proof -
  have b: "buckets h = n * 2" "length (hist h) = nat (n * 2)"
    using assms(2) by (simp_all add: hist_of_def)
  then have v: "- n \<le> v"
    using Acc_None_iff [OF assms(1) b, of v] assms(3) by auto
  show ?thesis
  proof (cases "n \<le> v")
    case True
    then have "h' = h\<lparr>overflow := overflow h + 1\<rparr>"
      using assms b by (simp add: Acc_def half_buckets Let_def)
    moreover have "bucket_of n (int i) (xs @ [v]) = bucket_of n (int i) xs" if "i < nat (n * 2)" for i
      using True that by (auto simp: bucket_of_def)
    ultimately show ?thesis using assms(2) True by (auto simp: hist_of_def)
  next
    case False
    let ?j = "nat (v + n)"
    have j: "?j < nat (n * 2)" "v = int ?j - n" using v False by auto
    have "h' = h\<lparr>hist := (hist h)[?j := hist h ! ?j + 1]\<rparr>"
      using assms b v False by (auto simp: Acc_def half_buckets Let_def split: if_splits)
    moreover have "bucket_of n (int i) (xs @ [v]) = bucket_of n (int i) xs + (if i = ?j then 1 else 0)" for i
      using j v by (auto simp: bucket_of_def)
    ultimately show ?thesis
      using assms(2) False j(1) b by (auto simp: hist_of_def nth_list_update)
  qed
qed

lemma hist_of_new: "hist_of n [] (new_Histogram n)"
  by (simp add: hist_of_def new_Histogram_def bucket_of_def)

text \<open>As an accumulator: a push outside the array leaves the histogram alone.\<close>

definition Acc_or_same :: "int \<Rightarrow> histogram \<Rightarrow> histogram" where
  "Acc_or_same v h = (case Acc v h of None \<Rightarrow> h | Some h' \<Rightarrow> h')"

interpretation hg: accumulator Acc_or_same "\<lambda>h. h = new_Histogram 1000" "hist_of 1000"
proof
  show "hist_of 1000 (xs @ [x]) (Acc_or_same x h)" if "hist_of 1000 xs h" for xs h x
  proof (cases "Acc x h")
    case None
    then have "x < - 1000"
      using Acc_None_iff [of 1000 h x] that by (simp add: hist_of_def)
    then show ?thesis using that None by (auto simp: hist_of_def Acc_or_same_def)
  next
    case (Some h')
    then show ?thesis using hist_of_Acc [OF _ that] by (simp add: Acc_or_same_def)
  qed
qed (simp add: hist_of_new)

subsection \<open>The thread pushes every delta\<close>

definition reading_ok :: "clock_reading \<Rightarrow> bool" where
  "reading_ok r \<longleftrightarrow> ret_now r = 0 \<and> ret_sleep r = 0 \<and> ret_next r = 0"

definition delta_of :: "clock_reading \<Rightarrow> int" where
  "delta_of r = timer_delta (now_time r) (next_time r)"

text \<open>The context after the deltas \<open>ds\<close>.\<close>

definition fed :: "int list \<Rightarrow> timerctx \<Rightarrow> timerctx" where
  "fed ds c =
     (let feed = fold (\<lambda>x e. snd (q_push x e)) (map of_int ds) in
      c\<lparr>pm_q5 := feed (pm_q5 c), pm_q50 := feed (pm_q50 c), pm_q95 := feed (pm_q95 c),
        pm_q99 := feed (pm_q99 c), pstats := fold Push (map of_int ds) (pstats c),
        phist := fold Acc_or_same ds (phist c)\<rparr>)"

lemma fed_Nil [simp]: "fed [] c = c"
  by (simp add: fed_def)

lemma timer_push_fed:
  assumes "hist_of 1000 xs (phist c)" and "- 1000 \<le> d"
  shows "timer_push d c = Some (fed [d] c) \<and> hist_of 1000 (xs @ [d]) (phist (fed [d] c))"
proof -
  obtain h where "Acc d (phist c) = Some h"
    using Acc_None_iff [of 1000 "phist c" d] assms by (auto simp: hist_of_def)
  moreover from this have "hist_of 1000 (xs @ [d]) h"
    using hist_of_Acc assms(1) by simp
  ultimately show ?thesis
    by (simp add: timer_push_def fed_def Acc_or_same_def Let_def)
qed

lemma fed_Cons: "fed (d # ds) c = fed ds (fed [d] c)"
  by (simp add: fed_def Let_def)

lemma timer_loop_done:
  assumes "\<forall>r\<in>set rs. reading_ok r \<and> - 1000 \<le> delta_of r" and "hist_of 1000 xs (phist c)"
  shows "timer_loop rs c = ThreadDone (fed (map delta_of rs) c)"
  using assms
proof (induction rs arbitrary: c xs)
  case (Cons r rs)
  have "timer_push (delta_of r) c = Some (fed [delta_of r] c)"
    and h: "hist_of 1000 (xs @ [delta_of r]) (phist (fed [delta_of r] c))"
    using timer_push_fed [OF Cons.prems(2)] Cons.prems(1) by simp_all
  moreover have "timer_delta (now_time r) (next_time r) = delta_of r"
    by (simp add: delta_of_def)
  ultimately show ?case
    using Cons.IH [OF _ h] Cons.prems(1) fed_Cons [of "delta_of r" "map delta_of rs" c]
    by (simp add: reading_ok_def)
qed simp

lemma timer_delta_wrapped:
  assumes "2 ^ 31 \<le> calcdiff next now - timens sleep_req"
    and "calcdiff next now - timens sleep_req \<le> 2 ^ 32 - 1001000"
  shows "timer_delta now next < - 1000"
proof -
  let ?x = "calcdiff next now - timens sleep_req"
  have "to_int32 ?x = ?x - 2 ^ 32"
    using assms by (intro to_int32_wrap) auto
  then have "timer_delta now next = - ((2 ^ 32 - ?x) div 1000)"
    using assms by (simp add: timer_delta_def cdiv_neg)
  then show ?thesis using assms by linarith
qed

subsection \<open>Scheduler calls\<close>

text \<open>What the scheduler calls promise: a successful change is seen by the getters, a failed one
  changes nothing; a raised soft limit is seen too, and changing the scheduler does not touch
  the limits.\<close>

definition kernel_ok :: "'k kernel \<Rightarrow> bool" where
  "kernel_ok K \<longleftrightarrow>
     (\<forall>pol p k k'. k_setsched K pol p k = (0, k') \<longrightarrow> k_getsched K k' = pol \<and> k_getparam K k' = Some p) \<and>
     (\<forall>pol p k r k'. k_setsched K pol p k = (r, k') \<and> r \<noteq> 0 \<longrightarrow> k' = k) \<and>
     (\<forall>l k k'. k_setrlimit K l k = (0, k') \<longrightarrow> k_getrlimit K k' = Some l)"

lemma raise_once:
  assumes "kernel_ok K" and "raise_soft_prio K policy prio k = Inr (0, k1)" and "0 \<le> prio" and "prio < 2 ^ 31"
  shows "raise_soft_prio K policy prio k1 = Inr (- 1, k1)"
proof -
  obtain pm cur mx where p: "k_prio_max K policy = Some pm" "k_getrlimit K k = Some (cur, mx)"
    using assms(2) by (auto simp: raise_soft_prio_def split: option.splits)
  then have "k_setrlimit K (of_int prio, mx) k = (0, k1)"
    using assms(2) by (auto simp: raise_soft_prio_def Let_def split: if_splits prod.splits)
  then have g: "k_getrlimit K k1 = Some (of_int prio, mx)"
    using assms(1) unfolding kernel_ok_def by blast
  have "sint (of_int prio :: ul) = prio"
    using assms(3,4) by (simp add: signed_of_int signed_take_bit_int_eq_self)
  moreover have "of_int prio \<noteq> RLIM_INFINITY"
    using calculation assms(3) by (auto simp: RLIM_INFINITY_def)
  ultimately show ?thesis using p g by (simp add: raise_soft_prio_def)
qed

subsection \<open>Properties\<close>





text \<open>A sample is written outside the array iff it is below minus half the number of buckets;
  a sample at or above half of it is counted as overflow and nothing else changes.\<close>

lemma Acc_bounds:
  assumes "0 \<le> n" and "buckets h = n * 2" and "length (hist h) = nat (n * 2)"
  shows "(Acc val h = None \<longleftrightarrow> val < - n) \<and>
    (n \<le> val \<longrightarrow> Acc val h = Some (h\<lparr>overflow := overflow h + 1\<rparr>))"
  using Acc_None_iff [OF assms] assms by (simp add: Acc_def half_buckets Let_def)

text \<open>If the privilege check succeeds, the scheduling policy and the priority of the process are
  the ones it had before.\<close>

lemma check_privs_restores:
  assumes "kernel_ok K" and "check_privs K k = (0, k')"
  shows "k_getsched K k' = k_getsched K k \<and> k_getparam K k' = k_getparam K k"
proof (cases "k_getsched K k = SCHED_FIFO \<or> k_getsched K k = SCHED_RR")
  case True
  then show ?thesis using assms(2) by (simp add: check_privs_def)
next
  case False
  then obtain p where p: "k_getparam K k = Some p"
    using assms(2) by (auto simp: check_privs_def Let_def split: option.splits)
  obtain r1 k1 where 1: "k_setsched K SCHED_FIFO 1 k = (r1, k1)" by force
  obtain r2 k2 where 2: "k_setsched K (k_getsched K k) p k1 = (r2, k2)" by force
  have "r2 = 0" "k' = k2"
    using assms(2) False p 1 2 by (auto simp: check_privs_def Let_def split: if_splits)
  then show ?thesis
    using assms(1) 2 p unfolding kernel_ok_def by fastforce
qed

text \<open>A scheduler that refuses priorities above the soft limit.\<close>

definition limit_kernel :: "(int \<times> int \<times> ul \<times> ul) kernel" where
  "limit_kernel =
     \<lparr>k_getsched = fst, k_getparam = (\<lambda>k. Some (fst (snd k))),
     k_setsched = (\<lambda>pol p k. if sint (fst (snd (snd k))) < p then (1, k) else (0, (pol, p, snd (snd k)))),
     k_prio_max = (\<lambda>_. Some 99), k_getrlimit = (\<lambda>k. Some (snd (snd k))),
     k_setrlimit = (\<lambda>l k. (0, (fst k, fst (snd k), l)))\<rparr>"

lemma limit_kernel_ok: "kernel_ok limit_kernel"
  by (auto simp: kernel_ok_def limit_kernel_def split: if_splits)

text \<open>The retry loop around \<open>sched_setscheduler\<close> ends: the soft limit is raised at most once.\<close>

lemma setscheduler_ends:
  assumes "kernel_ok K" and "0 \<le> prio" and "prio < 2 ^ 31"
  shows "\<exists>r. setscheduler K policy prio k = Some r"
proof -
  have stop: "\<exists>r. setscheduler K policy prio k1 = Some r" if "raise_soft_prio K policy prio k0 = Inr (0, k1)" for k0 k1
  proof -
    obtain e k2 where s: "k_setsched K policy prio k1 = (e, k2)" by force
    show ?thesis
    proof (cases "e = 0")
      case True
      then show ?thesis using s by (subst setscheduler.simps) simp
    next
      case False
      then have "k2 = k1" using s assms(1) unfolding kernel_ok_def by blast
      then show ?thesis
        using s raise_once [OF assms(1) that assms(2,3)] by (subst setscheduler.simps) simp
    qed
  qed
  obtain e k1 where "k_setsched K policy prio k = (e, k1)" by force
  then show ?thesis
    using stop [of k1] by (subst setscheduler.simps) (auto split: sum.splits)
qed

end
