(* ===== verification/Bytes.thy ===== *)
theory Bytes
  imports Prelude
begin

text \<open>
  Numbers as bytes of a little-endian machine: writing a number to a list of bytes, reading a
  32-bit one from memory, and that the one undoes the other.
\<close>

definition le_bytes :: "nat \<Rightarrow> int \<Rightarrow> u8 list" where
  "le_bytes n v = map (\<lambda>k. of_int (v div 2 ^ (8 * k))) [0..<n]"

definition le_u32 :: "(nat \<Rightarrow> u8) \<Rightarrow> nat \<Rightarrow> u32" where
  "le_u32 m a = of_nat (\<Sum>k<4. unat (m (a + k)) * 2 ^ (8 * k))"

lemma length_le_bytes [simp]: "length (le_bytes n v) = n"
  by (simp add: le_bytes_def)

lemma int_unat_byte: "int (unat (of_int x :: u8)) = x mod 256"
  by (simp add: unsigned_of_int take_bit_eq_mod)

lemma bytes_sum: "v mod 256 + (v div 256 mod 256) * 256 + (v div 65536 mod 256) * 65536 +
    (v div 16777216 mod 256) * 16777216 = v mod (4294967296 :: int)"
proof -
  have m: "v mod (a * b) = a * (v div a mod b) + v mod a" if "0 \<le> b" for a b :: int
    using that by (rule zmod_zmult2_eq)
  have "v mod 4294967296 = 16777216 * (v div 16777216 mod 256) + v mod 16777216"
    using m [of 256 16777216] by simp
  moreover have "v mod 16777216 = 65536 * (v div 65536 mod 256) + v mod 65536"
    using m [of 256 65536] by simp
  moreover have "v mod 65536 = 256 * (v div 256 mod 256) + v mod 256"
    using m [of 256 256] by simp
  ultimately show ?thesis by linarith
qed

lemma le_u32_le_bytes:
  assumes "\<And>k. k < 4 \<Longrightarrow> m (a + k) = le_bytes 4 v ! k"
  shows "le_u32 m a = of_int v"
proof -
  have b: "m a = of_int v" "m (a + 1) = of_int (v div 256)" "m (a + 2) = of_int (v div 65536)"
    "m (a + 3) = of_int (v div 16777216)"
    using assms [of 0] assms [of 1] assms [of 2] assms [of 3] by (simp_all add: le_bytes_def)
  have s: "(\<Sum>k<4. f k) = f 0 + f 1 + f 2 + f 3" for f :: "nat \<Rightarrow> nat"
    by (simp add: eval_nat_numeral)
  have "int (\<Sum>k<4. unat (m (a + k)) * 2 ^ (8 * k)) = v mod 4294967296"
    unfolding s of_nat_add of_nat_mult bytes_sum [of v, symmetric]
    by (simp only: b add_0_right int_unat_byte) simp
  then have "of_int (int (\<Sum>k<4. unat (m (a + k)) * 2 ^ (8 * k))) = (of_int (v mod 4294967296) :: u32)"
    by (rule arg_cong)
  moreover have "(of_int (v mod 4294967296) :: u32) = of_int v"
    by (simp add: word_of_int_eq_iff take_bit_eq_mod)
  ultimately show ?thesis by (simp add: le_u32_def)
qed

end
