(* ===== verification/PingCore.thy ===== *)
theory PingCore
  imports Getopt Bytes
begin

text \<open>
  The packet side of \<^verbatim>\<open>src/ethernet_test/ping/ping.c\<close>: the Internet checksum, the table of
  received sequence numbers, the subtraction of times, the echo request that is sent, what a
  received packet does to the counters, and the closing statistics. Packets are bytes on a
  little-endian machine with a 32-bit \<open>long\<close>; the clock and the result of \<open>sendto\<close> are
  arguments. The loop of \<open>main\<close> and the printing of foreign packets are in Ping and
  PingPrint.
\<close>

subsection \<open>Constants and state\<close>

definition F_FLOOD :: u32 where "F_FLOOD = 0x001"
definition F_INTERVAL :: u32 where "F_INTERVAL = 0x002"
abbreviation F_NUMERIC :: u32 where "F_NUMERIC \<equiv> 0x004"
definition F_PINGFILLED :: u32 where "F_PINGFILLED = 0x008"
definition F_QUIET :: u32 where "F_QUIET = 0x010"
definition F_RROUTE :: u32 where "F_RROUTE = 0x020"
abbreviation F_SO_DEBUG :: u32 where "F_SO_DEBUG \<equiv> 0x040"
abbreviation F_SO_DONTROUTE :: u32 where "F_SO_DONTROUTE \<equiv> 0x080"
abbreviation F_VERBOSE :: u32 where "F_VERBOSE \<equiv> 0x100"
abbreviation F_SO_DF :: u32 where "F_SO_DF \<equiv> 0x200"

abbreviation DEFDATALEN :: int where "DEFDATALEN \<equiv> 64 - 8"
abbreviation MAXIPLEN :: int where "MAXIPLEN \<equiv> 60"
abbreviation MAXICMPLEN :: int where "MAXICMPLEN \<equiv> 76"
definition MAXPACKET :: nat where "MAXPACKET = 65536 - 60 - 8"
abbreviation MAXWAIT :: int where "MAXWAIT \<equiv> 10"
definition MAX_DUP_CHK :: nat where "MAX_DUP_CHK = 8 * 128"
definition ICMP_MINLEN :: int where "ICMP_MINLEN = 8"
definition ICMP_ECHO :: u8 where "ICMP_ECHO = 8"
definition ICMP_ECHOREPLY :: u8 where "ICMP_ECHOREPLY = 0"
definition LONG_MAX :: int where "LONG_MAX = 2 ^ 31 - 1"

record timeval =
  sec :: int
  usec :: int

text \<open>The globals; \<open>out\<close> is what went to the standard output.\<close>

record ping =
  options :: u32
  datalen :: int
  outpack :: "u8 list"
  rcvd_tbl :: "u8 list"
  hostname :: cstr
  ident :: u16
  npackets :: int
  nreceived :: int
  nrepeats :: int
  ntransmitted :: int
  ping_interval :: int
  timing :: bool
  tmin :: int
  tmax :: int
  tsum :: ul
  old_rr :: "u8 list"
  out :: cstr

definition flag :: "u32 \<Rightarrow> ping \<Rightarrow> bool" where
  "flag f p \<longleftrightarrow> options p AND f \<noteq> 0"

definition say :: "cstr \<Rightarrow> ping \<Rightarrow> ping" where
  "say t p = p\<lparr>out := out p @ t\<rparr>"

definition ping0 :: ping where
  "ping0 =
     \<lparr>options = 0, datalen = DEFDATALEN, outpack = replicate MAXPACKET 0,
      rcvd_tbl = replicate (MAX_DUP_CHK div 8) 0, hostname = [], ident = 0, npackets = 0,
      nreceived = 0, nrepeats = 0, ntransmitted = 0, ping_interval = 1, timing = False,
      tmin = LONG_MAX, tmax = 0, tsum = 0, old_rr = [], out = []\<rparr>"

subsection \<open>The table of received sequence numbers\<close>

definition tbl_TST :: "nat \<Rightarrow> u8 list \<Rightarrow> bool" where
  "tbl_TST b t \<longleftrightarrow> t ! (b div 8) AND push_bit (b mod 8) 1 \<noteq> 0"

definition tbl_SET :: "nat \<Rightarrow> u8 list \<Rightarrow> u8 list" where
  "tbl_SET b t = t[b div 8 := t ! (b div 8) OR push_bit (b mod 8) 1]"

definition tbl_CLR :: "nat \<Rightarrow> u8 list \<Rightarrow> u8 list" where
  "tbl_CLR b t = t[b div 8 := t ! (b div 8) AND NOT (push_bit (b mod 8) 1)]"

subsection \<open>The Internet checksum\<close>

text \<open>The 16-bit words of a buffer; an odd byte at the end is the low byte of a word.\<close>

fun words16 :: "u8 list \<Rightarrow> nat list" where
  "words16 [] = []"
| "words16 [a] = [unat a]"
| "words16 (a # b # bs) = (unat a + 256 * unat b) # words16 bs"

definition in_cksum :: "u8 list \<Rightarrow> u16" where
  "in_cksum buf =
     (let sum0 = sum_list (words16 buf);
          sum1 = sum0 div 2 ^ 16 + sum0 mod 2 ^ 16;
          sum2 = sum1 + sum1 div 2 ^ 16
      in NOT (of_nat sum2))"

subsection \<open>Times\<close>

definition tvsub :: "timeval \<Rightarrow> timeval \<Rightarrow> timeval" where
  "tvsub o' i =
     (let u = usec o' - usec i;
          (s1, u1) = (if u < 0 then (sec o' - 1, u + 1000000) else (sec o', u))
      in \<lparr>sec = s1 - sec i, usec = u1\<rparr>)"

text \<open>Little-endian fields of a byte list.\<close>

definition put_bytes :: "nat \<Rightarrow> u8 list \<Rightarrow> u8 list \<Rightarrow> u8 list" where
  "put_bytes i bs xs = take i xs @ bs @ drop (i + length bs) xs"

definition le_s32 :: "(nat \<Rightarrow> u8) \<Rightarrow> nat \<Rightarrow> int" where
  "le_s32 m a = to_int32 (\<Sum>k<4. uint (m (a + k)) * 2 ^ (8 * k))"

definition le_u16 :: "(nat \<Rightarrow> u8) \<Rightarrow> nat \<Rightarrow> nat" where
  "le_u16 m a = unat (m a) + 256 * unat (m (a + 1))"

subsection \<open>Sending\<close>

text \<open>
  \<open>pinger\<close> with the time of day and what \<open>sendto\<close> returns for a number of bytes. The result
  is the packet handed to \<open>sendto\<close>, the return value and the state; None if the packet is
  longer than the array it is in.
\<close>

definition pinger_packet :: "timeval \<Rightarrow> ping \<Rightarrow> u8 list" where
  "pinger_packet tv p =
     (let seq = ntransmitted p mod 2 ^ 16;
          o1 = put_bytes 0 ([ICMP_ECHO, 0, 0, 0] @ le_bytes 2 (uint (ident p)) @ le_bytes 2 seq) (outpack p);
          o2 = (if timing p then put_bytes 8 (le_bytes 4 (sec tv) @ le_bytes 4 (usec tv)) o1 else o1);
          cc = nat (datalen p + 8)
      in put_bytes 2 (le_bytes 2 (uint (in_cksum (take cc o2)))) o2)"

definition pinger_messages :: "int \<Rightarrow> int \<Rightarrow> ping \<Rightarrow> ping" where
  "pinger_messages cc i p =
     (let p1 = (if i < 0 \<or> i \<noteq> cc
                then say (''ping: wrote '' @ hostname p @ '' '' @ fmt_d cc @ '' chars, ret='' @ fmt_d i @ nl) p
                else p)
      in if \<not> flag F_QUIET p1 \<and> flag F_FLOOD p1 then say ''.'' p1 else p1)"

definition pinger :: "timeval \<Rightarrow> (int \<Rightarrow> int) \<Rightarrow> ping \<Rightarrow> (u8 list \<times> ping) option" where
  "pinger tv sendto p =
     (let cc = datalen p + 8;
          pack = pinger_packet tv p;
          seq = ntransmitted p mod 2 ^ 16;
          p1 = p\<lparr>ntransmitted := ntransmitted p + 1,
                 rcvd_tbl := tbl_CLR (nat seq mod MAX_DUP_CHK) (rcvd_tbl p), outpack := pack\<rparr>
      in if int (length pack) < cc then None
         else Some (take (nat cc) pack, pinger_messages cc (sendto cc) p1))"

subsection \<open>Receiving an echo reply\<close>

definition pr_time :: "timeval \<Rightarrow> timeval \<Rightarrow> ping \<Rightarrow> int \<times> ping" where
  "pr_time tv sent p =
     (if timing p then
        (let d = tvsub tv sent;
             triptime = sec d * 10000 + cdiv (usec d) 100
         in (triptime,
             p\<lparr>tsum := tsum p + of_int triptime,
               tmin := (if triptime < tmin p then triptime else tmin p),
               tmax := (if triptime > tmax p then triptime else tmax p)\<rparr>))
      else (0, p))"

definition count_reply :: "nat \<Rightarrow> ping \<Rightarrow> bool \<times> ping" where
  "count_reply seq p =
     (let b = seq mod MAX_DUP_CHK in
      if tbl_TST b (rcvd_tbl p)
      then (True, p\<lparr>nrepeats := nrepeats p + 1, nreceived := nreceived p - 1\<rparr>)
      else (False, p\<lparr>rcvd_tbl := tbl_SET b (rcvd_tbl p)\<rparr>))"

definition inet_ntoa :: "u32 \<Rightarrow> cstr" where
  "inet_ntoa a =
     (let byte = (\<lambda>k. fmt_u (unat (drop_bit (8 * k) a AND 255))) in
      byte 0 @ ''.'' @ byte 1 @ ''.'' @ byte 2 @ ''.'' @ byte 3)"

text \<open>The data of the reply at \<open>data\<close> against the data that was sent: the first difference is
  reported with a dump, which starts at \<open>icp + 1\<close>, 20 bytes after the data.\<close>

definition first_wrong :: "(nat \<Rightarrow> u8) \<Rightarrow> nat \<Rightarrow> ping \<Rightarrow> nat option" where
  "first_wrong m data p =
     List.find (\<lambda>i. m (data + i) \<noteq> outpack p ! (8 + i)) [8..<nat (datalen p)]"

definition dump_data :: "(nat \<Rightarrow> u8) \<Rightarrow> nat \<Rightarrow> ping \<Rightarrow> cstr" where
  "dump_data m data p =
     concat (map (\<lambda>i. (if i mod 32 = 8 then nl @ tab else []) @
                      fmt_base 16 (unat (m (data + 20 + (i - 8)))) @ '' '')
                 [8..<nat (datalen p)])"

definition check_data :: "(nat \<Rightarrow> u8) \<Rightarrow> nat \<Rightarrow> ping \<Rightarrow> cstr" where
  "check_data m data p =
     (case first_wrong m data p of
        None \<Rightarrow> []
      | Some i \<Rightarrow>
          nl @ ''wrong data byte #'' @ fmt_u i @ '' should be 0x'' @ fmt_base 16 (unat (outpack p ! (8 + i)))
            @ '' but was 0x'' @ fmt_base 16 (unat (m (data + i))) @ dump_data m data p)"

text \<open>The echo reply branch of \<open>pr_pack\<close>: \<open>hlen\<close> is the length of the IP header in the buffer
  \<open>m\<close>, \<open>cc\<close> the number of bytes after it. The boolean tells whether the function goes on to
  the IP options.\<close>

definition pr_reply :: "(nat \<Rightarrow> u8) \<Rightarrow> nat \<Rightarrow> int \<Rightarrow> u32 \<Rightarrow> timeval \<Rightarrow> ping \<Rightarrow> bool \<times> ping" where
  "pr_reply m hlen cc from tv p =
     (if le_u16 m (hlen + 4) \<noteq> unat (ident p) then (False, p)
      else
        let seq = le_u16 m (hlen + 6);
            p1 = p\<lparr>nreceived := nreceived p + 1\<rparr>;
            (triptime, p2) = pr_time tv \<lparr>sec = le_s32 m (hlen + 8), usec = le_s32 m (hlen + 12)\<rparr> p1;
            (dupflag, p3) = count_reply seq p2
        in if flag F_QUIET p3 then (False, p3)
           else if flag F_FLOOD p3 then (True, say [CHR 0x08] p3)
           else (True, say (fmt_d cc @ '' bytes from '' @ inet_ntoa from @ '': icmp_seq='' @ fmt_u seq @
                            '' ttl='' @ fmt_u (unat (m 8)) @
                            (if timing p3 then '' time='' @ fmt_d (cdiv triptime 10) @ ''.'' @
                                               fmt_d (cmod triptime 10) @ '' ms'' else []) @
                            (if dupflag then '' (DUP!)'' else []) @
                            check_data m (hlen + 8) p3) p3))"

subsection \<open>The end of a run\<close>

definition loss_percent :: "ping \<Rightarrow> int" where
  "loss_percent p = cdiv ((ntransmitted p - nreceived p) * 100) (ntransmitted p)"

definition finish_text :: "ping \<Rightarrow> cstr" where
  "finish_text p =
     nl @ ''--- '' @ hostname p @ '' ping statistics ---'' @ nl @
     fmt_d (ntransmitted p) @ '' packets transmitted, '' @
     fmt_d (nreceived p) @ '' packets received, '' @
     (if nrepeats p \<noteq> 0 then ''+'' @ fmt_d (nrepeats p) @ '' duplicates, '' else []) @
     (if ntransmitted p \<noteq> 0
      then (if nreceived p > ntransmitted p then ''-- somebody's printing up packets!''
            else fmt_d (loss_percent p) @ ''% packet loss'')
      else []) @ nl @
     (if nreceived p \<noteq> 0 \<and> timing p
      then let avg = unat (tsum p) div nat (nreceived p + nrepeats p) in
           ''round-trip min/avg/max = '' @
           fmt_d (cdiv (tmin p) 10) @ ''.'' @ fmt_d (cmod (tmin p) 10) @ ''/'' @
           fmt_u (avg div 10) @ ''.'' @ fmt_u (avg mod 10) @ ''/'' @
           fmt_d (cdiv (tmax p) 10) @ ''.'' @ fmt_d (cmod (tmax p) 10) @ '' ms'' @ nl
      else [])"

text \<open>The exit status and the output.\<close>

definition finish :: "ping \<Rightarrow> int \<times> cstr" where
  "finish p = (if nreceived p = 0 then 1 else 0, out p @ finish_text p)"

text \<open>What the alarm signal does next, and in how many seconds.\<close>

datatype on_alarm = AlarmCatcher | AlarmFinish

definition catcher_alarm :: "ping \<Rightarrow> on_alarm \<times> int" where
  "catcher_alarm p =
     (if npackets p = 0 \<or> ntransmitted p < npackets p then (AlarmCatcher, ping_interval p)
      else (AlarmFinish,
            if nreceived p \<noteq> 0
            then let waittime = cdiv (2 * tmax p) 1000 in
                 if waittime = 0 then 1 else if waittime > MAXWAIT then MAXWAIT else waittime
            else MAXWAIT))"

definition catcher ::
  "timeval \<Rightarrow> (int \<Rightarrow> int) \<Rightarrow> ping \<Rightarrow> (u8 list \<times> (on_alarm \<times> int) \<times> ping) option" where
  "catcher tv sendto p =
     map_option (\<lambda>(pack, p1). (pack, catcher_alarm p1, p1)) (pinger tv sendto p)"

subsection \<open>The checksum checks itself\<close>

text \<open>Folding a sum keeps it modulo 65535, and gives 0 only for 0.\<close>

definition fold16 :: "nat \<Rightarrow> nat" where
  "fold16 s = (let s1 = s div 2 ^ 16 + s mod 2 ^ 16 in (s1 + s1 div 2 ^ 16) mod 2 ^ 16)"

lemma fold16_facts:
  assumes "s < 2 ^ 31"
  shows "fold16 s mod 65535 = s mod 65535" and "fold16 s = 0 \<longleftrightarrow> s = 0"
proof -
  define h l s1 where "h = s div 65536" and "l = s mod 65536" and "s1 = s div 65536 + s mod 65536"
  have s: "s = 65536 * h + l" and s1: "s1 = h + l" by (simp_all add: h_def l_def s1_def)
  have hl: "h < 32768" "l < 65536" using assms by (auto simp: h_def l_def)
  have f: "fold16 s = (s1 + s1 div 65536) mod 65536"
    by (simp add: fold16_def Let_def s1_def)
  have "s1 < 65536 \<and> fold16 s = s1 \<or> 65536 \<le> s1 \<and> fold16 s = s1 - 65535"
  proof (cases "s1 < 65536")
    case False
    then have "s1 div 65536 = 1" using hl s1 by (intro div_nat_eqI) auto
    then show ?thesis using False f hl s1 by (simp add: le_mod_geq)
  qed (simp add: f)
  moreover have "s mod 65535 = s1 mod 65535"
    using mod_mult_self1 [of s1 h 65535] by (simp add: s s1 algebra_simps)
  moreover have "(s1 - 65535) mod 65535 = s1 mod 65535" if "65536 \<le> s1"
    using that by (simp add: le_mod_geq)
  ultimately show "fold16 s mod 65535 = s mod 65535" and "fold16 s = 0 \<longleftrightarrow> s = 0"
    using s s1 by auto
qed

lemma fold16_less: "fold16 s < 65536"
  by (simp add: fold16_def Let_def)

lemma in_cksum_fold16: "in_cksum buf = of_nat (65535 - fold16 (sum_list (words16 buf)))"
proof -
  have "(of_nat n :: u16) = of_nat (n mod 2 ^ 16)" for n
    unfolding word_of_nat_eq_iff take_bit_eq_mod by simp
  moreover have "NOT (of_nat n) = (of_nat (65535 - n) :: u16)" if "n < 65536" for n
  proof -
    have "(of_nat (65535 - n) :: u16) = of_nat 65535 - of_nat n" using that by (simp add: of_nat_diff)
    moreover have "(of_nat 65535 :: u16) = - 1" by simp
    ultimately show ?thesis by (simp add: not_eq_complement)
  qed
  ultimately show ?thesis
    unfolding in_cksum_def Let_def using fold16_less [of "sum_list (words16 buf)"]
    by (metis (no_types, lifting) fold16_def)
qed

lemma unat_in_cksum: "unat (in_cksum buf) = 65535 - fold16 (sum_list (words16 buf))"
  unfolding in_cksum_fold16 unsigned_of_nat by (simp add: take_bit_nat_eq_self)

text \<open>The sum of a packet that fits the array stays below the sign bit of the accumulator.\<close>

lemma words16_bounds: "w \<in> set (words16 buf) \<Longrightarrow> w \<le> 65535"
proof (induction buf rule: words16.induct)
  case (2 a)
  then show ?case using unat_mod_le [of a] by simp
next
  case (3 a b bs)
  then show ?case using unat_mod_le [of a] unat_mod_le [of b] by auto
qed simp

lemma length_words16: "length (words16 buf) = (length buf + 1) div 2"
  by (induction buf rule: words16.induct) auto

lemma words16_sum_bound: "sum_list (words16 buf) \<le> (length buf + 1) div 2 * 65535"
proof -
  have "sum_list ws \<le> length ws * 65535" if "\<forall>w\<in>set ws. w \<le> 65535" for ws
    using that by (induction ws) auto
  then show ?thesis using words16_bounds length_words16 [of buf] by metis
qed

lemma cksum_inserted:
  assumes "length rest + 4 \<le> MAXPACKET + 8" and "ck = in_cksum (a # b # 0 # 0 # rest)"
    and "unat lo + 256 * unat hi = unat ck"
  shows "in_cksum (a # b # lo # hi # rest) = 0"
proof -
  let ?S = "sum_list (words16 (a # b # 0 # 0 # rest))"
  have S': "sum_list (words16 (a # b # lo # hi # rest)) = ?S + (65535 - fold16 ?S)"
    using assms(2,3) by (simp add: unat_in_cksum)
  have bound: "(length rest + 5) div 2 * 65535 < 2 ^ 31 - 65535"
    using assms(1) by (simp add: MAXPACKET_def)
  have "?S \<le> (length rest + 5) div 2 * 65535"
  proof -
    have "(length rest + 5) div 2 = Suc (length rest) div 2 + 2" by linarith
    then show ?thesis using words16_sum_bound [of "a # b # 0 # 0 # rest"] by simp
  qed
  then have lt: "?S < 2 ^ 31" "?S + (65535 - fold16 ?S) < 2 ^ 31"
    using bound by linarith+
  have le: "fold16 ?S \<le> 65535" using fold16_less [of ?S] by simp
  have "(?S + (65535 - fold16 ?S)) mod 65535 = (fold16 ?S + (65535 - fold16 ?S)) mod 65535"
    using fold16_facts(1) [OF lt(1)] by (intro mod_add_cong) simp_all
  then have "(?S + (65535 - fold16 ?S)) mod 65535 = 0"
    using le by simp
  moreover have "?S + (65535 - fold16 ?S) \<noteq> 0"
    using fold16_facts(2) [OF lt(1)] by auto
  moreover have "n = 65535" if "n mod 65535 = 0" "n < 65536" "n \<noteq> 0" for n :: nat
    using that by (cases "n < 65535") simp_all
  ultimately have "fold16 (?S + (65535 - fold16 ?S)) = 65535"
    using fold16_facts [OF lt(2)] fold16_less by metis
  then show ?thesis
    unfolding in_cksum_fold16 S' by simp
qed

lemma length_put_bytes [simp]:
  "i + length bs \<le> length xs \<Longrightarrow> length (put_bytes i bs xs) = length xs"
  by (simp add: put_bytes_def)

lemma le_bytes_2: "le_bytes 2 v = [of_int v, of_int (v div 256)]"
  by (simp add: le_bytes_def upt_rec numeral_2_eq_2)

lemma le_bytes_2_value:
  fixes w :: u16
  shows "unat (of_int (uint w) :: u8) + 256 * unat (of_int (uint w div 256) :: u8) = unat w"
proof -
  have "uint w < 65536" "0 \<le> uint w" using uint_lt2p [of w] by auto
  moreover from this have "uint w div 256 < 256" "0 \<le> uint w div 256" by linarith+
  ultimately have "uint w mod 256 + 256 * (uint w div 256 mod 256) = uint w"
    by simp
  moreover have b: "unat (of_int v :: u8) = nat (v mod 256)" for v
    unfolding unsigned_of_int by (simp add: take_bit_eq_mod nat_mod_distrib)
  moreover have "nat (uint w mod 256) + 256 * nat (uint w div 256 mod 256) =
      nat (uint w mod 256 + 256 * (uint w div 256 mod 256))"
    by (simp add: nat_add_distrib nat_mult_distrib)
  ultimately show ?thesis
    by (simp only: b unat_eq_nat_uint)
qed

lemma put_bytes_mid:
  "length xs = i \<Longrightarrow> length ys = length bs \<Longrightarrow> put_bytes i bs (xs @ ys @ zs) = xs @ bs @ zs"
  by (simp add: put_bytes_def)

text \<open>The packet before the checksum is put in starts with type, code and a zero checksum.\<close>

lemma pinger_packet_shape:
  assumes "16 \<le> length (outpack p)"
  shows "\<exists>rest. let ck = in_cksum (take (nat (datalen p + 8)) (ICMP_ECHO # 0 # 0 # 0 # rest)) in
    pinger_packet tv p = ICMP_ECHO # 0 # of_int (uint ck) # of_int (uint ck div 256) # rest \<and>
    length rest + 4 = length (outpack p)"
proof -
  define A B C where "A = take 8 (outpack p)" and "B = take 8 (drop 8 (outpack p))" and "C = drop 16 (outpack p)"
  have l: "length A = 8" "length B = 8"
    using assms by (simp_all add: A_def B_def)
  have "B @ C = drop 8 (outpack p)"
    using append_take_drop_id [of 8 "drop 8 (outpack p)"] by (simp add: B_def C_def)
  then have o: "outpack p = A @ B @ C"
    using append_take_drop_id [of 8 "outpack p"] by (simp add: A_def)
  let ?h = "[ICMP_ECHO, 0, 0, 0] @ le_bytes 2 (uint (ident p)) @ le_bytes 2 (ntransmitted p mod 2 ^ 16)"
  let ?t = "le_bytes 4 (sec tv) @ le_bytes 4 (usec tv)"
  define rest where "rest = le_bytes 2 (uint (ident p)) @ le_bytes 2 (ntransmitted p mod 2 ^ 16) @
    (if timing p then ?t else B) @ C"
  have h: "put_bytes 0 ?h (outpack p) = ?h @ B @ C"
    using put_bytes_mid [of "[]" 0 A ?h "B @ C"] l by (simp add: o)
  have "put_bytes 8 ?t (?h @ B @ C) = ?h @ ?t @ C"
    using l by (intro put_bytes_mid) simp_all
  then have "(if timing p then put_bytes 8 ?t (?h @ B @ C) else ?h @ B @ C) = [ICMP_ECHO, 0] @ [0, 0] @ rest"
    by (auto simp: rest_def)
  moreover have "put_bytes 2 (le_bytes 2 v) ([ICMP_ECHO, 0] @ [0, 0] @ rest) = [ICMP_ECHO, 0] @ le_bytes 2 v @ rest" for v
    by (intro put_bytes_mid) simp_all
  ultimately have "pinger_packet tv p = [ICMP_ECHO, 0] @
      le_bytes 2 (uint (in_cksum (take (nat (datalen p + 8)) ([ICMP_ECHO, 0] @ [0, 0] @ rest)))) @ rest"
    unfolding pinger_packet_def Let_def h by (simp only:)
  moreover have "length rest + 4 = length (outpack p)" using l by (simp add: o rest_def)
  ultimately show ?thesis
    by (intro exI [of _ rest]) (simp add: Let_def le_bytes_2)
qed

lemma pinger_cksum:
  assumes "pinger tv sendto p = Some (pack, p')" and "length (outpack p) = MAXPACKET" and "0 \<le> datalen p"
  shows "in_cksum pack = 0 \<and> int (length pack) = datalen p + 8"
proof -
  let ?cc = "nat (datalen p + 8)"
  have "16 \<le> length (outpack p)" using assms(2) by (simp add: MAXPACKET_def)
  then obtain rest where r: "let ck = in_cksum (take ?cc (ICMP_ECHO # 0 # 0 # 0 # rest)) in
      pinger_packet tv p = ICMP_ECHO # 0 # of_int (uint ck) # of_int (uint ck div 256) # rest"
      and l: "length rest + 4 = MAXPACKET"
    using pinger_packet_shape [of p tv] assms(2) by (auto simp: Let_def)
  let ?rest = "take (?cc - 4) rest" let ?ck = "in_cksum (ICMP_ECHO # 0 # 0 # 0 # ?rest)"
  have cc: "?cc = Suc (Suc (Suc (Suc (?cc - 4))))" using assms(3) by linarith
  have t: "take ?cc (a # b # c # d # rest) = a # b # c # d # ?rest" for a b c d
    by (subst cc) simp
  have pk: "pinger_packet tv p = ICMP_ECHO # 0 # of_int (uint ?ck) # of_int (uint ?ck div 256) # rest"
    using r t by (simp add: Let_def)
  have p1: "int (length (pinger_packet tv p)) \<ge> datalen p + 8" "pack = take ?cc (pinger_packet tv p)"
    using assms(1) by (auto simp: pinger_def Let_def split: if_splits)
  have "in_cksum (ICMP_ECHO # 0 # of_int (uint ?ck) # of_int (uint ?ck div 256) # ?rest) = 0"
    using l by (intro cksum_inserted [OF _ refl le_bytes_2_value]) simp
  then show ?thesis using p1 pk t assms(3) by simp
qed

subsection \<open>The table as a set of sequence classes\<close>

text \<open>What the counting of duplicates relies on: a table of \<open>N\<close> bits.\<close>

locale dup_table =
  fixes tst :: "nat \<Rightarrow> 't \<Rightarrow> bool" and set1 :: "nat \<Rightarrow> 't \<Rightarrow> 't" and clr :: "nat \<Rightarrow> 't \<Rightarrow> 't"
    and ok :: "'t \<Rightarrow> bool" and N :: nat
  assumes ok_set1: "ok t \<Longrightarrow> ok (set1 b t)" and ok_clr: "ok t \<Longrightarrow> ok (clr b t)"
    and tst_set1: "ok t \<Longrightarrow> b < N \<Longrightarrow> c < N \<Longrightarrow> tst c (set1 b t) \<longleftrightarrow> c = b \<or> tst c t"
    and tst_clr: "ok t \<Longrightarrow> b < N \<Longrightarrow> c < N \<Longrightarrow> tst c (clr b t) \<longleftrightarrow> c \<noteq> b \<and> tst c t"
begin

text \<open>The classes that were sent and have no reply yet.\<close>

definition pending :: "nat set \<Rightarrow> 't \<Rightarrow> nat set" where
  "pending S t = {c \<in> S. \<not> tst c t}"

lemma card_pending_clr:
  assumes "ok t" and "b < N" and "S \<subseteq> {..<N}"
  shows "card (pending (insert b S) (clr b t)) \<le> card (pending S t) + 1"
proof -
  have "pending (insert b S) (clr b t) \<subseteq> insert b (pending S t)"
    using assms by (auto simp: pending_def tst_clr subset_iff)
  moreover have "finite (pending S t)"
    using assms(3) by (auto simp: pending_def intro: finite_subset)
  ultimately show ?thesis
    using card_mono [of "insert b (pending S t)" "pending (insert b S) (clr b t)"]
      card_insert_if [of "pending S t" b] by (auto split: if_splits)
qed

lemma card_pending_set1:
  assumes "ok t" and "b \<in> S" and "\<not> tst b t" and "S \<subseteq> {..<N}"
  shows "card (pending S (set1 b t)) + 1 = card (pending S t)"
proof -
  have "pending S (set1 b t) = pending S t - {b}" "b \<in> pending S t"
    using assms by (auto simp: pending_def tst_set1 subset_iff)
  moreover have "finite (pending S t)"
    using assms(4) by (auto simp: pending_def intro: finite_subset)
  ultimately show ?thesis using card_Suc_Diff1 by fastforce
qed

end

lemma bit_word8: "(w :: u8) AND push_bit k 1 \<noteq> 0 \<longleftrightarrow> bit w k"
  by (simp add: bit_iff_and_push_bit_not_eq_0)

lemma bit_two_power8: "j < 8 \<Longrightarrow> bit (2 ^ k :: u8) j \<longleftrightarrow> j = k"
  by (auto simp: bit_exp_iff)

lemma tst_index:
  assumes "b < 1024" and "length t = 128"
  shows "tbl_TST b t \<longleftrightarrow> bit (t ! (b div 8)) (b mod 8)" and "b div 8 < length t"
  using assms unfolding tbl_TST_def bit_word8 by auto

lemma byte_bit_eq: "b div 8 = c div 8 \<Longrightarrow> b mod 8 = c mod 8 \<Longrightarrow> b = (c :: nat)"
  by (metis mult_div_mod_eq)

interpretation rt: dup_table tbl_TST tbl_SET tbl_CLR "\<lambda>t. length t = 128" MAX_DUP_CHK
proof
  fix t :: "u8 list" and b c
  assume t: "length t = 128" and "b < MAX_DUP_CHK" and "c < MAX_DUP_CHK"
  then have bc: "b < 1024" "c < 1024" by (simp_all add: MAX_DUP_CHK_def)
  have l: "b div 8 < length t" "length (tbl_SET b t) = 128" "length (tbl_CLR b t) = 128"
    using t bc by (simp_all add: tbl_SET_def tbl_CLR_def)
  have m: "c mod 8 < 8" by simp
  show "tbl_TST c (tbl_SET b t) \<longleftrightarrow> c = b \<or> tbl_TST c t"
    unfolding tst_index(1) [OF bc(2) l(2)] tst_index(1) [OF bc(2) t]
    using l(1) m byte_bit_eq [of c b] unfolding tbl_SET_def
    by (cases "c div 8 = b div 8") (auto simp: bit_or_iff bit_two_power8)
  show "tbl_TST c (tbl_CLR b t) \<longleftrightarrow> c \<noteq> b \<and> tbl_TST c t"
    unfolding tst_index(1) [OF bc(2) l(3)] tst_index(1) [OF bc(2) t]
    using l(1) m byte_bit_eq [of c b] unfolding tbl_CLR_def
    by (cases "c div 8 = b div 8") (auto simp: bit_and_iff bit_not_iff bit_two_power8)
qed (simp_all add: tbl_SET_def tbl_CLR_def)

subsection \<open>Counting replies\<close>

text \<open>What sending and receiving do to the counters and the table.\<close>

lemma pinger_counters:
  assumes "pinger tv sendto p = Some (pack, p')"
  shows "ntransmitted p' = ntransmitted p + 1" "nreceived p' = nreceived p" "nrepeats p' = nrepeats p"
    "rcvd_tbl p' = tbl_CLR (nat (ntransmitted p mod 2 ^ 16) mod MAX_DUP_CHK) (rcvd_tbl p)"
  using assms by (auto simp: pinger_def pinger_messages_def say_def Let_def split: if_splits)

lemma pr_time_rest:
  assumes "pr_time tv t p = (d, p')"
  shows "nreceived p' = nreceived p" "nrepeats p' = nrepeats p" "ntransmitted p' = ntransmitted p"
    "rcvd_tbl p' = rcvd_tbl p" "ident p' = ident p"
  using assms by (auto simp: pr_time_def Let_def split: if_splits)

definition reply_class :: "(nat \<Rightarrow> u8) \<Rightarrow> nat \<Rightarrow> nat" where
  "reply_class m hlen = le_u16 m (hlen + 6) mod MAX_DUP_CHK"

lemma pr_reply_counters:
  assumes "pr_reply m hlen cc from tv p = (b, p')" and "le_u16 m (hlen + 4) = unat (ident p)"
  shows "ntransmitted p' = ntransmitted p \<and>
    (if tbl_TST (reply_class m hlen) (rcvd_tbl p)
     then nreceived p' = nreceived p \<and> nrepeats p' = nrepeats p + 1 \<and> rcvd_tbl p' = rcvd_tbl p
     else nreceived p' = nreceived p + 1 \<and> nrepeats p' = nrepeats p \<and>
          rcvd_tbl p' = tbl_SET (reply_class m hlen) (rcvd_tbl p))"
proof -
  obtain d p2 where t: "pr_time tv \<lparr>sec = le_s32 m (hlen + 8), usec = le_s32 m (hlen + 12)\<rparr>
      (p\<lparr>nreceived := nreceived p + 1\<rparr>) = (d, p2)" by force
  obtain dup p3 where c: "count_reply (le_u16 m (hlen + 6)) p2 = (dup, p3)" by force
  have "ntransmitted p' = ntransmitted p3" "nreceived p' = nreceived p3" "nrepeats p' = nrepeats p3"
    "rcvd_tbl p' = rcvd_tbl p3"
    using assms t c by (auto simp: pr_reply_def say_def Let_def split: if_splits)
  then show ?thesis
    using c pr_time_rest [OF t] by (auto simp: count_reply_def reply_class_def Let_def split: if_splits)
qed

lemma pr_reply_foreign:
  "le_u16 m (hlen + 4) \<noteq> unat (ident p) \<Longrightarrow> pr_reply m hlen cc from tv p = (False, p)"
  by (simp add: pr_reply_def)

text \<open>An exchange in which every reply answers a sequence class that was sent before.\<close>

inductive exchange :: "nat set \<Rightarrow> ping \<Rightarrow> bool" where
  start: "nreceived p = 0 \<Longrightarrow> nrepeats p = 0 \<Longrightarrow> ntransmitted p = 0 \<Longrightarrow>
    rcvd_tbl p = replicate (MAX_DUP_CHK div 8) 0 \<Longrightarrow> exchange {} p"
| send: "exchange S p \<Longrightarrow> pinger tv sendto p = Some (pack, p') \<Longrightarrow>
    exchange (insert (nat (ntransmitted p mod 2 ^ 16) mod MAX_DUP_CHK) S) p'"
| reply: "exchange S p \<Longrightarrow> pr_reply m hlen cc from tv p = (b, p') \<Longrightarrow> reply_class m hlen \<in> S \<Longrightarrow>
    exchange S p'"

lemma exchange_invariant:
  assumes "exchange S p"
  shows "length (rcvd_tbl p) = 128 \<and> S \<subseteq> {..<MAX_DUP_CHK} \<and> 0 \<le> nreceived p \<and> 0 \<le> nrepeats p \<and>
    nreceived p + int (card (rt.pending S (rcvd_tbl p))) \<le> ntransmitted p"
  using assms
proof induction
  case (start p)
  then show ?case by (simp add: MAX_DUP_CHK_def rt.pending_def)
next
  case (send S p tv sendto pack p')
  let ?c = "nat (ntransmitted p mod 2 ^ 16) mod MAX_DUP_CHK"
  have "?c < MAX_DUP_CHK" by (simp add: MAX_DUP_CHK_def)
  moreover from this have "card (rt.pending (insert ?c S) (tbl_CLR ?c (rcvd_tbl p))) \<le> card (rt.pending S (rcvd_tbl p)) + 1"
    using rt.card_pending_clr send.IH by blast
  ultimately show ?case
    using send.IH pinger_counters [OF send.hyps(2)] by (simp add: tbl_CLR_def)
next
  case (reply S p m hlen cc "from" tv b p')
  let ?c = "reply_class m hlen"
  show ?case
  proof (cases "le_u16 m (hlen + 4) = unat (ident p)")
    case True
    note c = pr_reply_counters [OF reply.hyps(2) True]
    show ?thesis
    proof (cases "tbl_TST ?c (rcvd_tbl p)")
      case False
      then have "card (rt.pending S (tbl_SET ?c (rcvd_tbl p))) + 1 = card (rt.pending S (rcvd_tbl p))"
        using reply rt.card_pending_set1 by blast
      then show ?thesis using c False reply.IH by (simp add: tbl_SET_def)
    qed (use c reply.IH in simp)
  next
    case False
    then show ?thesis using reply pr_reply_foreign by auto
  qed
qed

subsection \<open>Properties\<close>


lemma pinger_fits:
  assumes "datalen p + 8 \<le> int (length (outpack p))" and "16 \<le> length (outpack p)"
  shows "\<exists>pack p'. pinger tv sendto p = Some (pack, p')"
  using assms pinger_packet_shape [OF assms(2), of tv] by (auto simp: pinger_def Let_def)

lemma ping0_fits:
  "datalen ping0 + 8 \<le> int (length (outpack ping0))" "16 \<le> length (outpack ping0)"
  "length (outpack ping0) = MAXPACKET" "0 \<le> datalen ping0"
  by (simp_all add: ping0_def MAXPACKET_def)




text \<open>Each own reply is counted exactly once: as received if no reply of its sequence class is
  marked, and then it is marked; as a duplicate if one is; and sending a request of the class
  takes the mark away.\<close>

lemma reply_counted_once:
  assumes "pr_reply m hlen cc from tv p = (b, p')" and "le_u16 m (hlen + 4) = unat (ident p)"
    and "length (rcvd_tbl p) = 128"
  shows "nreceived p' + nrepeats p' = nreceived p + nrepeats p + 1 \<and>
    (nreceived p' = nreceived p + 1 \<longleftrightarrow> \<not> tbl_TST (reply_class m hlen) (rcvd_tbl p)) \<and>
    tbl_TST (reply_class m hlen) (rcvd_tbl p')"
proof -
  have "reply_class m hlen < MAX_DUP_CHK" by (simp add: reply_class_def MAX_DUP_CHK_def)
  then show ?thesis
    using pr_reply_counters [OF assms(1,2)] rt.tst_set1 [OF assms(3)] by (auto split: if_splits)
qed

text \<open>The subtraction of times is exact, and normalised if its arguments are.\<close>

lemma tvsub_exact:
  "let d = tvsub a b in
     sec d * 1000000 + usec d = (sec a * 1000000 + usec a) - (sec b * 1000000 + usec b) \<and>
     (0 \<le> usec a \<and> usec a < 1000000 \<and> 0 \<le> usec b \<and> usec b < 1000000 \<longrightarrow> 0 \<le> usec d \<and> usec d < 1000000)"
  by (simp add: tvsub_def Let_def)

end
