(* ===== verification/PingPrint.thy ===== *)
theory PingPrint
  imports PingCore
begin

text \<open>
  The packets \<open>ping\<close> prints but does not count: error messages with the header they return,
  and the options of the IP header, from \<^verbatim>\<open>src/ethernet_test/ping/ping.c\<close>. A packet is a
  function from offsets to bytes, whatever lies behind the bytes received; \<open>gethostbyaddr\<close> is
  an argument. The copy of a recorded route into its array of 40 bytes is None if it does
  not fit.
\<close>

definition hex2 :: "nat \<Rightarrow> cstr" where "hex2 n = fmt_0x 2 n"
definition hex4 :: "nat \<Rightarrow> cstr" where "hex4 n = fmt_0x 4 n"


subsection \<open>Addresses\<close>

definition pr_addr :: "(u32 \<Rightarrow> cstr option) \<Rightarrow> u32 \<Rightarrow> ping \<Rightarrow> cstr" where
  "pr_addr byaddr l p =
     take 255 (if flag F_NUMERIC p then inet_ntoa l
               else case byaddr l of
                      None \<Rightarrow> inet_ntoa l
                    | Some h_name \<Rightarrow> h_name @ '' ('' @ inet_ntoa l @ '')'')"

subsection \<open>A returned IP header\<close>

definition pr_iph :: "(nat \<Rightarrow> u8) \<Rightarrow> nat \<Rightarrow> cstr" where
  "pr_iph m ip =
     (let hl = unat (m ip) mod 16; v = unat (m ip) div 16; hlen = hl * 4;
          off = le_u16 m (ip + 6)
      in ''Vr HL TOS  Len   ID Flg  off TTL Pro  cks      Src      Dst Data'' @ nl @
         '' '' @ fmt_base 16 v @ ''  '' @ fmt_base 16 hl @ ''  '' @ hex2 (unat (m (ip + 1))) @ '' '' @
         hex4 (le_u16 m (ip + 2)) @ '' '' @ hex4 (le_u16 m (ip + 4)) @
         ''   '' @ fmt_base 16 (off div 2 ^ 13) @ '' '' @ hex4 (off mod 2 ^ 13) @
         ''  '' @ hex2 (unat (m (ip + 8))) @ ''  '' @ hex2 (unat (m (ip + 9))) @ '' '' @ hex4 (le_u16 m (ip + 10)) @
         '' '' @ inet_ntoa (le_u32 m (ip + 12)) @ '' '' @
         '' '' @ inet_ntoa (le_u32 m (ip + 16)) @ '' '' @
         concat (map (\<lambda>i. hex2 (unat (m (ip + i)))) [20..<hlen]) @ nl)"

definition pr_retip :: "(nat \<Rightarrow> u8) \<Rightarrow> nat \<Rightarrow> cstr" where
  "pr_retip m ip =
     (let hlen = (unat (m ip) mod 16) * 4; cp = ip + hlen;
          port = (\<lambda>k. unat (m (cp + k)) * 256 + unat (m (cp + k + 1)));
          ports = ''from port '' @ fmt_u (port 0) @ '', to port '' @ fmt_u (port 2) @ '' (decimal)'' @ nl
      in pr_iph m ip @
         (if m (ip + 9) = 6 then ''TCP: '' @ ports
          else if m (ip + 9) = 17 then ''UDP: '' @ ports
          else []))"

subsection \<open>ICMP messages\<close>

text \<open>The messages for the codes of ``destination unreachable'', with the codes the system's
  header defines.\<close>

definition unreach_text :: "nat \<Rightarrow> cstr" where
  "unreach_text code =
     (if code = 0 then ''Destination Net Unreachable''
      else if code = 1 then ''Destination Host Unreachable''
      else if code = 2 then ''Destination Protocol Unreachable''
      else if code = 3 then ''Destination Port Unreachable''
      else if code = 4 then ''frag needed and DF set''
      else if code = 5 then ''Source Route Failed''
      else if code = 6 then ''Network Unknown''
      else if code = 7 then ''Host Unknown''
      else if code = 8 then ''Host Isolated''
      else if code = 11 then ''Destination Network Unreachable At This TOS''
      else if code = 12 then ''Destination Host Unreachable At This TOS''
      else if code = 13 then ''Packet Filtered''
      else if code = 14 then ''Precedence Violation''
      else if code = 15 then ''Precedence Cutoff''
      else ''Dest Unreachable, Unknown Code: '' @ fmt_u code) @ nl"

definition redirect_text :: "nat \<Rightarrow> cstr" where
  "redirect_text code =
     (if code = 0 then ''Redirect Network''
      else if code = 1 then ''Redirect Host''
      else if code = 2 then ''Redirect Type of Service and Network''
      else if code = 3 then ''Redirect Type of Service and Host''
      else ''Redirect, Bad Code: '' @ fmt_u code)"

definition exceeded_text :: "nat \<Rightarrow> cstr" where
  "exceeded_text code =
     (if code = 0 then ''Time to live exceeded''
      else if code = 1 then ''Frag reassembly time exceeded''
      else ''Time exceeded, Bad Code: '' @ fmt_u code) @ nl"

definition pr_icmph :: "(nat \<Rightarrow> u8) \<Rightarrow> nat \<Rightarrow> cstr" where
  "pr_icmph m icp =
     (let t = unat (m icp); code = unat (m (icp + 1)); gw = inet_ntoa (le_u32 m (icp + 4)) in
      if t = 0 then ''Echo Reply'' @ nl
      else if t = 3 then unreach_text code @ pr_retip m (icp + 8)
      else if t = 4 then ''Source Quench'' @ nl @ pr_retip m (icp + 8)
      else if t = 5 then redirect_text code @ ''(New addr: '' @ gw @ '')'' @ nl @ pr_retip m (icp + 8)
      else if t = 8 then ''Echo Request'' @ nl
      else if t = 11 then exceeded_text code @ pr_retip m (icp + 8)
      else if t = 12 then ''Parameter problem: IP address = '' @ gw @ nl @ pr_retip m (icp + 8)
      else if t = 13 then ''Timestamp'' @ nl
      else if t = 14 then ''Timestamp Reply'' @ nl
      else if t = 15 then ''Information Request'' @ nl
      else if t = 16 then ''Information Reply'' @ nl
      else if t = 17 then ''Address Mask Request'' @ nl
      else if t = 18 then ''Address Mask Reply'' @ nl
      else ''Bad ICMP type: '' @ fmt_u t @ nl)"

subsection \<open>Options of the IP header\<close>

definition IPOPT_MINOFF :: int where "IPOPT_MINOFF = 4"
definition MAX_IPOPTLEN :: int where "MAX_IPOPTLEN = 40"

text \<open>The addresses of a route, from the byte after \<open>cp\<close> on, while \<open>j\<close> is above \<open>limit\<close>: the text,
  the offset and the rest of the header length after them. \<open>ntohl\<close> of the value read byte by
  byte is the address as it lies in memory.\<close>

function route_text ::
  "(u32 \<Rightarrow> cstr option) \<Rightarrow> (nat \<Rightarrow> u8) \<Rightarrow> ping \<Rightarrow> int \<Rightarrow> nat \<Rightarrow> int \<Rightarrow> int \<Rightarrow> cstr \<times> nat \<times> int" where
  "route_text byaddr m p limit cp hlen j =
     (let l = le_u32 m (cp + 1);
          here = (if l = 0 then tab @ ''0.0.0.0'' else tab @ pr_addr byaddr l p)
      in if j - 4 \<le> limit then (here, cp + 4, hlen - 4)
         else let (t, cp', hlen') = route_text byaddr m p limit (cp + 4) (hlen - 4) (j - 4)
              in (here @ nl @ t, cp', hlen'))"
  by pat_completeness auto
termination
  by (relation "measure (\<lambda>(_, _, _, limit, _, _, j). nat (j - limit))") auto

text \<open>
  One option at \<open>cp\<close>: the text, the offset and header length the loop goes on with (before its
  \<open>--hlen, ++cp\<close>), and the recorded route kept for the next packet; \<open>len\<close> and \<open>ptr\<close> are the
  length and pointer bytes of a recorded route. The comparison with the kept route is made
  only for a first option, at offset 22.
\<close>

definition rr_option ::
  "(u32 \<Rightarrow> cstr option) \<Rightarrow> (nat \<Rightarrow> u8) \<Rightarrow> ping \<Rightarrow> nat \<Rightarrow> int \<Rightarrow> (cstr \<times> nat \<times> int \<times> u8 list) option" where
  "rr_option byaddr m p cp hlen =
     (let len = uint (m (cp + 1)); ptr = uint (m (cp + 2));
          i = min ptr len - IPOPT_MINOFF; cp2 = cp + 2
      in if i \<le> 0 then Some ([], cp2, hlen - 2, old_rr p)
         else
           let route = map (\<lambda>k. m (cp2 + k)) [0..<nat i] in
           if i = int (length (old_rr p)) \<and> cp2 = 22 \<and> route = old_rr p \<and> \<not> flag F_FLOOD p
           then let skip = (i + 3) div 4 * 4 in
                Some (tab @ ''(same route)'', cp2 + nat skip, hlen - 2 - skip, old_rr p)
           else if i > MAX_IPOPTLEN then None
           else let (t, cp', hlen') = route_text byaddr m p 0 cp2 (hlen - 2) i
                in Some (nl @ ''RR: '' @ t, cp', hlen', route))"

definition ip_option ::
  "(u32 \<Rightarrow> cstr option) \<Rightarrow> (nat \<Rightarrow> u8) \<Rightarrow> ping \<Rightarrow> nat \<Rightarrow> int \<Rightarrow> (cstr \<times> nat \<times> int \<times> u8 list) option" where
  "ip_option byaddr m p cp hlen =
     (if m cp = 0 then Some ([], cp, 0, old_rr p)
      else if m cp = 131 then
        (let j = uint (m (cp + 1)) in
         if j > IPOPT_MINOFF
         then let (t, cp', hlen') = route_text byaddr m p IPOPT_MINOFF (cp + 2) (hlen - 2) j
              in Some (nl @ ''LSRR: '' @ t, cp', hlen', old_rr p)
         else Some (nl @ ''LSRR: '', cp + 2, hlen - 2, old_rr p))
      else if m cp = 7 then rr_option byaddr m p cp hlen
      else if m cp = 1 then Some (nl @ ''NOP'', cp, hlen, old_rr p)
      else Some (nl @ ''unknown option '' @ fmt_base 16 (unat (m cp)), cp, hlen, old_rr p))"

declare route_text.simps [simp del]

lemma route_text_hlen: "snd (snd (route_text byaddr m p limit cp hlen j)) \<le> hlen - 4"
proof (induction byaddr m p limit cp hlen j rule: route_text.induct)
  case (1 byaddr m p limit cp hlen j)
  show ?case
  proof (cases "j - 4 \<le> limit")
    case False
    from 1 [OF refl refl False] show ?thesis
      using False by (subst route_text.simps) (auto simp: Let_def split: prod.splits)
  qed (subst route_text.simps, simp add: Let_def)
qed

lemma route_text_result: "route_text byaddr m p limit cp hlen j = (t, cp', hlen') \<Longrightarrow> hlen' \<le> hlen - 4"
  using route_text_hlen [of byaddr m p limit cp hlen j] by simp

lemma rr_option_hlen:
  assumes "rr_option byaddr m p cp hlen = Some (t, cp', hlen', rr)"
  shows "hlen' \<le> hlen"
proof -
  let ?i = "min (uint (m (cp + 2))) (uint (m (cp + 1))) - IPOPT_MINOFF"
  consider "?i \<le> 0" | "0 < ?i" "hlen' = hlen - 2 - (?i + 3) div 4 * 4"
    | t' where "0 < ?i" "route_text byaddr m p 0 (cp + 2) (hlen - 2) ?i = (t', cp', hlen')"
    using assms unfolding rr_option_def Let_def by (fastforce split: if_splits prod.splits)
  then show ?thesis
  proof cases
    case 1
    then show ?thesis using assms by (simp add: rr_option_def Let_def)
  next
    case 2
    then show ?thesis by linarith
  next
    case 3
    then show ?thesis using route_text_result by fastforce
  qed
qed

lemma ip_option_hlen:
  assumes "ip_option byaddr m p cp hlen = Some (t, cp', hlen', rr)" and "0 \<le> hlen"
  shows "hlen' \<le> hlen"
  using assms rr_option_hlen [of byaddr m p cp hlen t cp' hlen' rr]
  by (auto simp: ip_option_def Let_def split: if_splits prod.splits dest!: route_text_result)

function ip_options ::
  "(u32 \<Rightarrow> cstr option) \<Rightarrow> (nat \<Rightarrow> u8) \<Rightarrow> nat \<Rightarrow> int \<Rightarrow> ping \<Rightarrow> ping option" where
  "ip_options byaddr m cp hlen p =
     (if hlen > 20 then
        (case ip_option byaddr m p cp hlen of
           None \<Rightarrow> None
         | Some (t, cp', hlen', rr) \<Rightarrow>
             ip_options byaddr m (cp' + 1) (hlen' - 1) (say t (p\<lparr>old_rr := rr\<rparr>)))
      else Some p)"
  by pat_completeness auto
termination
  by (relation "measure (\<lambda>(_, _, _, hlen, _). nat hlen)") (auto dest: ip_option_hlen)

declare ip_options.simps [simp del]

subsection \<open>A received packet\<close>

text \<open>
  \<open>pr_pack\<close> for \<open>cc\<close> bytes received from an address, with the time of day; None if the copy of a
  recorded route overruns its array. Messages to the error stream are left out.
\<close>

definition pr_pack ::
  "(u32 \<Rightarrow> cstr option) \<Rightarrow> (nat \<Rightarrow> u8) \<Rightarrow> int \<Rightarrow> u32 \<Rightarrow> timeval \<Rightarrow> ping \<Rightarrow> ping option" where
  "pr_pack byaddr m cc from tv p =
     (let hlen = unat (m 0) mod 16 * 4 in
      if cc < datalen p + ICMP_MINLEN then Some p
      else
        let cc1 = cc - int hlen;
            (go, p1) =
              (if m hlen = ICMP_ECHOREPLY then pr_reply m hlen cc1 from tv p
               else if \<not> flag F_VERBOSE p then (False, p)
               else (True, say (fmt_d cc1 @ '' bytes from '' @ pr_addr byaddr from p @ '': '' @ pr_icmph m hlen) p))
        in if \<not> go then Some p1
           else map_option (\<lambda>p2. if flag F_FLOOD p2 then p2 else say nl p2)
                  (ip_options byaddr m 20 (int hlen) p1))"

subsection \<open>The copy of a recorded route\<close>

text \<open>A recorded route whose length and pointer bytes both lie beyond the room for options.\<close>

definition long_rr :: "(nat \<Rightarrow> u8) \<Rightarrow> nat \<Rightarrow> bool" where
  "long_rr m k \<longleftrightarrow> m k = 7 \<and> MAX_IPOPTLEN + IPOPT_MINOFF < uint (m (k + 1)) \<and>
     MAX_IPOPTLEN + IPOPT_MINOFF < uint (m (k + 2))"

lemma ip_option_None_iff:
  assumes "length (old_rr p) \<le> 40"
  shows "ip_option byaddr m p cp hlen = None \<longleftrightarrow> long_rr m cp"
proof -
  have "rr_option byaddr m p cp hlen = None \<longleftrightarrow>
      MAX_IPOPTLEN + IPOPT_MINOFF < uint (m (cp + 1)) \<and> MAX_IPOPTLEN + IPOPT_MINOFF < uint (m (cp + 2))"
    using assms by (auto simp: rr_option_def Let_def MAX_IPOPTLEN_def IPOPT_MINOFF_def split: prod.splits)
  then show ?thesis
    by (auto simp: ip_option_def long_rr_def Let_def split: prod.splits)
qed

lemma ip_option_old_rr:
  assumes "ip_option byaddr m p cp hlen = Some (t, cp', hlen', rr)" and "length (old_rr p) \<le> 40"
  shows "length rr \<le> 40"
  using assms
  by (auto simp: ip_option_def rr_option_def Let_def MAX_IPOPTLEN_def split: if_splits prod.splits)

lemma route_text_cp: "cp \<le> fst (snd (route_text byaddr m p limit cp hlen j))"
proof (induction byaddr m p limit cp hlen j rule: route_text.induct)
  case (1 byaddr m p limit cp hlen j)
  show ?case
  proof (cases "j - 4 \<le> limit")
    case False
    from 1 [OF refl refl False] show ?thesis
      using False by (subst route_text.simps) (auto simp: Let_def split: prod.splits)
  qed (subst route_text.simps, simp add: Let_def)
qed

lemma route_text_cp_result: "route_text byaddr m p limit cp hlen j = (t, cp', hlen') \<Longrightarrow> cp \<le> cp'"
  using route_text_cp [of cp byaddr m p limit hlen j] by simp

lemma ip_option_cp:
  assumes "ip_option byaddr m p cp hlen = Some (t, cp', hlen', rr)"
  shows "cp \<le> cp'"
  using assms
  by (auto simp: ip_option_def rr_option_def Let_def split: if_splits prod.splits dest!: route_text_cp_result)

lemma ip_options_None:
  "ip_options byaddr m cp hlen p = None \<Longrightarrow> length (old_rr p) \<le> 40 \<Longrightarrow> \<exists>k\<ge>cp. long_rr m k"
proof (induction byaddr m cp hlen p rule: ip_options.induct)
  case (1 byaddr m cp hlen p)
  note step = "1.prems"(1) [unfolded ip_options.simps [of byaddr m cp hlen p]]
  then have hlen: "20 < hlen" by (simp split: if_splits)
  show ?case
  proof (cases "ip_option byaddr m p cp hlen")
    case None
    then show ?thesis using "1.prems"(2) by (auto simp: ip_option_None_iff)
  next
    case (Some r)
    then obtain t cp' hlen' rr where o: "ip_option byaddr m p cp hlen = Some (t, cp', hlen', rr)"
      by (cases r) auto
    have "\<exists>k\<ge>cp' + 1. long_rr m k"
      using "1.IH" [OF hlen o refl refl refl] step hlen o ip_option_old_rr [OF o "1.prems"(2)]
      by (simp add: say_def)
    then show ?thesis using ip_option_cp [OF o] by (meson add_leE le_trans)
  qed
qed

lemma ip_options_old_rr:
  "ip_options byaddr m cp hlen p = Some p' \<Longrightarrow> length (old_rr p) \<le> 40 \<Longrightarrow> length (old_rr p') \<le> 40"
proof (induction byaddr m cp hlen p rule: ip_options.induct)
  case (1 byaddr m cp hlen p)
  note step = "1.prems"(1) [unfolded ip_options.simps [of byaddr m cp hlen p]]
  show ?case
  proof (cases "20 < hlen")
    case True
    then obtain t cp' hlen' rr where o: "ip_option byaddr m p cp hlen = Some (t, cp', hlen', rr)"
      and rest: "ip_options byaddr m (cp' + 1) (hlen' - 1) (say t (p\<lparr>old_rr := rr\<rparr>)) = Some p'"
      using step by (auto split: option.splits)
    from "1.IH" [OF True o refl refl refl rest] ip_option_old_rr [OF o "1.prems"(2)]
    show ?thesis by (simp add: say_def)
  qed (use step "1.prems"(2) in simp)
qed

text \<open>C13: Reading the options of a header never leaves more than the 40 bytes there is room for in
  the kept route; it overruns that room only on a recorded route that claims more than the
  header can hold, and always does if that is the first option.\<close>

theorem record_route_overrun:
  assumes "length (old_rr p) \<le> 40"
  shows "(ip_options byaddr m cp hlen p = None \<longrightarrow> (\<exists>k\<ge>cp. long_rr m k)) \<and>
    (20 < hlen \<and> long_rr m cp \<longrightarrow> ip_options byaddr m cp hlen p = None) \<and>
    (\<forall>p'. ip_options byaddr m cp hlen p = Some p' \<longrightarrow> length (old_rr p') \<le> 40)"
proof -
  have "ip_options byaddr m cp hlen p = None" if "20 < hlen" "long_rr m cp"
    using that ip_option_None_iff [OF assms, of byaddr m cp hlen] by (subst ip_options.simps) simp
  then show ?thesis using ip_options_None [OF _ assms] ip_options_old_rr [OF _ assms] by blast
qed

theorem record_route_overrun_witness:
  "ip_options (\<lambda>_. None) (\<lambda>k. if k = 20 then 7 else 48) 20 60 ping0 = None"
  using record_route_overrun [of ping0 "\<lambda>_. None" "\<lambda>k. if k = 20 then 7 else 48" 20 60]
  by (simp add: ping0_def long_rr_def MAX_IPOPTLEN_def IPOPT_MINOFF_def)

end
