(* ===== verification/Ping.thy ===== *)
theory Ping
  imports PingPrint
begin

text \<open>
  The command line and the loop of \<^verbatim>\<open>src/ethernet_test/ping/ping.c\<close>: the options with their
  checks, the fill pattern, the set-up of the socket, and the reaction to alarms, packets and
  interrupts. What the system answers is an argument; a write outside the packet array ends
  the program with \<open>Overrun\<close>.
\<close>

subsection \<open>Writing to the packet array\<close>

fun store_all :: "(nat \<times> u8) list \<Rightarrow> u8 list \<Rightarrow> u8 list option" where
  "store_all [] xs = Some xs"
| "store_all ((i, v) # ws) xs = (if i < length xs then store_all ws (xs[i := v]) else None)"

text \<open>The bytes of a pattern of hexadecimal digits, at most sixteen.\<close>

fun hex_pairs :: "cstr \<Rightarrow> u8 list" where
  "hex_pairs [] = []"
| "hex_pairs [a] = [of_nat (digit_val a)]"
| "hex_pairs (a # b # cs) = of_nat (digit_val a * 16 + digit_val b) # hex_pairs cs"

definition fill_writes :: "u8 list \<Rightarrow> (nat \<times> u8) list" where
  "fill_writes pat =
     (let ii = length pat in
      if ii > 0
      then concat (map (\<lambda>k. let kk = k * ii in map (\<lambda>jj. (16 + (jj + kk), pat ! jj)) [0..<ii])
                       [0..<(MAXPACKET - (8 + ii)) div ii + 1])
      else [])"

datatype ping_error =
    UnknownProto | NoSocket | BadCount | NotPermitted | BadPingInterval | BadPreload | BadPattern
  | TooLarge | IllegalSize | BadTtl | BadIfAddr | PingUsage | UnknownHost | FloodInterval | NoMemory
  | RecordRouteFailed | McLoopFailed | McTtlFailed | McIfFailed | Overrun

fun error_status :: "ping_error \<Rightarrow> int" where
  "error_status McLoopFailed = 92"
| "error_status McTtlFailed = 93"
| "error_status McIfFailed = 94"
| "error_status _ = 2"

definition fill :: "cstr \<Rightarrow> ping \<Rightarrow> ping_error + ping" where
  "fill patp p =
     (if \<not> list_all isxdigit patp then Inl BadPattern
      else let pat = take 16 (hex_pairs patp) in
        case store_all (fill_writes pat) (outpack p) of
          None \<Rightarrow> Inl Overrun
        | Some o' \<Rightarrow>
            (let p1 = p\<lparr>outpack := o'\<rparr> in
             Inr (if flag F_QUIET p1 then p1
                  else say (''PATTERN: 0x'' @ concat (map (\<lambda>b. hex2 (unat b)) (take (length pat) (drop 16 o'))) @ nl) p1)))"

subsection \<open>Options\<close>

abbreviation MULTICAST_NOLOOP :: u32 where "MULTICAST_NOLOOP \<equiv> 0x001"
abbreviation MULTICAST_TTL :: u32 where "MULTICAST_TTL \<equiv> 0x002"
abbreviation MULTICAST_IF :: u32 where "MULTICAST_IF \<equiv> 0x004"

record ping_opts =
  po_ping :: ping
  po_preload :: int
  moptions :: u32
  po_ttl :: u8
  po_ifaddr :: u32

text \<open>\<open>%u\<close> of \<open>sscanf\<close>: the value and the rest, None if there is no number.\<close>

definition scan_u :: "cstr \<Rightarrow> (u32 \<times> cstr) option" where
  "scan_u s =
     (case scan_number 10 s of
        None \<Rightarrow> None
      | Some _ \<Rightarrow> (let (v, r, _) = (strtou 10 s :: u32 \<times> cstr \<times> bool) in Some (v, r)))"

text \<open>\<open>%u.%u.%u.%u%c\<close> with exactly four conversions.\<close>

fun scan_quad :: "nat \<Rightarrow> cstr \<Rightarrow> u32 list option" where
  "scan_quad 0 s = (if s = [] then Some [] else None)"
| "scan_quad (Suc n) s =
     (case scan_u s of
        None \<Rightarrow> None
      | Some (v, r) \<Rightarrow>
          if n = 0 then map_option ((#) v) (scan_quad 0 r)
          else if r \<noteq> [] \<and> hd r = CHR ''.'' then map_option ((#) v) (scan_quad n (tl r))
          else None)"

definition htonl :: "u32 \<Rightarrow> u32" where
  "htonl a = push_bit 24 (a AND 255) OR push_bit 16 (drop_bit 8 a AND 255) OR
             push_bit 8 (drop_bit 16 a AND 255) OR (drop_bit 24 a AND 255)"

definition or_flag :: "u32 \<Rightarrow> ping_opts \<Rightarrow> ping_opts" where
  "or_flag f o' = o'\<lparr>po_ping := (po_ping o')\<lparr>options := options (po_ping o') OR f\<rparr>\<rparr>"

definition or_mflag :: "u32 \<Rightarrow> ping_opts \<Rightarrow> ping_opts" where
  "or_mflag f o' = o'\<lparr>moptions := moptions o' OR f\<rparr>"

definition ping_option :: "bool \<Rightarrow> optev \<Rightarrow> ping_opts \<Rightarrow> ping_error + ping_opts" where
  "ping_option am_i_root e o' =
     (let (code, optarg) = e; p = po_ping o' in
      if code = Opt CHR ''c'' then
        (let n = atoi optarg in
         if n \<le> 0 then Inl BadCount else Inr (o'\<lparr>po_ping := p\<lparr>npackets := n\<rparr>\<rparr>))
      else if code = Opt CHR ''d'' then Inr (or_flag F_SO_DEBUG o')
      else if code = Opt CHR ''M'' then Inr (or_flag F_SO_DF o')
      else if code = Opt CHR ''f'' then
        (if \<not> am_i_root then Inl NotPermitted else Inr (or_flag F_FLOOD o'))
      else if code = Opt CHR ''i'' then
        (let n = atoi optarg in
         if n \<le> 0 then Inl BadPingInterval
         else Inr (or_flag F_INTERVAL (o'\<lparr>po_ping := p\<lparr>ping_interval := n\<rparr>\<rparr>)))
      else if code = Opt CHR ''l'' then
        (if \<not> am_i_root then Inl NotPermitted
         else let n = atoi optarg in
              if n < 0 then Inl BadPreload else Inr (o'\<lparr>po_preload := n\<rparr>))
      else if code = Opt CHR ''n'' then Inr (or_flag F_NUMERIC o')
      else if code = Opt CHR ''p'' then
        (case fill optarg (po_ping (or_flag F_PINGFILLED o')) of
           Inl x \<Rightarrow> Inl x
         | Inr p1 \<Rightarrow> Inr (o'\<lparr>po_ping := p1\<rparr>))
      else if code = Opt CHR ''q'' then Inr (or_flag F_QUIET o')
      else if code = Opt CHR ''R'' then Inr (or_flag F_RROUTE o')
      else if code = Opt CHR ''r'' then Inr (or_flag F_SO_DONTROUTE o')
      else if code = Opt CHR ''s'' then
        (let n = atoi optarg in
         if n > int MAXPACKET then Inl TooLarge
         else if n \<le> 0 then Inl IllegalSize
         else Inr (o'\<lparr>po_ping := p\<lparr>datalen := n\<rparr>\<rparr>))
      else if code = Opt CHR ''v'' then Inr (or_flag F_VERBOSE o')
      else if code = Opt CHR ''L'' then Inr (or_mflag MULTICAST_NOLOOP o')
      else if code = Opt CHR ''t'' then
        (let i = atoi optarg in
         if i < 0 \<or> i > 255 then Inl BadTtl else Inr (or_mflag MULTICAST_TTL (o'\<lparr>po_ttl := of_int i\<rparr>)))
      else if code = Opt CHR ''I'' then
        (case scan_quad 4 optarg of
           Some [i1, i2, i3, i4] \<Rightarrow>
             Inr (or_mflag MULTICAST_IF
               (o'\<lparr>po_ifaddr := htonl (push_bit 24 i1 OR push_bit 16 i2 OR push_bit 8 i3 OR i4)\<rparr>))
         | _ \<Rightarrow> Inl BadIfAddr)
      else Inl PingUsage)"

fun ping_options :: "bool \<Rightarrow> optev list \<Rightarrow> ping_opts \<Rightarrow> ping_error + ping_opts" where
  "ping_options am_i_root [] o' = Inr o'"
| "ping_options am_i_root (e # es) o' =
     (case ping_option am_i_root e o' of Inl x \<Rightarrow> Inl x | Inr o1 \<Rightarrow> ping_options am_i_root es o1)"

subsection \<open>Set-up\<close>

text \<open>The answers of the system to the calls of the set-up.\<close>

record ping_sys =
  ps_root :: bool
  ps_proto :: bool
  ps_socket :: bool
  ps_aton :: "cstr \<Rightarrow> u32 option"
  ps_byname :: "cstr \<Rightarrow> (cstr \<times> u32) option"
  ps_byaddr :: "u32 \<Rightarrow> cstr option"
  ps_malloc :: "int \<Rightarrow> bool"
  ps_pid :: u32
  ps_rr_ok :: bool
  ps_mc_ok :: "u32 \<Rightarrow> bool"
  ps_sendto :: "int \<Rightarrow> int"

definition default_writes :: "int \<Rightarrow> (nat \<times> u8) list" where
  "default_writes len = map (\<lambda>i. (16 + (i - 8), of_nat i)) [8..<nat len]"

definition default_fill :: "ping \<Rightarrow> ping_error + ping" where
  "default_fill p =
     (if flag F_PINGFILLED p then Inr p
      else case store_all (default_writes (datalen p)) (outpack p) of
             None \<Rightarrow> Inl Overrun
           | Some o' \<Rightarrow> Inr (p\<lparr>outpack := o'\<rparr>))"

definition ping_target :: "ping_sys \<Rightarrow> cstr \<Rightarrow> (cstr \<times> u32) option" where
  "ping_target S target =
     (case ps_aton S target of
        Some a \<Rightarrow> Some (target, a)
      | None \<Rightarrow> map_option (apfst (take 63)) (ps_byname S target))"

definition ping_sockopts :: "ping_sys \<Rightarrow> ping_opts \<Rightarrow> ping_error option" where
  "ping_sockopts S o' =
     (if flag F_RROUTE (po_ping o') \<and> \<not> ps_rr_ok S then Some RecordRouteFailed
      else if moptions o' AND MULTICAST_NOLOOP \<noteq> 0 \<and> \<not> ps_mc_ok S MULTICAST_NOLOOP then Some McLoopFailed
      else if moptions o' AND MULTICAST_TTL \<noteq> 0 \<and> \<not> ps_mc_ok S MULTICAST_TTL then Some McTtlFailed
      else if moptions o' AND MULTICAST_IF \<noteq> 0 \<and> \<not> ps_mc_ok S MULTICAST_IF then Some McIfFailed
      else None)"

definition ping_opts0 :: ping_opts where
  "ping_opts0 = \<lparr>po_ping = ping0, po_preload = 0, moptions = 0, po_ttl = 0, po_ifaddr = 0\<rparr>"

definition ping_setup :: "ping_sys \<Rightarrow> cstr list \<Rightarrow> ping_error + (int \<times> ping)" where
  "ping_setup S args =
     (if \<not> ps_proto S then Inl UnknownProto
      else if \<not> ps_socket S then Inl NoSocket
      else let (es, operands) = getopt ''I:LRc:dfh:i:l:np:qrs:t:vM'' args in
        case ping_options (ps_root S) es ping_opts0 of Inl e \<Rightarrow> Inl e | Inr o' \<Rightarrow>
        case operands of
          [target] \<Rightarrow>
            (case ping_target S target of None \<Rightarrow> Inl UnknownHost | Some (host, addr) \<Rightarrow>
             let p = (po_ping o')\<lparr>hostname := host\<rparr> in
             if flag F_FLOOD p \<and> flag F_INTERVAL p then Inl FloodInterval
             else
               let p1 = p\<lparr>timing := (datalen p \<ge> 8)\<rparr> in
               if \<not> ps_malloc S (datalen p + MAXIPLEN + MAXICMPLEN) then Inl NoMemory
               else case default_fill p1 of Inl e \<Rightarrow> Inl e | Inr p2 \<Rightarrow>
                 let p3 = p2\<lparr>ident := ucast (ps_pid S)\<rparr> in
                 (case ping_sockopts S o' of
                    Some e \<Rightarrow> Inl e
                  | None \<Rightarrow>
                      Inr (po_preload o',
                           say (''PING '' @ host @ '' ('' @ inet_ntoa addr @ ''): '' @ fmt_d (datalen p3)
                                  @ '' data bytes'' @ nl) p3)))
        | _ \<Rightarrow> Inl PingUsage)"

subsection \<open>The loop\<close>

text \<open>
  What happens to the running program: the alarm signal, a packet, a failing \<open>recvfrom\<close> or an
  interrupt. In flood mode each turn of the loop sends first; \<open>Turn\<close> is then such a turn in which
  \<open>select\<close> reports nothing, and a packet comes with the time its turn started.
\<close>

datatype ping_input =
    Alarm timeval
  | Packet timeval "nat \<Rightarrow> u8" int u32 timeval
  | RecvFail timeval
  | Turn timeval
  | Interrupt

record ping_run =
  run_ping :: ping
  run_alarm :: on_alarm
  run_sent :: "u8 list list"

datatype ping_state = Running ping_run | Exited int cstr | Fault

definition do_send :: "ping_sys \<Rightarrow> timeval \<Rightarrow> ping_run \<Rightarrow> ping_run option" where
  "do_send S tv r =
     map_option (\<lambda>(pack, p). r\<lparr>run_ping := p, run_sent := run_sent r @ [pack]\<rparr>)
       (pinger tv (ps_sendto S) (run_ping r))"

definition do_catcher :: "ping_sys \<Rightarrow> timeval \<Rightarrow> ping_run \<Rightarrow> ping_run option" where
  "do_catcher S tv r =
     map_option (\<lambda>(pack, (al, _), p). r\<lparr>run_ping := p, run_alarm := al, run_sent := run_sent r @ [pack]\<rparr>)
       (catcher tv (ps_sendto S) (run_ping r))"

definition do_finish :: "ping_run \<Rightarrow> ping_state" where
  "do_finish r = (let (status, text) = finish (run_ping r) in Exited status text)"

definition do_receive ::
  "ping_sys \<Rightarrow> (nat \<Rightarrow> u8) \<Rightarrow> int \<Rightarrow> u32 \<Rightarrow> timeval \<Rightarrow> ping_run \<Rightarrow> ping_state" where
  "do_receive S m cc from tv r =
     (case pr_pack (ps_byaddr S) m cc from tv (run_ping r) of
        None \<Rightarrow> Fault
      | Some p \<Rightarrow>
          (let r1 = r\<lparr>run_ping := p\<rparr> in
           if npackets p \<noteq> 0 \<and> nreceived p \<ge> npackets p then do_finish r1 else Running r1))"

text \<open>The turn of the loop up to \<open>recvfrom\<close>: in flood mode a packet is sent.\<close>

definition loop_head :: "ping_sys \<Rightarrow> timeval \<Rightarrow> ping_run \<Rightarrow> ping_run option" where
  "loop_head S tv r = (if flag F_FLOOD (run_ping r) then do_send S tv r else Some r)"

fun ping_step :: "ping_sys \<Rightarrow> ping_input \<Rightarrow> ping_run \<Rightarrow> ping_state" where
  "ping_step S (Alarm tv) r =
     (case run_alarm r of
        AlarmFinish \<Rightarrow> do_finish r
      | AlarmCatcher \<Rightarrow> (case do_catcher S tv r of None \<Rightarrow> Fault | Some r1 \<Rightarrow> Running r1))"
| "ping_step S (Packet t0 m cc from tv) r =
     (case loop_head S t0 r of None \<Rightarrow> Fault | Some r1 \<Rightarrow> do_receive S m cc from tv r1)"
| "ping_step S (RecvFail t0) r =
     (case loop_head S t0 r of None \<Rightarrow> Fault | Some r1 \<Rightarrow> Running r1)"
| "ping_step S (Turn t0) r =
     (case loop_head S t0 r of None \<Rightarrow> Fault | Some r1 \<Rightarrow> Running r1)"
| "ping_step S Interrupt r = do_finish r"

fun ping_inputs :: "ping_sys \<Rightarrow> ping_input list \<Rightarrow> ping_state \<Rightarrow> ping_state" where
  "ping_inputs S (i # is) (Running r) = ping_inputs S is (ping_step S i r)"
| "ping_inputs S _ st = st"

fun preload_sends :: "ping_sys \<Rightarrow> timeval list \<Rightarrow> ping_run \<Rightarrow> ping_run option" where
  "preload_sends S [] r = Some r"
| "preload_sends S (tv # tvs) r = Option.bind (do_send S tv r) (preload_sends S tvs)"

text \<open>\<open>clock\<close> gives the times of the packets sent before the loop.\<close>

definition ping_main ::
  "ping_sys \<Rightarrow> cstr list \<Rightarrow> (nat \<Rightarrow> timeval) \<Rightarrow> ping_input list \<Rightarrow> ping_state" where
  "ping_main S args clock inputs =
     (case ping_setup S args of
        Inl e \<Rightarrow> (if e = Overrun then Fault else Exited (error_status e) [])
      | Inr (preload, p) \<Rightarrow>
          (case preload_sends S (map clock [0..<nat preload])
                  \<lparr>run_ping = p, run_alarm = AlarmCatcher, run_sent = []\<rparr> of
             None \<Rightarrow> Fault
           | Some r \<Rightarrow>
               if flag F_FLOOD p then ping_inputs S inputs (Running r)
               else case do_catcher S (clock (nat preload)) r of
                      None \<Rightarrow> Fault
                    | Some r1 \<Rightarrow> ping_inputs S inputs (Running r1)))"

subsection \<open>Overruns of the packet array\<close>

lemma store_all_None_iff: "store_all ws xs = None \<longleftrightarrow> (\<exists>w\<in>set ws. length xs \<le> fst w)"
  by (induction ws xs rule: store_all.induct) (auto simp: not_le)

lemma default_writes_reach:
  "(\<exists>w\<in>set (default_writes len). N \<le> fst w) \<longleftrightarrow> 8 < len \<and> int N < len + 8"
proof -
  have "(\<exists>i. 8 \<le> i \<and> i < nat len \<and> N \<le> 16 + (i - 8)) \<longleftrightarrow> 8 < len \<and> int N < len + 8"
    by (auto intro!: exI [of _ "nat len - 1"])
  then show ?thesis by (auto simp: default_writes_def)
qed

lemma set_fill_writes:
  assumes "0 < length pat"
  shows "set (fill_writes pat) = {(16 + (j + k * length pat), pat ! j) | j k.
    j < length pat \<and> k \<le> (MAXPACKET - (8 + length pat)) div length pat}"
  using assms by (fastforce simp: fill_writes_def Let_def simp del: upt_Suc)

lemma fill_writes_reach:
  assumes "0 < length pat" and "length pat \<le> 16"
  shows "(\<exists>w\<in>set (fill_writes pat). MAXPACKET \<le> fst w) \<longleftrightarrow> (MAXPACKET - 8) mod length pat < 8"
proof -
  let ?n = "length pat"
  let ?q = "(MAXPACKET - (8 + ?n)) div ?n"
  have q: "(?q + 1) * ?n = MAXPACKET - 8 - (MAXPACKET - 8) mod ?n"
  proof -
    have "MAXPACKET - 8 = (MAXPACKET - (8 + ?n)) + ?n" using assms by (simp add: MAXPACKET_def)
    moreover have "(MAXPACKET - (8 + ?n) + ?n) div ?n = ?q + 1" using assms(1) by (intro div_add_self2) simp
    ultimately have "(MAXPACKET - 8) div ?n = ?q + 1" by argo
    then show ?thesis using minus_mod_eq_div_mult [of "MAXPACKET - 8" ?n] by argo
  qed
  have "(\<exists>w\<in>set (fill_writes pat). MAXPACKET \<le> fst w) \<longleftrightarrow> (\<exists>k\<le>?q. \<exists>j<?n. MAXPACKET \<le> 16 + (j + k * ?n))"
    using assms(1) unfolding set_fill_writes [OF assms(1)] by auto
  also have "\<dots> \<longleftrightarrow> MAXPACKET \<le> 16 + (?n - 1 + ?q * ?n)"
  proof
    assume "\<exists>k\<le>?q. \<exists>j<?n. MAXPACKET \<le> 16 + (j + k * ?n)"
    then obtain k j where "k \<le> ?q" "j < ?n" "MAXPACKET \<le> 16 + (j + k * ?n)" by blast
    moreover from this have "k * ?n \<le> ?q * ?n" by simp
    ultimately show "MAXPACKET \<le> 16 + (?n - 1 + ?q * ?n)" by linarith
  next
    assume "MAXPACKET \<le> 16 + (?n - 1 + ?q * ?n)"
    moreover have "?n - 1 < ?n" using assms(1) by simp
    ultimately show "\<exists>k\<le>?q. \<exists>j<?n. MAXPACKET \<le> 16 + (j + k * ?n)" by blast
  qed
  also have "\<dots> \<longleftrightarrow> MAXPACKET < 16 + (?q + 1) * ?n" using assms(1) unfolding add_mult_distrib by linarith
  also have "\<dots> \<longleftrightarrow> (MAXPACKET - 8) mod ?n < 8"
  proof -
    have "(MAXPACKET - 8) mod ?n < 16" using assms mod_less_divisor [OF assms(1), of "MAXPACKET - 8"] by linarith
    moreover have "16 \<le> MAXPACKET - 8" by (simp add: MAXPACKET_def)
    ultimately show ?thesis unfolding q by linarith
  qed
  finally show ?thesis .
qed

subsection \<open>A limited number of packets\<close>

lemma pinger_keeps:
  assumes "pinger tv sendto p = Some (pack, p')"
  shows "npackets p' = npackets p \<and> options p' = options p"
  using assms by (auto simp: pinger_def pinger_messages_def say_def Let_def split: if_splits)

lemma ip_options_keeps:
  "ip_options byaddr m cp hlen p = Some p' \<Longrightarrow>
     ntransmitted p' = ntransmitted p \<and> npackets p' = npackets p \<and> options p' = options p"
proof (induction byaddr m cp hlen p rule: ip_options.induct)
  case (1 byaddr m cp hlen p)
  note step = "1.prems" [unfolded ip_options.simps [of byaddr m cp hlen p]]
  show ?case
  proof (cases "20 < hlen")
    case True
    then obtain t cp' hlen' rr where o: "ip_option byaddr m p cp hlen = Some (t, cp', hlen', rr)"
      and rest: "ip_options byaddr m (cp' + 1) (hlen' - 1) (say t (p\<lparr>old_rr := rr\<rparr>)) = Some p'"
      using step by (auto split: option.splits)
    from "1.IH" [OF True o refl refl refl rest] show ?thesis by (simp add: say_def)
  qed (use step in simp)
qed

lemma pr_time_keeps:
  "pr_time tv t p = (d, p1) \<Longrightarrow>
     ntransmitted p1 = ntransmitted p \<and> npackets p1 = npackets p \<and> options p1 = options p"
  by (auto simp: pr_time_def Let_def split: if_splits)

lemma count_reply_keeps:
  "count_reply k p = (b, p1) \<Longrightarrow>
     ntransmitted p1 = ntransmitted p \<and> npackets p1 = npackets p \<and> options p1 = options p"
  by (auto simp: count_reply_def Let_def split: if_splits)

lemma pr_reply_keeps:
  assumes "pr_reply m hlen cc from tv p = (b, p')"
  shows "ntransmitted p' = ntransmitted p \<and> npackets p' = npackets p \<and> options p' = options p"
proof (cases "le_u16 m (hlen + 4) = unat (ident p)")
  case True
  obtain t p2 where t: "pr_time tv \<lparr>sec = le_s32 m (hlen + 8), usec = le_s32 m (hlen + 12)\<rparr>
      (p\<lparr>nreceived := nreceived p + 1\<rparr>) = (t, p2)" by fastforce
  obtain c p3 where c: "count_reply (le_u16 m (hlen + 6)) p2 = (c, p3)" by fastforce
  have "p' = p3 \<or> (\<exists>x. p' = say x p3)"
    using assms True by (auto simp: pr_reply_def t c split: if_splits)
  then show ?thesis using pr_time_keeps [OF t] count_reply_keeps [OF c] by (auto simp: say_def)
qed (use assms in \<open>simp add: pr_reply_def\<close>)

lemma pr_pack_keeps:
  assumes "pr_pack byaddr m cc from tv p = Some p'"
  shows "ntransmitted p' = ntransmitted p \<and> npackets p' = npackets p \<and> options p' = options p"
proof -
  let ?h = "unat (m 0) mod 16 * 4"
  consider "p' = p" | b p1 where "pr_reply m ?h (cc - int ?h) from tv p = (b, p1)" "p' = p1"
    | b p1 p2 where "pr_reply m ?h (cc - int ?h) from tv p = (b, p1) \<or> (\<exists>x. p1 = say x p)"
        "ip_options byaddr m 20 (int ?h) p1 = Some p2" "p' = p2 \<or> p' = say nl p2"
    using assms unfolding pr_pack_def Let_def by (fastforce split: if_splits prod.splits)
  then show ?thesis
  proof cases
    case (3 b p1 p2)
    then show ?thesis using ip_options_keeps [OF 3(2)] pr_reply_keeps by (fastforce simp: say_def)
  qed (use pr_reply_keeps in auto)
qed

text \<open>The alarm sends as long as fewer packets than asked for are out.\<close>

definition limited :: "int \<Rightarrow> ping_run \<Rightarrow> bool" where
  "limited n r \<longleftrightarrow>
     \<not> flag F_FLOOD (run_ping r) \<and> npackets (run_ping r) = n \<and>
     ntransmitted (run_ping r) = int (length (run_sent r)) \<and> ntransmitted (run_ping r) \<le> n \<and>
     (run_alarm r = AlarmCatcher \<longleftrightarrow> ntransmitted (run_ping r) < n)"

lemma limited_catcher:
  assumes "0 < n" and "limited n r" and "run_alarm r = AlarmCatcher" and "do_catcher S tv r = Some r1"
  shows "limited n r1"
proof -
  obtain pack p1 where p: "pinger tv (ps_sendto S) (run_ping r) = Some (pack, p1)"
    and r1: "r1 = r\<lparr>run_ping := p1, run_alarm := fst (catcher_alarm p1), run_sent := run_sent r @ [pack]\<rparr>"
    using assms(4) by (auto simp: do_catcher_def catcher_def split: prod.splits)
  show ?thesis
    using assms(1-3) pinger_counters(1) [OF p] pinger_keeps [OF p]
    by (auto simp: limited_def r1 flag_def catcher_alarm_def split: if_splits)
qed

lemma limited_step:
  assumes "0 < n" and "limited n r" and "ping_step S i r = Running r1"
  shows "limited n r1"
proof (cases i)
  case (Alarm tv)
  then show ?thesis
    using assms limited_catcher [OF assms(1,2)]
    by (auto simp: do_finish_def split: on_alarm.splits option.splits prod.splits)
next
  case (Packet t0 m cc "from" tv)
  have "loop_head S t0 r = Some r" using assms(2) by (simp add: loop_head_def limited_def)
  then have "do_receive S m cc from tv r = Running r1" using assms(3) Packet by simp
  then obtain p where p: "pr_pack (ps_byaddr S) m cc from tv (run_ping r) = Some p"
    and r1: "r1 = r\<lparr>run_ping := p\<rparr>"
    by (auto simp: do_receive_def do_finish_def Let_def split: option.splits if_splits prod.splits)
  show ?thesis using assms(2) pr_pack_keeps [OF p] by (auto simp: limited_def flag_def r1)
qed (use assms in \<open>auto simp: loop_head_def do_finish_def limited_def split: prod.splits\<close>)

lemma limited_inputs:
  assumes "0 < n" and "limited n r" and "ping_inputs S is (Running r) = Running r1"
  shows "limited n r1"
  using assms(2,3)
proof (induction "is" arbitrary: r)
  case (Cons i "is")
  show ?case
  proof (cases "ping_step S i r")
    case (Running r')
    then show ?thesis using Cons.IH [of r'] Cons.prems limited_step [OF assms(1) _ Running] by simp
  qed (use Cons.prems in auto)
qed simp

subsection \<open>States the options lead to\<close>

definition opts_ok :: "ping_opts \<Rightarrow> bool" where
  "opts_ok o' \<longleftrightarrow>
     0 < datalen (po_ping o') \<and> datalen (po_ping o') \<le> int MAXPACKET \<and>
     length (outpack (po_ping o')) = MAXPACKET \<and> ntransmitted (po_ping o') = 0"

lemma store_all_length: "store_all ws xs = Some ys \<Longrightarrow> length ys = length xs"
  by (induction ws xs rule: store_all.induct) (auto split: if_splits)

lemma fill_result:
  assumes "fill patp p = Inr p'"
  shows "datalen p' = datalen p \<and> length (outpack p') = length (outpack p) \<and> ntransmitted p' = ntransmitted p"
  using assms
  by (auto simp: fill_def say_def Let_def split: if_splits option.splits dest: store_all_length)

lemma opts_ok_flags [simp]:
  "opts_ok (or_flag f o') = opts_ok o'" "opts_ok (or_mflag f o') = opts_ok o'"
  by (simp_all add: opts_ok_def or_flag_def or_mflag_def)

lemma opts_ok_updates [simp]:
  "opts_ok (o'\<lparr>po_preload := a\<rparr>) = opts_ok o'" "opts_ok (o'\<lparr>po_ttl := b\<rparr>) = opts_ok o'"
  "opts_ok (o'\<lparr>po_ifaddr := c\<rparr>) = opts_ok o'"
  "opts_ok (o'\<lparr>po_ping := (po_ping o')\<lparr>npackets := n\<rparr>\<rparr>) = opts_ok o'"
  "opts_ok (o'\<lparr>po_ping := (po_ping o')\<lparr>ping_interval := n\<rparr>\<rparr>) = opts_ok o'"
  by (simp_all add: opts_ok_def)

lemma ping_option_ok:
  assumes "opts_ok o1" and "ping_option r e o1 = Inr o2"
  shows "opts_ok o2"
proof -
  obtain code arg where e: "e = (code, arg)" by (cases e)
  consider "opts_ok o2" | p where "fill arg (po_ping (or_flag F_PINGFILLED o1)) = Inr p" "o2 = o1\<lparr>po_ping := p\<rparr>"
    | "o2 = o1\<lparr>po_ping := (po_ping o1)\<lparr>datalen := atoi arg\<rparr>\<rparr>" "0 < atoi arg" "atoi arg \<le> int MAXPACKET"
    using assms unfolding ping_option_def e Let_def
    by (auto split: if_splits sum.splits option.splits list.splits)
  then show ?thesis
  proof cases
    case 2
    then show ?thesis using assms(1) fill_result [OF 2(1)] by (simp add: opts_ok_def or_flag_def)
  qed (use assms(1) in \<open>simp_all add: opts_ok_def\<close>)
qed

lemma ping_options_ok: "opts_ok o1 \<Longrightarrow> ping_options r es o1 = Inr o2 \<Longrightarrow> opts_ok o2"
  by (induction r es o1 rule: ping_options.induct) (auto split: sum.splits dest: ping_option_ok)

lemma opts_ok_start: "opts_ok ping_opts0"
  by (simp add: opts_ok_def ping_opts0_def ping0_def MAXPACKET_def)

lemma default_fill_overruns:
  assumes "length (outpack p) = MAXPACKET"
  shows "default_fill p = Inl Overrun \<longleftrightarrow> \<not> flag F_PINGFILLED p \<and> int MAXPACKET - 8 < datalen p"
proof -
  have "store_all (default_writes (datalen p)) (outpack p) = None \<longleftrightarrow> int MAXPACKET - 8 < datalen p"
    unfolding store_all_None_iff assms default_writes_reach by (auto simp: MAXPACKET_def)
  then show ?thesis by (auto simp: default_fill_def split: option.splits)
qed

lemma hex_pairs_length: "length (hex_pairs s) = (length s + 1) div 2"
  by (induction s rule: hex_pairs.induct) auto

lemma default_fill_keeps:
  "default_fill p = Inr p' \<Longrightarrow> ntransmitted p' = ntransmitted p \<and> npackets p' = npackets p"
  by (auto simp: default_fill_def split: if_splits option.splits)

lemma ping_setup_result:
  assumes "ping_setup S args = Inr (k, p)"
  shows "ntransmitted p = 0"
proof -
  obtain es ops where g: "getopt ''I:LRc:dfh:i:l:np:qrs:t:vM'' args = (es, ops)" by fastforce
  obtain o' where o: "ping_options (ps_root S) es ping_opts0 = Inr o'"
    using assms g by (auto simp: ping_setup_def split: if_splits sum.splits)
  obtain h t p2 x where d: "default_fill ((po_ping o')\<lparr>hostname := h, timing := t\<rparr>) = Inr p2"
    and p: "p = say x (p2\<lparr>ident := ucast (ps_pid S)\<rparr>)"
    using assms unfolding ping_setup_def
    by (auto simp: g o Let_def split: if_splits sum.splits option.splits list.splits prod.splits)
  show ?thesis
    using ping_options_ok [OF opts_ok_start o] default_fill_keeps [OF d] by (simp add: p say_def opts_ok_def)
qed

subsection \<open>Properties\<close>

text \<open>C12: With a packet count, no flooding and no preload, \<open>ping\<close> never sends more packets than it
  was asked to, and the alarm goes over to the final report exactly when the last one is out.\<close>

theorem ping_count_limit:
  assumes "ping_setup S args = Inr (0, p)" and "\<not> flag F_FLOOD p" and "0 < npackets p"
    and "ping_main S args clock inputs = Running r"
  shows "int (length (run_sent r)) \<le> npackets p \<and>
    (run_alarm r = AlarmFinish \<longleftrightarrow> int (length (run_sent r)) = npackets p)"
proof -
  let ?r0 = "\<lparr>run_ping = p, run_alarm = AlarmCatcher, run_sent = []\<rparr>"
  have r0: "limited (npackets p) ?r0"
    using assms(2,3) ping_setup_result [OF assms(1)] by (simp add: limited_def)
  obtain r1 where c: "do_catcher S (clock 0) ?r0 = Some r1" and i: "ping_inputs S inputs (Running r1) = Running r"
    using assms by (auto simp: ping_main_def split: option.splits)
  have "limited (npackets p) r"
    using limited_inputs [OF assms(3) limited_catcher [OF assms(3) r0 _ c] i] by simp
  then show ?thesis by (cases "run_alarm r") (auto simp: limited_def)
qed

text \<open>The option \<open>-s\<close> is accepted up to \<open>MAXPACKET\<close>, but the default data overruns the packet
  array for the last eight of these sizes.\<close>

lemma accepted_size_overruns:
  assumes "ping_options am_i_root es ping_opts0 = Inr o'"
  shows "0 < datalen (po_ping o') \<and> datalen (po_ping o') \<le> int MAXPACKET \<and>
    (default_fill (po_ping o') = Inl Overrun \<longleftrightarrow>
       \<not> flag F_PINGFILLED (po_ping o') \<and> int MAXPACKET - 8 < datalen (po_ping o'))"
  using ping_options_ok [OF opts_ok_start assms] default_fill_overruns [of "po_ping o'"]
  by (simp add: opts_ok_def)

text \<open>A fill pattern given with \<open>-p\<close> overruns the packet array, unless it has eleven or fourteen
  bytes: the loop runs to the last start that leaves 8 bytes for the header, not 16.\<close>

lemma fill_overruns:
  assumes "patp \<noteq> []" and "list_all isxdigit patp" and "length (outpack p) = MAXPACKET"
  shows "fill patp p = Inl Overrun \<longleftrightarrow> min 16 ((length patp + 1) div 2) \<notin> {11, 14}"
proof -
  let ?pat = "take 16 (hex_pairs patp)"
  have n: "length ?pat = min 16 ((length patp + 1) div 2)" by (simp add: hex_pairs_length)
  have pos: "0 < length ?pat" using assms(1) unfolding n by (cases patp) auto
  have le: "length ?pat \<le> 16" by simp
  have mods: "(65460::nat) mod k < 8 \<longleftrightarrow> k \<notin> {11, 14}" if "0 < k" "k \<le> 16" for k :: nat
  proof -
    have "k \<in> {1, 2, 3, 4, 5, 6, 7, 8, 9, 10, 11, 12, 13, 14, 15, 16}" using that by simp arith
    then show ?thesis by auto
  qed
  have "fill patp p = Inl Overrun \<longleftrightarrow> store_all (fill_writes ?pat) (outpack p) = None"
    using assms(2) by (auto simp: fill_def Let_def split: option.splits)
  also have "\<dots> \<longleftrightarrow> (MAXPACKET - 8) mod length ?pat < 8"
    using fill_writes_reach [OF pos le] by (simp add: store_all_None_iff assms(3))
  also have "\<dots> \<longleftrightarrow> length ?pat \<notin> {11, 14}" using mods [OF pos le] by (simp add: MAXPACKET_def)
  finally show ?thesis unfolding n .
qed

text \<open>A system that answers every call, for the witness.\<close>

definition willing_sys :: ping_sys where
  "willing_sys = \<lparr>ps_root = False, ps_proto = True, ps_socket = True, ps_aton = (\<lambda>_. Some 0),
     ps_byname = (\<lambda>_. None), ps_byaddr = (\<lambda>_. None), ps_malloc = (\<lambda>_. True), ps_pid = 7,
     ps_rr_ok = True, ps_mc_ok = (\<lambda>_. True), ps_sendto = (\<lambda>cc. cc)\<rparr>"

definition willing_args :: "cstr list" where
  "willing_args = [''-c'', ''1'', ''-p'', [], ''h'']"

lemma willing_setup:
  "\<exists>p. ping_setup willing_sys willing_args = Inr (0, p) \<and>
       \<not> flag F_FLOOD p \<and> npackets p = 1 \<and> ntransmitted p = 0 \<and> datalen p = DEFDATALEN \<and>
       length (outpack p) = MAXPACKET"
proof -
  have g: "getopt ''I:LRc:dfh:i:l:np:qrs:t:vM'' willing_args =
      ([(Opt CHR ''c'', ''1''), (Opt CHR ''p'', [])], [''h''])"
    by (simp add: willing_args_def clib_simps)
  have o: "ping_options False [(Opt CHR ''c'', ''1''), (Opt CHR ''p'', [])] ping_opts0 =
      Inr (ping_opts0\<lparr>po_ping := say (''PATTERN: 0x'' @ nl) (ping0\<lparr>npackets := 1, options := F_PINGFILLED\<rparr>)\<rparr>)"
    by (simp add: ping_option_def fill_def fill_writes_def or_flag_def ping_opts0_def ping0_def flag_def
        F_PINGFILLED_def F_QUIET_def clib_simps)
  show ?thesis
    unfolding ping_setup_def g
    by (simp add: o willing_sys_def ping_target_def default_fill_def ping_sockopts_def say_def flag_def
        Let_def del: ping_options.simps)
      (simp add: willing_sys_def default_fill_def ping_sockopts_def say_def flag_def ping0_def ping_opts0_def F_PINGFILLED_def F_FLOOD_def F_INTERVAL_def F_RROUTE_def)
qed

theorem ping_count_limit_witness:
  "\<exists>r. ping_main willing_sys willing_args (\<lambda>_. \<lparr>sec = 3, usec = 7\<rparr>) [] = Running r \<and>
       length (run_sent r) \<le> 1"
proof -
  obtain p where p: "ping_setup willing_sys willing_args = Inr (0, p)"
      "\<not> flag F_FLOOD p" "npackets p = 1" and f: "datalen p = DEFDATALEN" "length (outpack p) = MAXPACKET"
    using willing_setup by blast
  obtain pack p1 where s: "pinger \<lparr>sec = 3, usec = 7\<rparr> (\<lambda>cc. cc) p = Some (pack, p1)"
    using pinger_fits [of p "\<lparr>sec = 3, usec = 7\<rparr>" "\<lambda>cc. cc"] f
    by (auto simp: MAXPACKET_def)
  have sendto: "ps_sendto willing_sys = (\<lambda>cc. cc)" by (simp add: willing_sys_def)
  obtain r where r: "ping_main willing_sys willing_args (\<lambda>_. \<lparr>sec = 3, usec = 7\<rparr>) [] = Running r"
    using p(2) by (simp add: ping_main_def p(1) do_catcher_def catcher_def sendto s)
  show ?thesis using ping_count_limit [OF p(1,2) _ r] p(3) r by auto
qed

end
