(* ===== verification/Can.thy ===== *)
theory Can
  imports Getopt
begin

text \<open>
  The CAN bus programs \<^verbatim>\<open>cansend.c\<close>, \<^verbatim>\<open>candump.c\<close> and \<^verbatim>\<open>canecho.c\<close> of
  \<^verbatim>\<open>src/can_test/utilities\<close>: the frame a command line asks for and how often it is
  written, the filters of the receiver, the line it prints for a frame, and its loop as steps
  on frames, failed reads and signals. Sockets and files answer through \<open>can_sys\<close>; what goes
  to the standard output is kept, the error stream is not. Constants of \<^verbatim>\<open><linux/can.h>\<close>
  have their values on Linux.
\<close>

subsection \<open>Frames and sockets\<close>

definition PF_CAN :: int where "PF_CAN = 29"
definition SOCK_RAW :: int where "SOCK_RAW = 3"
definition CAN_RAW :: int where "CAN_RAW = 1"

definition CAN_EFF_FLAG :: u32 where "CAN_EFF_FLAG = 0x80000000"
definition CAN_RTR_FLAG :: u32 where "CAN_RTR_FLAG = 0x40000000"
definition CAN_SFF_MASK :: u32 where "CAN_SFF_MASK = 0x000007FF"
definition CAN_EFF_MASK :: u32 where "CAN_EFF_MASK = 0x1FFFFFFF"

lemmas can_consts = CAN_EFF_FLAG_def CAN_RTR_FLAG_def CAN_SFF_MASK_def CAN_EFF_MASK_def

record can_frame =
  can_id :: u32
  can_dlc :: u8
  data :: "u8 list"

text \<open>The identifier as the programs mask it before use.\<close>

definition mask_id :: "bool \<Rightarrow> u32 \<Rightarrow> u32" where
  "mask_id extended i =
     (if extended then (i AND CAN_EFF_MASK) OR CAN_EFF_FLAG else i AND CAN_SFF_MASK)"

text \<open>What the system answers: does the socket open, the index of an interface, does the bind,
  the filter, the output file work.\<close>

record can_sys =
  cs_socket :: "int \<Rightarrow> int \<Rightarrow> int \<Rightarrow> bool"
  cs_ifindex :: "cstr \<Rightarrow> nat option"
  cs_bind :: "int \<Rightarrow> nat \<Rightarrow> bool"
  cs_filter :: "(u32 \<times> u32) list \<Rightarrow> bool"
  cs_fopen :: "cstr \<Rightarrow> bool"

definition IFNAMSIZ :: nat where "IFNAMSIZ = 16"

definition can_bind :: "can_sys \<Rightarrow> int \<Rightarrow> cstr \<Rightarrow> bool" where
  "can_bind S family name =
     (case cs_ifindex S (take IFNAMSIZ name) of None \<Rightarrow> False | Some i \<Rightarrow> cs_bind S family i)"

definition interface_line :: "cstr \<Rightarrow> int \<Rightarrow> int \<Rightarrow> int \<Rightarrow> cstr" where
  "interface_line interface family type proto =
     ''interface = '' @ interface @ '', family = '' @ fmt_d family @ '', type = '' @ fmt_d type @
     '', proto = '' @ fmt_d proto @ nl"

subsection \<open>cansend\<close>

record send_opts =
  so_id :: u32
  so_family :: int
  so_type :: int
  so_proto :: int
  so_loop :: u32
  so_verbose :: bool
  so_rtr :: bool
  so_extended :: bool
  so_delay :: int

text \<open>\<open>delay0\<close> is what the uninitialised variable \<open>delay\<close> holds.\<close>

definition send_opts0 :: "int \<Rightarrow> send_opts" where
  "send_opts0 delay0 =
     \<lparr>so_id = 1, so_family = PF_CAN, so_type = SOCK_RAW, so_proto = CAN_RAW, so_loop = 1,
      so_verbose = False, so_rtr = False, so_extended = False, so_delay = delay0\<rparr>"

definition VERSION_OPTION :: optcode where "VERSION_OPTION = OptN 256"

definition send_longopts :: "longopt list" where
  "send_longopts =
     [\<lparr>lo_name = ''help'', lo_arg = False, lo_val = Opt CHR ''h''\<rparr>,
      \<lparr>lo_name = ''identifier'', lo_arg = True, lo_val = Opt CHR ''i''\<rparr>,
      \<lparr>lo_name = ''rtr'', lo_arg = False, lo_val = Opt CHR ''r''\<rparr>,
      \<lparr>lo_name = ''extended'', lo_arg = False, lo_val = Opt CHR ''e''\<rparr>,
      \<lparr>lo_name = ''family'', lo_arg = True, lo_val = Opt CHR ''f''\<rparr>,
      \<lparr>lo_name = ''protocol'', lo_arg = True, lo_val = Opt CHR ''p''\<rparr>,
      \<lparr>lo_name = ''type'', lo_arg = True, lo_val = Opt CHR ''t''\<rparr>,
      \<lparr>lo_name = ''version'', lo_arg = False, lo_val = VERSION_OPTION\<rparr>,
      \<lparr>lo_name = ''verbose'', lo_arg = False, lo_val = Opt CHR ''v''\<rparr>,
      \<lparr>lo_name = ''loop'', lo_arg = True, lo_val = Opt CHR ''l''\<rparr>,
      \<lparr>lo_name = ''delay_us'', lo_arg = True, lo_val = Opt CHR ''d''\<rparr>]"

text \<open>An option ends the program with the text it printed, or changes the settings. Every option
  with an argument has one, so the branch of \<open>l\<close> for a missing argument is never taken.\<close>

definition send_option :: "cstr \<Rightarrow> optev \<Rightarrow> send_opts \<Rightarrow> cstr + send_opts" where
  "send_option version e p =
     (let (code, optarg) = e in
      if code = Opt CHR ''h'' then Inl []
      else if code = Opt CHR ''f'' then Inr (p\<lparr>so_family := sint (strtoul 0 optarg)\<rparr>)
      else if code = Opt CHR ''t'' then Inr (p\<lparr>so_type := sint (strtoul 0 optarg)\<rparr>)
      else if code = Opt CHR ''p'' then Inr (p\<lparr>so_proto := sint (strtoul 0 optarg)\<rparr>)
      else if code = Opt CHR ''v'' then Inr (p\<lparr>so_verbose := True\<rparr>)
      else if code = Opt CHR ''l'' then Inr (p\<lparr>so_loop := strtoul 0 optarg\<rparr>)
      else if code = Opt CHR ''i'' then Inr (p\<lparr>so_id := strtoul 0 optarg\<rparr>)
      else if code = Opt CHR ''r'' then Inr (p\<lparr>so_rtr := True\<rparr>)
      else if code = Opt CHR ''e'' then Inr (p\<lparr>so_extended := True\<rparr>)
      else if code = Opt CHR ''d'' then Inr (p\<lparr>so_delay := sint (strtoul 0 optarg)\<rparr>)
      else if code = VERSION_OPTION then Inl (''cansend '' @ version @ nl)
      else Inr p)"

fun send_options :: "cstr \<Rightarrow> optev list \<Rightarrow> send_opts \<Rightarrow> cstr + send_opts" where
  "send_options version [] p = Inr p"
| "send_options version (e # es) p =
     (case send_option version e p of Inl t \<Rightarrow> Inl t | Inr q \<Rightarrow> send_options version es q)"

text \<open>The bytes of the message: at most eight arguments are read.\<close>

fun fill_data :: "cstr list \<Rightarrow> nat \<Rightarrow> u8 list \<Rightarrow> nat \<times> u8 list" where
  "fill_data [] dlc d = (dlc, d)"
| "fill_data (a # as) dlc d =
     (let d1 = d[dlc := ucast (strtoul 0 a)]; dlc1 = dlc + 1 in
      if dlc1 = 8 then (dlc1, d1) else fill_data as dlc1 d1)"

definition send_frame :: "send_opts \<Rightarrow> cstr list \<Rightarrow> can_frame" where
  "send_frame p msg =
     (let (dlc, d) = fill_data msg 0 (replicate 8 0);
          i = mask_id (so_extended p) (so_id p)
      in \<lparr>can_id = (if so_rtr p then i OR CAN_RTR_FLAG else i), can_dlc = of_nat dlc, data = d\<rparr>)"

definition frame_text :: "can_frame \<Rightarrow> cstr" where
  "frame_text f =
     ''id: '' @ fmt_d (sint (can_id f)) @ '' dlc: '' @ fmt_u (unat (can_dlc f)) @ nl @
     concat (map (\<lambda>b. ''0x'' @ fmt_0x 2 (unat b) @ '' '') (take (unat (can_dlc f)) (data f))) @ nl"

text \<open>The loop writes the frame \<open>loopcount\<close> times, until a write fails; \<open>k\<close> counts the writes.
  The counter is an \<open>int\<close> that goes down to 0; a value read as negative is taken to wrap.\<close>

fun send_loop :: "(nat \<Rightarrow> bool) \<Rightarrow> can_frame \<Rightarrow> nat \<Rightarrow> nat \<Rightarrow> can_frame list \<times> cstr" where
  "send_loop wr f 0 k = ([], [])"
| "send_loop wr f (Suc n) k =
     (if wr k then apfst ((#) f) (send_loop wr f n (Suc k))
      else ([], ''Please specify a more long delay time!'' @ nl))"

datatype send_end = SendExit int cstr "can_frame list" | SendOverrun

definition cansend :: "can_sys \<Rightarrow> cstr \<Rightarrow> int \<Rightarrow> (nat \<Rightarrow> bool) \<Rightarrow> cstr list \<Rightarrow> send_end" where
  "cansend S version delay0 wr args =
     (let (es, ops) = getopt_long ''hf:t:p:vi:l:d:re'' send_longopts args in
      case send_options version es (send_opts0 delay0) of
        Inl t \<Rightarrow> SendExit 0 t []
      | Inr p \<Rightarrow>
          (case ops of
             [] \<Rightarrow> SendExit 0 [] []
           | interface # msg \<Rightarrow>
               let t1 = interface_line interface (so_family p) (so_type p) (so_proto p) in
               if \<not> cs_socket S (so_family p) (so_type p) (so_proto p) then SendExit 1 t1 []
               else if IFNAMSIZ \<le> length interface then SendOverrun
               else if \<not> can_bind S (so_family p) interface then SendExit 1 t1 []
               else
                 let f = send_frame p msg;
                     t2 = (if so_verbose p then frame_text f else []);
                     t3 = ''It will send can frame with '' @ fmt_d (so_delay p) @ '' us interval!'' @ nl;
                     (fs, t4) = send_loop wr f (unat (so_loop p)) 0
                 in SendExit 0 (t1 @ t2 @ t3 @ t4) fs))"

subsection \<open>candump: filters\<close>

text \<open>The array of filters and its counter. A failing \<open>realloc\<close> leaves a NULL pointer and the
  counter; entries below the counter of a later array then hold \<open>junk\<close>.\<close>

record filters =
  filter_ptr :: "(u32 \<times> u32) list option"
  filter_count :: nat

definition filters0 :: filters where
  "filters0 = \<lparr>filter_ptr = None, filter_count = 0\<rparr>"

definition add_filter ::
  "(nat \<Rightarrow> bool) \<Rightarrow> u32 \<times> u32 \<Rightarrow> u32 \<Rightarrow> u32 \<Rightarrow> filters \<Rightarrow> int \<times> cstr \<times> filters" where
  "add_filter realloc junk i msk F =
     (if \<not> realloc (8 * (filter_count F + 1)) then (- 1, [], F\<lparr>filter_ptr := None\<rparr>)
      else
        let old = (case filter_ptr F of None \<Rightarrow> replicate (filter_count F) junk | Some xs \<Rightarrow> xs) in
        (0, ''id: 0x'' @ fmt_0x 8 (unat i) @ '' mask: 0x'' @ fmt_0x 8 (unat msk) @ nl,
         \<lparr>filter_ptr = Some (old @ [(i, msk)]), filter_count = filter_count F + 1\<rparr>))"

lemma strchr_shorter: "strchr s c = Some t \<Longrightarrow> length (tl t) < length s"
  by (induction s c rule: strchr.induct) (auto split: if_splits)

text \<open>The option \<open>--filter=id:mask[:id:mask]...\<close>: None is the exit with status 1.\<close>

function filter_option ::
  "(nat \<Rightarrow> bool) \<Rightarrow> u32 \<times> u32 \<Rightarrow> cstr \<Rightarrow> cstr \<times> filters \<Rightarrow> (cstr \<times> filters) option" where
  "filter_option realloc junk ptr (t, F) =
     (let i = strtoul 0 ptr in
      case strchr ptr CHR '':'' of None \<Rightarrow> None
      | Some p1 \<Rightarrow>
          let msk = strtoul 0 (tl p1);
              (_, t1, F1) = add_filter realloc junk i msk F
          in case strchr (tl p1) CHR '':'' of None \<Rightarrow> Some (t @ t1, F1)
             | Some p2 \<Rightarrow> filter_option realloc junk (tl p2) (t @ t1, F1))"
  by pat_completeness auto
termination
  by (relation "measure (\<lambda>(_, _, s, _). length s)") (auto dest!: strchr_shorter)

declare filter_option.simps [simp del]

subsection \<open>candump: command line\<close>

record dump_opts =
  do_family :: int
  do_type :: int
  do_proto :: int
  do_daemon :: bool
  do_out :: "cstr option"
  do_silent :: bool
  do_filters :: filters

definition dump_opts0 :: dump_opts where
  "dump_opts0 =
     \<lparr>do_family = PF_CAN, do_type = SOCK_RAW, do_proto = CAN_RAW, do_daemon = False, do_out = None,
      do_silent = False, do_filters = filters0\<rparr>"

definition FILTER_OPTION :: optcode where "FILTER_OPTION = OptN 257"

definition dump_longopts :: "longopt list" where
  "dump_longopts =
     [\<lparr>lo_name = ''help'', lo_arg = False, lo_val = Opt CHR ''h''\<rparr>,
      \<lparr>lo_name = ''family'', lo_arg = True, lo_val = Opt CHR ''f''\<rparr>,
      \<lparr>lo_name = ''protocol'', lo_arg = True, lo_val = Opt CHR ''p''\<rparr>,
      \<lparr>lo_name = ''type'', lo_arg = True, lo_val = Opt CHR ''t''\<rparr>,
      \<lparr>lo_name = ''filter'', lo_arg = True, lo_val = FILTER_OPTION\<rparr>,
      \<lparr>lo_name = ''version'', lo_arg = False, lo_val = VERSION_OPTION\<rparr>]"

text \<open>The exit status and the output so far, or the settings and the output.\<close>

definition dump_option ::
  "(nat \<Rightarrow> bool) \<Rightarrow> u32 \<times> u32 \<Rightarrow> cstr \<Rightarrow> optev \<Rightarrow> cstr \<times> dump_opts \<Rightarrow> (int \<times> cstr) + (cstr \<times> dump_opts)" where
  "dump_option realloc junk version e tp =
     (let (code, optarg) = e; (t, p) = tp in
      if code = Opt CHR ''d'' then Inr (t, p\<lparr>do_daemon := True\<rparr>)
      else if code = Opt CHR ''h'' then Inl (0, t)
      else if code = Opt CHR ''f'' then Inr (t, p\<lparr>do_family := sint (strtoul 0 optarg)\<rparr>)
      else if code = Opt CHR ''t'' then Inr (t, p\<lparr>do_type := sint (strtoul 0 optarg)\<rparr>)
      else if code = Opt CHR ''p'' then Inr (t, p\<lparr>do_proto := sint (strtoul 0 optarg)\<rparr>)
      else if code = Opt CHR ''o'' then Inr (t, p\<lparr>do_out := Some optarg\<rparr>)
      else if code = FILTER_OPTION then
        (case filter_option realloc junk optarg (t, do_filters p) of
           None \<Rightarrow> Inl (1, t)
         | Some (t1, F) \<Rightarrow> Inr (t1, p\<lparr>do_filters := F\<rparr>))
      else if code = Opt CHR ''s'' then Inr (t, p\<lparr>do_silent := True\<rparr>)
      else if code = VERSION_OPTION then Inl (0, t @ ''candump '' @ version @ nl)
      else Inr (t, p))"

fun dump_options ::
  "(nat \<Rightarrow> bool) \<Rightarrow> u32 \<times> u32 \<Rightarrow> cstr \<Rightarrow> optev list \<Rightarrow> cstr \<times> dump_opts \<Rightarrow> (int \<times> cstr) + (cstr \<times> dump_opts)" where
  "dump_options realloc junk version [] tp = Inr tp"
| "dump_options realloc junk version (e # es) tp =
     (case dump_option realloc junk version e tp of
        Inl r \<Rightarrow> Inl r
      | Inr tq \<Rightarrow> dump_options realloc junk version es tq)"

definition dump_setup ::
  "can_sys \<Rightarrow> (nat \<Rightarrow> bool) \<Rightarrow> u32 \<times> u32 \<Rightarrow> cstr \<Rightarrow> cstr list \<Rightarrow> (int \<times> cstr) + (cstr \<times> dump_opts)" where
  "dump_setup S realloc junk version args =
     (let (es, ops) = getopt_long ''f:t:p:o:ds'' dump_longopts args in
      case dump_options realloc junk version es ([], dump_opts0) of
        Inl r \<Rightarrow> Inl r
      | Inr (t, p) \<Rightarrow>
          let interface = (case ops of [] \<Rightarrow> ''can0'' | i # _ \<Rightarrow> i);
              t1 = t @ interface_line interface (do_family p) (do_type p) (do_proto p)
          in if \<not> cs_socket S (do_family p) (do_type p) (do_proto p) then Inl (1, t1)
             else if \<not> can_bind S (do_family p) interface then Inl (1, t1)
             else if (case filter_ptr (do_filters p) of
                        None \<Rightarrow> False
                      | Some fs \<Rightarrow> \<not> cs_filter S (take (filter_count (do_filters p)) fs)) then Inl (1, t1)
             else if (case do_out p of None \<Rightarrow> False | Some n \<Rightarrow> \<not> cs_fopen S n) then Inl (1, t1)
             else Inr (t1, p))"

subsection \<open>candump: the line for a frame\<close>

abbreviation BUF_SIZ :: nat where "BUF_SIZ \<equiv> 255"

text \<open>\<open>n += snprintf(buf + n, BUF_SIZ - n, ...)\<close> on the text in \<open>buf\<close> and \<open>n\<close>. Once \<open>n\<close> is
  beyond the buffer, the size wraps to a huge one and the call writes out of bounds.\<close>

definition snprintf_at :: "cstr \<Rightarrow> cstr \<times> nat \<Rightarrow> (cstr \<times> nat) option" where
  "snprintf_at t bn =
     (let (buf, n) = bn in
      if n > BUF_SIZ then None
      else if n = BUF_SIZ then Some (buf, n + length t)
      else Some (take n buf @ take (BUF_SIZ - n - 1) t, n + length t))"

fun dump_bytes :: "nat \<Rightarrow> nat \<Rightarrow> u8 list \<Rightarrow> cstr \<times> nat \<Rightarrow> (cstr \<times> nat) option" where
  "dump_bytes 0 i d bn = Some bn"
| "dump_bytes (Suc k) i d bn =
     (if i < length d
      then Option.bind (snprintf_at (fmt_0x 2 (unat (d ! i)) @ '' '') bn) (dump_bytes k (Suc i) d)
      else None)"

text \<open>The line printed for a frame, None if the data or the buffer is left.\<close>

definition dump_line :: "can_frame \<Rightarrow> cstr option" where
  "dump_line f =
     map_option (\<lambda>(buf, _). buf @ nl)
       (Option.bind
         (snprintf_at (if can_id f AND CAN_EFF_FLAG \<noteq> 0
                       then ''<0x'' @ fmt_0x 8 (unat (can_id f AND CAN_EFF_MASK)) @ ''> ''
                       else ''<0x'' @ fmt_0x 3 (unat (can_id f AND CAN_SFF_MASK)) @ ''> '') ([], 0)) (\<lambda>b1.
        Option.bind (snprintf_at (''['' @ fmt_u (unat (can_dlc f)) @ ''] '') b1) (\<lambda>b2.
        Option.bind (dump_bytes (unat (can_dlc f)) 0 (data f) b2) (\<lambda>b3.
          if can_id f AND CAN_RTR_FLAG \<noteq> 0 then snprintf_at ''remote request'' b3 else Some b3))))"

subsection \<open>candump: the loop\<close>

text \<open>The answers of \<open>fflush\<close>: no broken pipe, or a broken pipe after which the file is opened
  again, with the answer to the next flush, or cannot be.\<close>

datatype flush = FlushDone | Reopened flush | ReopenFailed

datatype flush_end = Flushed | FlushExit | FlushNull

text \<open>Opening again needs the name of the file; the standard output has none.\<close>

fun flush_loop :: "cstr option \<Rightarrow> flush \<Rightarrow> flush_end" where
  "flush_loop optout FlushDone = Flushed"
| "flush_loop optout (Reopened a) = (if optout = None then FlushNull else flush_loop optout a)"
| "flush_loop optout ReopenFailed = (if optout = None then FlushNull else FlushExit)"

text \<open>
  What happens to the program while it waits in \<open>read\<close>: a whole frame, with the answers of
  the flush and of the write of \<open>canecho\<close>; a failing or a short read; the signals it handles.
  A handled signal does not end the \<open>read\<close>.
\<close>

datatype can_input =
    Frame can_frame flush bool
  | ReadFail
  | ReadShort
  | SigTerm
  | SigTstp

record dump_run =
  dr_running :: bool
  dr_count :: u32
  dr_out :: cstr
  dr_file :: cstr
  dr_echoed :: "can_frame list"

datatype dump_state = Waiting dump_run | DumpExit int dump_run | DumpKilled | DumpFault

definition dump_print :: "dump_opts \<Rightarrow> cstr \<Rightarrow> dump_run \<Rightarrow> dump_run" where
  "dump_print p line r =
     (if do_out p = None then r\<lparr>dr_out := dr_out r @ line\<rparr> else r\<lparr>dr_file := dr_file r @ line\<rparr>)"

definition loop_test :: "dump_run \<Rightarrow> dump_state" where
  "loop_test r = (if dr_running r then Waiting r else DumpExit 0 r)"

definition show_frame :: "dump_opts \<Rightarrow> can_frame \<Rightarrow> flush \<Rightarrow> dump_run \<Rightarrow> dump_state" where
  "show_frame p f fl r =
     (if do_silent p then loop_test r
      else case dump_line f of
             None \<Rightarrow> DumpFault
           | Some line \<Rightarrow>
               let r1 = dump_print p line r in
               (case flush_loop (do_out p) fl of
                  Flushed \<Rightarrow> loop_test r1
                | FlushExit \<Rightarrow> DumpExit 1 r1
                | FlushNull \<Rightarrow> DumpFault))"

definition dump_signal :: "dump_opts \<Rightarrow> can_input \<Rightarrow> dump_run \<Rightarrow> dump_state" where
  "dump_signal p i r =
     (if do_daemon p then (if i = SigTerm then DumpKilled else Waiting r)
      else if i = SigTerm then Waiting (r\<lparr>dr_running := False\<rparr>)
      else Waiting (r\<lparr>dr_out := dr_out r @ ''Have received '' @ fmt_u (unat (dr_count r)) @ '' can frames!'' @ nl\<rparr>))"

fun dump_step :: "dump_opts \<Rightarrow> can_input \<Rightarrow> dump_run \<Rightarrow> dump_state" where
  "dump_step p (Frame f fl w) r = show_frame p f fl (r\<lparr>dr_count := dr_count r + 1\<rparr>)"
| "dump_step p ReadFail r = DumpExit 1 r"
| "dump_step p ReadShort r = DumpExit 2 r"
| "dump_step p i r = dump_signal p i r"

text \<open>\<open>canecho\<close> first writes the frame back with identifier \<open>0x111\<close>.\<close>

fun echo_step :: "dump_opts \<Rightarrow> can_input \<Rightarrow> dump_run \<Rightarrow> dump_state" where
  "echo_step p (Frame f fl w) r =
     (let r1 = r\<lparr>dr_count := dr_count r + 1\<rparr> in
      if \<not> w then DumpExit 0 (r1\<lparr>dr_out := dr_out r1 @ ''Please specify a more long delay time!'' @ nl\<rparr>)
      else show_frame p f fl (r1\<lparr>dr_echoed := dr_echoed r1 @ [f\<lparr>can_id := 0x111\<rparr>]\<rparr>))"
| "echo_step p ReadFail r = DumpExit 1 r"
| "echo_step p ReadShort r = DumpExit 2 r"
| "echo_step p i r = dump_signal p i r"

fun dump_loop ::
  "(can_input \<Rightarrow> dump_run \<Rightarrow> dump_state) \<Rightarrow> can_input list \<Rightarrow> dump_state \<Rightarrow> dump_state" where
  "dump_loop step (i # is) (Waiting r) = dump_loop step is (step i r)"
| "dump_loop step _ st = st"

definition dump_run0 :: "cstr \<Rightarrow> dump_run" where
  "dump_run0 t = \<lparr>dr_running = True, dr_count = 0, dr_out = t, dr_file = [], dr_echoed = []\<rparr>"

definition candump ::
  "can_sys \<Rightarrow> (nat \<Rightarrow> bool) \<Rightarrow> u32 \<times> u32 \<Rightarrow> cstr \<Rightarrow> cstr list \<Rightarrow> can_input list \<Rightarrow> dump_state" where
  "candump S realloc junk version args inputs =
     (case dump_setup S realloc junk version args of
        Inl (status, t) \<Rightarrow> DumpExit status (dump_run0 t)
      | Inr (t, p) \<Rightarrow> dump_loop (dump_step p) inputs (Waiting (dump_run0 t)))"

text \<open>The set-up of \<open>canecho\<close> is that of \<open>candump\<close>, to the letter.\<close>

definition canecho ::
  "can_sys \<Rightarrow> (nat \<Rightarrow> bool) \<Rightarrow> u32 \<times> u32 \<Rightarrow> cstr \<Rightarrow> cstr list \<Rightarrow> can_input list \<Rightarrow> dump_state" where
  "canecho S realloc junk version args inputs =
     (case dump_setup S realloc junk version args of
        Inl (status, t) \<Rightarrow> DumpExit status (dump_run0 t)
      | Inr (t, p) \<Rightarrow> dump_loop (echo_step p) inputs (Waiting (dump_run0 t)))"

subsection \<open>The frame that is sent\<close>

text \<open>Frames the kernel hands out: at most eight bytes are counted, all eight are there.\<close>

definition frame_ok :: "can_frame \<Rightarrow> bool" where
  "frame_ok f \<longleftrightarrow> unat (can_dlc f) \<le> 8 \<and> length (data f) = 8"

lemma fill_data_spec:
  "n \<le> 7 \<Longrightarrow> length d = 8 \<Longrightarrow>
   fill_data msg n d =
     (let bs = map (\<lambda>a. ucast (strtoul 0 a)) (take (8 - n) msg) in
      (n + length bs, take n d @ bs @ drop (n + length bs) d))"
proof (induction msg arbitrary: n d)
  case (Cons a msg)
  let ?d = "d[n := ucast (strtoul 0 a)]"
  have len: "length ?d = 8" using Cons.prems by simp
  have t: "take (Suc n) ?d = take n d @ [ucast (strtoul 0 a)]"
    using Cons.prems by (simp add: take_Suc_conv_app_nth)
  have dr: "drop (Suc n + k) ?d = drop (Suc n + k) d" for k
    using Cons.prems by (simp add: drop_update_cancel)
  show ?case
  proof (cases "Suc n = 8")
    case True
    then have "n = 7" by simp
    then show ?thesis using Cons.prems t len by (simp add: Let_def take_update_cancel) 
  next
    case False
    then have "8 - n = Suc (8 - Suc n)" using Cons.prems by simp
    then show ?thesis
      using Cons.IH [of "Suc n" ?d] False Cons.prems t dr by (simp add: Let_def)
  qed
qed simp

lemma send_frame_data:
  "can_dlc (send_frame p msg) = of_nat (min 8 (length msg)) \<and>
   take (min 8 (length msg)) (data (send_frame p msg)) = map (\<lambda>a. ucast (strtoul 0 a)) (take 8 msg) \<and>
   length (data (send_frame p msg)) = 8"
  using fill_data_spec [of 0 "replicate 8 0" msg]
  by (simp add: send_frame_def Let_def min_def split: prod.splits)

lemma send_frame_ok: "frame_ok (send_frame p msg)"
  using send_frame_data [of p msg] by (simp add: frame_ok_def unat_of_nat min_def)

lemma mask_id_sff: "(i AND CAN_SFF_MASK) AND CAN_EFF_FLAG = 0" "(i AND CAN_SFF_MASK) AND CAN_RTR_FLAG = 0"
  by (simp_all add: can_consts and.assoc)

lemma mask_id_fields:
  "mask_id x i AND CAN_EFF_FLAG = (if x then CAN_EFF_FLAG else 0)"
  "mask_id x i AND CAN_RTR_FLAG = 0"
  "mask_id x i AND (if x then CAN_EFF_MASK else CAN_SFF_MASK) = i AND (if x then CAN_EFF_MASK else CAN_SFF_MASK)"
  by (simp_all add: mask_id_def can_consts bit.conj_disj_distrib2 and.assoc)

subsection \<open>The line that is printed\<close>

definition byte_text :: "u8 \<Rightarrow> cstr" where
  "byte_text b = fmt_0x 2 (unat b) @ '' ''"

definition id_text :: "u32 \<Rightarrow> cstr" where
  "id_text i =
     (if i AND CAN_EFF_FLAG \<noteq> 0 then ''<0x'' @ fmt_0x 8 (unat (i AND CAN_EFF_MASK)) @ ''> ''
      else ''<0x'' @ fmt_0x 3 (unat (i AND CAN_SFF_MASK)) @ ''> '')"

definition line_text :: "can_frame \<Rightarrow> cstr" where
  "line_text f =
     id_text (can_id f) @ ''['' @ fmt_u (unat (can_dlc f)) @ ''] '' @
     concat (map byte_text (take (unat (can_dlc f)) (data f))) @
     (if can_id f AND CAN_RTR_FLAG \<noteq> 0 then ''remote request'' else []) @ nl"

lemma length_byte_text [simp]: "length (byte_text b) = 3"
  using length_fmt_0x [of 2 "unat b"] unat_mod_le [of b] by (simp add: byte_text_def)

lemma length_bytes [simp]: "length (concat (map byte_text bs)) = 3 * length bs"
  by (induction bs) simp_all

lemma masked_less: "unat (i AND CAN_EFF_MASK) < 16 ^ 8" "unat (i AND CAN_SFF_MASK) < 16 ^ 3"
proof -
  have "i AND CAN_EFF_MASK \<le> CAN_EFF_MASK" "i AND CAN_SFF_MASK \<le> CAN_SFF_MASK"
    by (simp_all add: word_and_le1)
  then show "unat (i AND CAN_EFF_MASK) < 16 ^ 8" "unat (i AND CAN_SFF_MASK) < 16 ^ 3"
    by (simp_all add: word_le_nat_alt can_consts)
qed

lemma length_id_text: "length (id_text i) = (if i AND CAN_EFF_FLAG \<noteq> 0 then 13 else 8)"
  using length_fmt_0x [OF _ masked_less(1) [of i]] length_fmt_0x [OF _ masked_less(2) [of i]]
  by (simp add: id_text_def)

lemma fmt_u_digit: "n < 10 \<Longrightarrow> fmt_u n = [digit_char n]"
  by (simp add: fmt_u_def fmt_base_def digits_of.simps [of 10 n])

lemma snprintf_at_fits:
  "length buf + length t < BUF_SIZ \<Longrightarrow> snprintf_at t (buf, length buf) = Some (buf @ t, length (buf @ t))"
  by (simp add: snprintf_at_def)

lemma dump_bytes_fits:
  "i + k \<le> length d \<Longrightarrow> length buf + 3 * k < BUF_SIZ \<Longrightarrow>
   dump_bytes k i d (buf, length buf) =
     (let t = buf @ concat (map byte_text (take k (drop i d))) in Some (t, length t))"
proof (induction k arbitrary: i buf)
  case (Suc k)
  have s: "snprintf_at (byte_text (d ! i)) (buf, length buf) = Some (buf @ byte_text (d ! i), length (buf @ byte_text (d ! i)))"
    using Suc.prems by (intro snprintf_at_fits) simp
  have "take (Suc k) (drop i d) = d ! i # take k (drop (Suc i) d)"
    using Suc.prems by (simp add: take_Suc_conv_app_nth Cons_nth_drop_Suc [symmetric])
  moreover have "dump_bytes (Suc k) i d bn = Option.bind (snprintf_at (byte_text (d ! i)) bn) (dump_bytes k (Suc i) d)" for bn
    using Suc.prems by (simp add: byte_text_def)
  ultimately show ?case
    using Suc.IH [of "Suc i" "buf @ byte_text (d ! i)"] Suc.prems s
    by (simp add: Let_def del: dump_bytes.simps)
qed simp

lemma dump_line_text:
  assumes "frame_ok f"
  shows "dump_line f = Some (line_text f)"
proof -
  let ?n = "unat (can_dlc f)" and ?i = "id_text (can_id f)"
  have n: "?n \<le> 8" "length (data f) = 8" using assms by (simp_all add: frame_ok_def)
  have li: "length ?i \<le> 13" by (simp add: length_id_text)
  let ?d = "''['' @ fmt_u ?n @ ''] ''"
  have ld: "length ?d = 4" using n by (simp add: fmt_u_digit)
  have 1: "snprintf_at ?i ([], 0) = Some (?i, length ?i)"
    using snprintf_at_fits [of "[]" ?i] li by (simp)
  have 2: "snprintf_at ?d (?i, length ?i) = Some (?i @ ?d, length (?i @ ?d))"
    using snprintf_at_fits [of ?i ?d] li ld by (simp)
  let ?b = "?i @ ?d @ concat (map byte_text (take ?n (data f)))"
  have 3: "dump_bytes ?n 0 (data f) (?i @ ?d, length (?i @ ?d)) = Some (?b, length ?b)"
    using dump_bytes_fits [of 0 ?n "data f" "?i @ ?d"] n li ld by (simp add: Let_def)
  have 4: "snprintf_at ''remote request'' (?b, length ?b) = Some (?b @ ''remote request'', length (?b @ ''remote request''))"
    using n li ld by (intro snprintf_at_fits) (simp)
  show ?thesis
    unfolding dump_line_def id_text_def [symmetric] 1 bind.simps 2 3 4 by (simp add: line_text_def)
qed

text \<open>What a line tells of a frame.\<close>

definition frame_view :: "can_frame \<Rightarrow> bool \<times> u32 \<times> u8 list \<times> bool" where
  "frame_view f =
     (can_id f AND CAN_EFF_FLAG \<noteq> 0,
      can_id f AND (if can_id f AND CAN_EFF_FLAG \<noteq> 0 then CAN_EFF_MASK else CAN_SFF_MASK),
      take (unat (can_dlc f)) (data f),
      can_id f AND CAN_RTR_FLAG \<noteq> 0)"

lemma id_text_kind:
  assumes "id_text i @ s = id_text j @ t"
  shows "(i AND CAN_EFF_FLAG \<noteq> 0) = (j AND CAN_EFF_FLAG \<noteq> 0)"
proof -
  have long: "digit_val ((id_text k @ u) ! 6) < 16" if "k AND CAN_EFF_FLAG \<noteq> 0" for k u
  proof -
    have l: "length (fmt_0x 8 (unat (k AND CAN_EFF_MASK))) = 8" by (rule length_fmt_0x [OF _ masked_less(1)]) simp
    then have "fmt_0x 8 (unat (k AND CAN_EFF_MASK)) ! 3 \<in> set (fmt_0x 8 (unat (k AND CAN_EFF_MASK)))" by simp
    then have "digit_val (fmt_0x 8 (unat (k AND CAN_EFF_MASK)) ! 3) < 16" by (rule fmt_0x_digit)
    then show ?thesis using that l by (simp add: id_text_def nth_append)
  qed
  have short: "digit_val ((id_text k @ u) ! 6) = 99" if "k AND CAN_EFF_FLAG = 0" for k u
  proof -
    have "length (fmt_0x 3 (unat (k AND CAN_SFF_MASK))) = 3" by (rule length_fmt_0x [OF _ masked_less(2)]) simp
    then show ?thesis using that by (simp add: id_text_def nth_append digit_val_def)
  qed
  show ?thesis using assms long [of i s] long [of j t] short [of i s] short [of j t] by fastforce
qed

lemma id_text_inj:
  assumes "id_text i @ s = id_text j @ t"
  shows "s = t" "i AND (if i AND CAN_EFF_FLAG \<noteq> 0 then CAN_EFF_MASK else CAN_SFF_MASK) =
    j AND (if j AND CAN_EFF_FLAG \<noteq> 0 then CAN_EFF_MASK else CAN_SFF_MASK)"
proof -
  note k = id_text_kind [OF assms]
  then have "length (id_text i) = length (id_text j)" by (simp add: length_id_text)
  then have e: "id_text i = id_text j" and "s = t" using assms by simp_all
  then show "s = t" by simp
  show "i AND (if i AND CAN_EFF_FLAG \<noteq> 0 then CAN_EFF_MASK else CAN_SFF_MASK) =
      j AND (if j AND CAN_EFF_FLAG \<noteq> 0 then CAN_EFF_MASK else CAN_SFF_MASK)"
    using e k fmt_0x_inj unfolding id_text_def
    by (auto split: if_splits simp: word_unat_eq_iff)
qed

lemma byte_text_inj: "byte_text a = byte_text b \<Longrightarrow> a = b"
  using fmt_0x_inj [of 2 "unat a" "unat b"] by (simp add: byte_text_def word_unat_eq_iff)

lemma bytes_inj:
  "length as = length bs \<Longrightarrow> concat (map byte_text as) @ s = concat (map byte_text bs) @ t \<Longrightarrow> as = bs \<and> s = t"
proof (induction as bs rule: list_induct2)
  case (Cons a as b bs)
  then have "byte_text a = byte_text b" "concat (map byte_text as) @ s = concat (map byte_text bs) @ t"
    by simp_all
  then show ?case using Cons.IH byte_text_inj by blast
qed simp

lemma line_text_inj:
  assumes "frame_ok f" and "frame_ok g" and "line_text f = line_text g"
  shows "frame_view f = frame_view g"
proof -
  let ?m = "unat (can_dlc f)" and ?n = "unat (can_dlc g)"
  have ok: "?m \<le> 8" "?n \<le> 8" "length (data f) = 8" "length (data g) = 8"
    using assms(1,2) by (simp_all add: frame_ok_def)
  let ?r = "\<lambda>f. if can_id f AND CAN_RTR_FLAG \<noteq> 0 then ''remote request'' else []"
  have l: "id_text (can_id h) @ ''['' @ fmt_u (unat (can_dlc h)) @ ''] '' @
      concat (map byte_text (take (unat (can_dlc h)) (data h))) @ ?r h @ nl = line_text h" for h
    by (simp add: line_text_def)
  note eq = assms(3) [folded l]
  note i = id_text_kind [OF eq] id_text_inj [OF eq]
  have d: "digit_char ?m = digit_char ?n" and rest: "concat (map byte_text (take ?m (data f))) @ ?r f @ nl =
      concat (map byte_text (take ?n (data g))) @ ?r g @ nl"
    using i(2) ok by (simp_all add: fmt_u_digit)
  have "?m = ?n" using arg_cong [OF d, of digit_val] ok by simp
  then have "take ?m (data f) = take ?n (data g) \<and> ?r f @ nl = ?r g @ nl"
    using bytes_inj [OF _ rest] ok by simp
  then show ?thesis using i(1,3) by (auto simp: frame_view_def split: if_splits)
qed

lemma send_frame_view:
  "frame_view (send_frame p msg) =
     (so_extended p, so_id p AND (if so_extended p then CAN_EFF_MASK else CAN_SFF_MASK),
      map (\<lambda>a. ucast (strtoul 0 a)) (take 8 msg), so_rtr p)"
proof -
  let ?f = "send_frame p msg" and ?i = "mask_id (so_extended p) (so_id p)"
  let ?m = "if so_extended p then CAN_EFF_MASK else CAN_SFF_MASK"
  note m = mask_id_fields [of "so_extended p" "so_id p"]
  have i: "can_id ?f = (if so_rtr p then ?i OR CAN_RTR_FLAG else ?i)"
    by (simp add: send_frame_def Let_def split: prod.splits)
  have c: "CAN_RTR_FLAG AND CAN_EFF_FLAG = 0" "CAN_RTR_FLAG AND ?m = 0" "CAN_EFF_FLAG \<noteq> 0" "CAN_RTR_FLAG \<noteq> 0"
    by (simp_all add: can_consts)
  have e: "can_id ?f AND CAN_EFF_FLAG = (if so_extended p then CAN_EFF_FLAG else 0)"
    using c(1) m(1) by (cases "so_rtr p"; cases "so_extended p") (simp_all add: i bit.conj_disj_distrib2)
  have r: "can_id ?f AND CAN_RTR_FLAG = (if so_rtr p then CAN_RTR_FLAG else 0)"
    using m(2) by (simp add: i bit.conj_disj_distrib2)
  have k: "can_id ?f AND ?m = so_id p AND ?m"
    using c(2) m(3) by (cases "so_rtr p"; cases "so_extended p") (simp_all add: i bit.conj_disj_distrib2)
  have "unat (can_dlc ?f) = min 8 (length msg)"
    using send_frame_data [of p msg] by (simp add: unat_of_nat min_def)
  then show ?thesis
    using send_frame_data [of p msg] e r k c(3,4) by (cases "so_extended p") (simp_all add: frame_view_def)
qed

subsection \<open>Runs\<close>

lemma send_loop_all:
  "(\<And>i. k \<le> i \<Longrightarrow> i < k + n \<Longrightarrow> wr i) \<Longrightarrow> send_loop wr f n k = (replicate n f, [])"
  by (induction n arbitrary: k) (auto simp: apfst_def map_prod_def)

text \<open>The filter list as an argument of the option.\<close>

fun filter_text :: "(u32 \<times> u32) list \<Rightarrow> cstr" where
  "filter_text [] = []"
| "filter_text [(i, k)] = ''0x'' @ fmt_base 16 (unat i) @ '':0x'' @ fmt_base 16 (unat k)"
| "filter_text ((i, k) # fs) = ''0x'' @ fmt_base 16 (unat i) @ '':0x'' @ fmt_base 16 (unat k) @ '':'' @ filter_text fs"

lemma colon_not_hex: "CHR '':'' \<notin> set (''0x'' @ fmt_base 16 n)"
proof
  assume "CHR '':'' \<in> set (''0x'' @ fmt_base 16 n)"
  then have "digit_val CHR '':'' < 16" using fmt_base_digits(1) [of 16 _ n] by auto
  then show False by (simp add: digit_val_def)
qed

lemma hex_field:
  fixes w :: u32
  shows "strtoul 0 (''0x'' @ fmt_base 16 (unat w) @ '':'' @ s) = w" "strtoul 0 (''0x'' @ fmt_base 16 (unat w)) = w"
    "strchr (''0x'' @ fmt_base 16 (unat w) @ '':'' @ s) CHR '':'' = Some ('':'' @ s)"
    "strchr (''0x'' @ fmt_base 16 (unat w)) CHR '':'' = None"
  using strtoul_hex [of "'':'' @ s" "unat w"] strtoul_hex [of "[]" "unat w"] unat_mod_le [of w]
    strchr_append [OF colon_not_hex, of "unat w" s] colon_not_hex [of "unat w"]
  by (simp_all add: digit_val_def strchr_None)

lemma add_filter_ok:
  assumes "\<forall>n. realloc n" and "filter_count F = length (case filter_ptr F of None \<Rightarrow> [] | Some xs \<Rightarrow> xs)"
  shows "\<exists>t. add_filter realloc junk i k F =
    (0, t, \<lparr>filter_ptr = Some ((case filter_ptr F of None \<Rightarrow> [] | Some xs \<Rightarrow> xs) @ [(i, k)]),
            filter_count = filter_count F + 1\<rparr>)"
  using assms by (auto simp: add_filter_def split: option.splits)

lemma filter_option_text:
  assumes "\<forall>n. realloc n"
  shows "fs \<noteq> [] \<Longrightarrow> filter_count F = length (case filter_ptr F of None \<Rightarrow> [] | Some xs \<Rightarrow> xs) \<Longrightarrow>
    \<exists>t'. filter_option realloc junk (filter_text fs) (t, F) =
      Some (t', \<lparr>filter_ptr = Some ((case filter_ptr F of None \<Rightarrow> [] | Some xs \<Rightarrow> xs) @ fs),
                 filter_count = filter_count F + length fs\<rparr>)"
proof (induction fs arbitrary: t F rule: filter_text.induct)
  case (2 i k)
  obtain t1 where "add_filter realloc junk i k F =
    (0, t1, \<lparr>filter_ptr = Some ((case filter_ptr F of None \<Rightarrow> [] | Some xs \<Rightarrow> xs) @ [(i, k)]),
            filter_count = filter_count F + 1\<rparr>)"
    using add_filter_ok [OF assms "2.prems"(2)] by blast
  then show ?case
    using hex_field(1,3) [of i "''0x'' @ fmt_base 16 (unat k)"] hex_field(2,4) [of k]
    by (subst filter_option.simps) simp
next
  case (3 i k f fs)
  let ?F = "\<lparr>filter_ptr = Some ((case filter_ptr F of None \<Rightarrow> [] | Some xs \<Rightarrow> xs) @ [(i, k)]),
            filter_count = filter_count F + 1\<rparr>"
  obtain t1 where a: "add_filter realloc junk i k F = (0, t1, ?F)"
    using add_filter_ok [OF assms "3.prems"(2)] by blast
  have "filter_option realloc junk (filter_text ((i, k) # f # fs)) (t, F) =
      filter_option realloc junk (filter_text (f # fs)) (t @ t1, ?F)"
    using hex_field(1,3) [of i "''0x'' @ fmt_base 16 (unat k) @ '':'' @ filter_text (f # fs)"]
      hex_field(1,3) [of k "filter_text (f # fs)"] a
    by (subst filter_option.simps) simp
  then show ?case using "3.IH" [of ?F "t @ t1"] "3.prems"(2) by (simp split: option.splits)
qed simp

text \<open>\<open>canecho\<close> with all writes answered behaves as \<open>candump\<close>, but for what it writes back.\<close>

fun without_echo :: "dump_state \<Rightarrow> dump_state" where
  "without_echo (Waiting r) = Waiting (r\<lparr>dr_echoed := []\<rparr>)"
| "without_echo (DumpExit x r) = DumpExit x (r\<lparr>dr_echoed := []\<rparr>)"
| "without_echo st = st"

fun written :: "can_input \<Rightarrow> bool" where
  "written (Frame f fl w) = w"
| "written _ = True"

lemma show_frame_echo:
  "without_echo (show_frame p f fl (r\<lparr>dr_echoed := es\<rparr>)) = without_echo (show_frame p f fl r)"
  by (auto simp: show_frame_def loop_test_def dump_print_def Let_def split: option.splits flush_end.splits)

lemma step_echo:
  assumes "written i" and "r\<lparr>dr_echoed := []\<rparr> = q\<lparr>dr_echoed := []\<rparr>"
  shows "without_echo (echo_step p i r) = without_echo (dump_step p i q)"
proof -
  have q: "q = r\<lparr>dr_echoed := dr_echoed q\<rparr>"
    and c: "q\<lparr>dr_count := dr_count q + 1\<rparr> = r\<lparr>dr_count := dr_count r + 1, dr_echoed := dr_echoed q\<rparr>"
    using assms(2) by (cases r; cases q; simp)+
  show ?thesis
  proof (cases i)
    case (Frame f fl w)
    then show ?thesis
      using assms(1) show_frame_echo [of p f fl _ "r\<lparr>dr_count := dr_count r + 1\<rparr>"]
      by (simp add: Let_def c)
  qed (use assms(2) in \<open>subst q; simp add: dump_signal_def\<close>)+
qed

lemma loop_echo:
  "list_all written is \<Longrightarrow> without_echo st = without_echo st' \<Longrightarrow>
   without_echo (dump_loop (echo_step p) is st) = without_echo (dump_loop (dump_step p) is st')"
proof (induction "is" arbitrary: st st')
  case (Cons i "is")
  show ?case
  proof (cases st)
    case (Waiting r)
    then obtain q where q: "st' = Waiting q" "r\<lparr>dr_echoed := []\<rparr> = q\<lparr>dr_echoed := []\<rparr>"
      using Cons.prems(2) by (cases st') auto
    then show ?thesis
      using Waiting Cons.IH [OF _ step_echo [OF _ q(2)]] Cons.prems(1) by simp
  qed (use Cons.prems(2) in \<open>cases st'; simp\<close>)+
qed simp

subsection \<open>Properties\<close>

text \<open>C16: \<open>cansend\<close> writes the frame it was asked for as often as it was asked to: the identifier
  masked to 29 or 11 bits, the flags of the options, and the first eight bytes given; and
  \<open>candump\<close> prints that frame.\<close>

theorem cansend_sends:
  assumes "getopt_long ''hf:t:p:vi:l:d:re'' send_longopts args = (es, interface # msg)"
    and "send_options version es (send_opts0 delay0) = Inr p"
    and "cs_socket S (so_family p) (so_type p) (so_proto p)" and "length interface < IFNAMSIZ"
    and "can_bind S (so_family p) interface" and "\<And>i. i < unat (so_loop p) \<Longrightarrow> wr i"
  shows "\<exists>t. cansend S version delay0 wr args = SendExit 0 t (replicate (unat (so_loop p)) (send_frame p msg)) \<and>
    frame_view (send_frame p msg) =
      (so_extended p, so_id p AND (if so_extended p then CAN_EFF_MASK else CAN_SFF_MASK),
       map (\<lambda>a. ucast (strtoul 0 a)) (take 8 msg), so_rtr p) \<and>
    dump_line (send_frame p msg) = Some (line_text (send_frame p msg))"
proof -
  let ?f = "send_frame p msg"
  have "send_loop wr ?f (unat (so_loop p)) 0 = (replicate (unat (so_loop p)) ?f, [])"
    using assms(6) by (intro send_loop_all) simp
  then have "\<exists>t. cansend S version delay0 wr args = SendExit 0 t (replicate (unat (so_loop p)) ?f)"
    using assms(1-5) by (simp add: cansend_def Let_def)
  then show ?thesis using send_frame_view dump_line_text [OF send_frame_ok] by blast
qed

text \<open>C15: the line \<open>candump\<close> prints for a frame is never cut off, and two frames have the same line
  exactly if they have the same kind, identifier, data and remote flag.\<close>

theorem dump_line_faithful:
  assumes "frame_ok f" and "frame_ok g"
  shows "dump_line f \<noteq> None \<and> (dump_line f = dump_line g \<longleftrightarrow> frame_view f = frame_view g)"
proof -
  have "line_text f = line_text g" if v: "frame_view f = frame_view g"
  proof -
    have "length (take (unat (can_dlc f)) (data f)) = length (take (unat (can_dlc g)) (data g))"
      using v by (simp add: frame_view_def)
    then have "unat (can_dlc f) = unat (can_dlc g)" using assms by (simp add: frame_ok_def)
    then show ?thesis using v by (auto simp: frame_view_def line_text_def id_text_def split: if_splits)
  qed
  then show ?thesis using line_text_inj [OF assms] dump_line_text assms by auto
qed

text \<open>Any list of filters, written as \<open>id:mask:...\<close>, is read back by the option of \<open>candump\<close> as
  that list.\<close>

lemma filter_option_roundtrip:
  assumes "fs \<noteq> []" and "\<forall>n. realloc n"
  shows "\<exists>t. filter_option realloc junk (filter_text fs) ([], filters0) =
    Some (t, \<lparr>filter_ptr = Some fs, filter_count = length fs\<rparr>)"
  using filter_option_text [OF assms(2,1), of filters0 junk "[]"] by (simp add: filters0_def)

text \<open>\<open>canecho\<close> prints, counts and ends like \<open>candump\<close> on the same inputs, as long as what it
  writes back is taken.\<close>

lemma canecho_like_candump:
  assumes "list_all written inputs"
  shows "without_echo (canecho S realloc junk version args inputs) =
    without_echo (candump S realloc junk version args inputs)"
  using loop_echo [OF assms refl] by (simp add: canecho_def candump_def split: sum.splits prod.splits)

text \<open>A system on which everything works.\<close>

definition working_can :: can_sys where
  "working_can = \<lparr>cs_socket = (\<lambda>_ _ _. True), cs_ifindex = (\<lambda>_. Some 3), cs_bind = (\<lambda>_ _. True),
     cs_filter = (\<lambda>_. True), cs_fopen = (\<lambda>_. True)\<rparr>"

theorem cansend_sends_witness:
  "\<exists>t f. cansend working_can ''1.0'' 0 (\<lambda>_. True) [''can0'', ''-e'', ''-l'', ''2'', ''17''] = SendExit 0 t [f, f] \<and>
     frame_view f = (True, 1, [17], False)"
proof -
  have g: "getopt_long ''hf:t:p:vi:l:d:re'' send_longopts [''can0'', ''-e'', ''-l'', ''2'', ''17''] =
      ([(Opt CHR ''e'', []), (Opt CHR ''l'', ''2'')], [''can0'', ''17''])"
    by (simp add: clib_simps send_longopts_def)
  let ?p = "(send_opts0 0)\<lparr>so_extended := True, so_loop := 2\<rparr>"
  have s: "send_options ''1.0'' [(Opt CHR ''e'', []), (Opt CHR ''l'', ''2'')] (send_opts0 0) = Inr ?p"
    by (simp add: send_option_def clib_simps)
  have n: "strtoul 0 ''17'' = 17" by (simp add: clib_simps)
  have 1: "cs_socket working_can (so_family ?p) (so_type ?p) (so_proto ?p)" "length ''can0'' < IFNAMSIZ"
    "can_bind working_can (so_family ?p) ''can0''"
    by (simp_all add: working_can_def can_bind_def IFNAMSIZ_def)
  have l: "replicate (unat (so_loop ?p)) f = [f, f]" for f :: can_frame
    by simp (simp add: numeral_2_eq_2)
  have v: "so_extended ?p" "so_id ?p AND CAN_EFF_MASK = 1" "\<not> so_rtr ?p"
    by (simp_all add: send_opts0_def can_consts)
  note cansend_sends [OF g s 1, of "\<lambda>_. True", unfolded l]
  then show ?thesis using v n by auto
qed

theorem dump_line_faithful_witness:
  "dump_line \<lparr>can_id = 0x123, can_dlc = 1, data = [7, 0, 0, 0, 0, 0, 0, 0]\<rparr> \<noteq>
   dump_line \<lparr>can_id = 0x123, can_dlc = 1, data = [8, 0, 0, 0, 0, 0, 0, 0]\<rparr>"
  using dump_line_faithful [of "\<lparr>can_id = 0x123, can_dlc = 1, data = [7, 0, 0, 0, 0, 0, 0, 0]\<rparr>"
      "\<lparr>can_id = 0x123, can_dlc = 1, data = [8, 0, 0, 0, 0, 0, 0, 0]\<rparr>"]
  by (simp add: frame_ok_def frame_view_def)

end
