(* ===== verification/CanSequence.thy ===== *)
theory CanSequence
  imports Can
begin

text \<open>
  The link test \<^verbatim>\<open>src/can_test/utilities/cansequence.c\<close>: one side sends frames whose first
  byte counts up, the other side checks that it does. Both loops are steps on the answers of
  \<open>write\<close>, \<open>read\<close> and \<open>poll\<close> and on the signals that end the program.
\<close>

subsection \<open>Command line\<close>

abbreviation CAN_ID_DEFAULT :: u32 where "CAN_ID_DEFAULT \<equiv> 2"

record seq_opts =
  qo_extended :: bool
  qo_poll :: bool
  qo_quit :: bool
  qo_receive :: bool
  qo_verbose :: int
  qo_loop :: u32
  qo_infinite :: bool
  qo_id :: u32

definition seq_opts0 :: seq_opts where
  "seq_opts0 =
     \<lparr>qo_extended = False, qo_poll = False, qo_quit = False, qo_receive = False, qo_verbose = 0,
      qo_loop = 1, qo_infinite = True, qo_id = CAN_ID_DEFAULT\<rparr>"

definition seq_longopts :: "longopt list" where
  "seq_longopts =
     [\<lparr>lo_name = ''extended'', lo_arg = False, lo_val = Opt CHR ''e''\<rparr>,
      \<lparr>lo_name = ''help'', lo_arg = False, lo_val = Opt CHR ''h''\<rparr>,
      \<lparr>lo_name = ''poll'', lo_arg = False, lo_val = Opt CHR ''p''\<rparr>,
      \<lparr>lo_name = ''quit'', lo_arg = False, lo_val = Opt CHR ''q''\<rparr>,
      \<lparr>lo_name = ''receive'', lo_arg = False, lo_val = Opt CHR ''r''\<rparr>,
      \<lparr>lo_name = ''verbose'', lo_arg = False, lo_val = Opt CHR ''v''\<rparr>,
      \<lparr>lo_name = ''version'', lo_arg = False, lo_val = VERSION_OPTION\<rparr>,
      \<lparr>lo_name = ''identifier'', lo_arg = True, lo_val = Opt CHR ''i''\<rparr>,
      \<lparr>lo_name = ''loop'', lo_arg = True, lo_val = Opt CHR ''l''\<rparr>]"

definition seq_option :: "cstr \<Rightarrow> optev \<Rightarrow> seq_opts \<Rightarrow> cstr + seq_opts" where
  "seq_option version e p =
     (let (code, optarg) = e in
      if code = Opt CHR ''e'' then Inr (p\<lparr>qo_extended := True\<rparr>)
      else if code = Opt CHR ''h'' then Inl []
      else if code = Opt CHR ''p'' then Inr (p\<lparr>qo_poll := True\<rparr>)
      else if code = Opt CHR ''q'' then Inr (p\<lparr>qo_quit := True\<rparr>)
      else if code = Opt CHR ''r'' then Inr (p\<lparr>qo_receive := True\<rparr>)
      else if code = Opt CHR ''v'' then Inr (p\<lparr>qo_verbose := qo_verbose p + 1\<rparr>)
      else if code = VERSION_OPTION then Inl (''cansequence '' @ version @ nl)
      else if code = Opt CHR ''l'' then Inr (p\<lparr>qo_loop := strtoul 0 optarg, qo_infinite := False\<rparr>)
      else if code = Opt CHR ''i'' then Inr (p\<lparr>qo_id := strtoul 0 optarg\<rparr>)
      else Inr p)"

fun seq_options :: "cstr \<Rightarrow> optev list \<Rightarrow> seq_opts \<Rightarrow> cstr + seq_opts" where
  "seq_options version [] p = Inr p"
| "seq_options version (e # es) p =
     (case seq_option version e p of Inl t \<Rightarrow> Inl t | Inr q \<Rightarrow> seq_options version es q)"

text \<open>The filter of the receiver, whose identifier is also the one that is sent.\<close>

definition seq_filter :: "seq_opts \<Rightarrow> u32 \<times> u32" where
  "seq_filter p = (mask_id (qo_extended p) (qo_id p), if qo_extended p then CAN_EFF_MASK else CAN_SFF_MASK)"

subsection \<open>The loops\<close>

record seq_run =
  sq_running :: bool
  sq_loop :: u32
  sq_frame :: can_frame
  sq_sequence :: u8
  sq_init :: bool
  sq_wrap :: int
  sq_out :: cstr
  sq_sent :: "can_frame list"

datatype seq_state = SeqBusy seq_run | SeqExit int seq_run

text \<open>The test \<open>(infinite || loopcount--) && running\<close>, and what the sender prints after it.\<close>

definition seq_head :: "seq_opts \<Rightarrow> seq_run \<Rightarrow> seq_state" where
  "seq_head p r =
     (if (qo_infinite p \<or> sq_loop r \<noteq> 0) \<and> sq_running r
      then let r1 = (if qo_infinite p then r else r\<lparr>sq_loop := sq_loop r - 1\<rparr>) in
           SeqBusy (if \<not> qo_receive p \<and> qo_verbose p > 1
                    then r1\<lparr>sq_out := sq_out r1 @ ''sending frame. sequence number: '' @
                                      fmt_u (unat (sq_sequence r1)) @ nl\<rparr>
                    else r1)
      else SeqExit 0 r)"

definition seq_next :: "seq_opts \<Rightarrow> seq_run \<Rightarrow> seq_run" where
  "seq_next p r =
     (let r1 = r\<lparr>sq_sequence := sq_sequence r + 1\<rparr> in
      if qo_verbose p \<noteq> 0 \<and> sq_sequence r1 = 0
      then r1\<lparr>sq_out := sq_out r1 @ ''sequence wrap around ('' @ fmt_d (sq_wrap r1) @ '')'' @ nl,
              sq_wrap := sq_wrap r1 + 1\<rparr>
      else r1)"

text \<open>\<open>NoBufs ok\<close> is a full buffer with the answer of \<open>poll\<close>, which is asked only with \<open>-p\<close>.
  Every error of \<open>poll\<close> ends the program: \<open>errno\<close> is compared with \<open>-EINTR\<close>.\<close>

datatype send_input = Wrote | NoBufs bool | WriteIntr | WriteFail | SendTerm

fun send_step :: "seq_opts \<Rightarrow> send_input \<Rightarrow> seq_run \<Rightarrow> seq_state" where
  "send_step p Wrote r =
     (let f = sq_frame r;
          r1 = r\<lparr>sq_sent := sq_sent r @ [f], sq_frame := f\<lparr>data := (data f)[0 := data f ! 0 + 1]\<rparr>\<rparr>
      in seq_head p (seq_next p r1))"
| "send_step p (NoBufs ok) r = (if qo_poll p \<and> ok then SeqBusy r else SeqExit 1 r)"
| "send_step p WriteIntr r = SeqBusy r"
| "send_step p WriteFail r = SeqExit 1 r"
| "send_step p SendTerm r = SeqBusy (r\<lparr>sq_running := False\<rparr>)"

datatype recv_input = Got can_frame | RecvFail | RecvTerm

definition recv_check :: "seq_opts \<Rightarrow> u8 \<Rightarrow> seq_run \<Rightarrow> seq_run + seq_run" where
  "recv_check p b r =
     (if b \<noteq> sq_sequence r
      then let r1 = r\<lparr>sq_out := sq_out r @ ''received wrong sequence count. expected: '' @
                        fmt_u (unat (sq_sequence r)) @ '', got: '' @ fmt_u (unat b) @ nl\<rparr>
           in if qo_quit p then Inl r1 else Inr (r1\<lparr>sq_sequence := b\<rparr>)
      else Inr r)"

fun recv_step :: "seq_opts \<Rightarrow> recv_input \<Rightarrow> seq_run \<Rightarrow> seq_state" where
  "recv_step p (Got f) r =
     (let b = data f ! 0;
          r1 = r\<lparr>sq_frame := f\<rparr>;
          r2 = (if sq_init r1 then r1\<lparr>sq_init := False, sq_sequence := b\<rparr> else r1);
          r3 = (if qo_verbose p > 1
                then r2\<lparr>sq_out := sq_out r2 @ ''received frame. sequence number: '' @ fmt_u (unat b) @ nl\<rparr>
                else r2)
      in case recv_check p b r3 of
           Inl r4 \<Rightarrow> SeqExit 1 r4
         | Inr r4 \<Rightarrow> seq_head p (seq_next p r4))"
| "recv_step p RecvFail r = SeqExit 1 r"
| "recv_step p RecvTerm r = SeqBusy (r\<lparr>sq_running := False\<rparr>)"

fun seq_loop :: "('i \<Rightarrow> seq_run \<Rightarrow> seq_state) \<Rightarrow> 'i list \<Rightarrow> seq_state \<Rightarrow> seq_state" where
  "seq_loop step (i # is) (SeqBusy r) = seq_loop step is (step i r)"
| "seq_loop step _ st = st"

subsection \<open>The program\<close>

definition seq_run0 :: "seq_opts \<Rightarrow> cstr \<Rightarrow> seq_run" where
  "seq_run0 p t =
     \<lparr>sq_running = True, sq_loop = qo_loop p,
      sq_frame = \<lparr>can_id = fst (seq_filter p), can_dlc = 1, data = replicate 8 0\<rparr>,
      sq_sequence = 0, sq_init = True, sq_wrap = 0, sq_out = t, sq_sent = []\<rparr>"

definition seq_setup :: "can_sys \<Rightarrow> cstr \<Rightarrow> cstr list \<Rightarrow> (int \<times> cstr) + (seq_opts \<times> cstr)" where
  "seq_setup S version args =
     (let (es, ops) = getopt_long ''ehpqrvi:l:'' seq_longopts args in
      case seq_options version es seq_opts0 of
        Inl t \<Rightarrow> Inl (0, t)
      | Inr p \<Rightarrow>
          let interface = (case ops of [] \<Rightarrow> ''can0'' | i # _ \<Rightarrow> i);
              t = interface_line interface PF_CAN SOCK_RAW CAN_RAW
          in if \<not> cs_socket S PF_CAN SOCK_RAW CAN_RAW then Inl (1, t)
             else case cs_ifindex S (take IFNAMSIZ interface) of
                    None \<Rightarrow> Inl (1, t)
                  | Some i \<Rightarrow>
                      if \<not> cs_filter S [] then Inl (1, t)
                      else if \<not> cs_bind S PF_CAN i then Inl (1, t)
                      else if qo_receive p \<and> \<not> cs_filter S [seq_filter p] then Inl (1, t)
                      else Inr (p, t))"

definition cansequence :: "can_sys \<Rightarrow> cstr \<Rightarrow> cstr list \<Rightarrow> send_input list \<Rightarrow> recv_input list \<Rightarrow> seq_state" where
  "cansequence S version args writes reads =
     (case seq_setup S version args of
        Inl (status, t) \<Rightarrow> SeqExit status (seq_run0 seq_opts0 t)
      | Inr (p, t) \<Rightarrow>
          if qo_receive p then seq_loop (recv_step p) reads (seq_head p (seq_run0 p t))
          else seq_loop (send_step p) writes (seq_head p (seq_run0 p t)))"

subsection \<open>What the sender sends\<close>

fun seq_final :: "seq_state \<Rightarrow> seq_run" where
  "seq_final (SeqBusy r) = r"
| "seq_final (SeqExit x r) = r"

definition seq_frame :: "seq_opts \<Rightarrow> nat \<Rightarrow> can_frame" where
  "seq_frame p k = \<lparr>can_id = fst (seq_filter p), can_dlc = 1, data = (replicate 8 0)[0 := of_nat k]\<rparr>"

definition counting :: "seq_opts \<Rightarrow> seq_run \<Rightarrow> bool" where
  "counting p r \<longleftrightarrow>
     (let n = length (sq_sent r) in
      sq_sent r = map (seq_frame p) [0..<n] \<and> sq_frame r = seq_frame p n \<and> sq_sequence r = of_nat n)"

lemma seq_head_final:
  "sq_sent (seq_final (seq_head p r)) = sq_sent r \<and> sq_frame (seq_final (seq_head p r)) = sq_frame r \<and>
   sq_sequence (seq_final (seq_head p r)) = sq_sequence r"
  by (simp add: seq_head_def Let_def)

lemma seq_next_fields:
  "sq_sent (seq_next p r) = sq_sent r \<and> sq_frame (seq_next p r) = sq_frame r \<and>
   sq_sequence (seq_next p r) = sq_sequence r + 1 \<and> sq_loop (seq_next p r) = sq_loop r \<and>
   sq_running (seq_next p r) = sq_running r \<and> sq_init (seq_next p r) = sq_init r"
  by (simp add: seq_next_def Let_def)

lemma counting_cong:
  "sq_sent r = sq_sent q \<Longrightarrow> sq_frame r = sq_frame q \<Longrightarrow> sq_sequence r = sq_sequence q \<Longrightarrow> counting p r = counting p q"
  by (simp add: counting_def)

lemma counting_head: "counting p (seq_final (seq_head p r)) = counting p r"
  by (rule counting_cong) (simp_all add: seq_head_final)

lemma seq_frame_next:
  "(seq_frame p n)\<lparr>data := (data (seq_frame p n))[0 := data (seq_frame p n) ! 0 + 1]\<rparr> = seq_frame p (Suc n)"
  by (simp add: seq_frame_def add.commute)

lemma counting_step:
  assumes "counting p r"
  shows "counting p (seq_final (send_step p i r))"
proof (cases i)
  case Wrote
  let ?n = "length (sq_sent r)" let ?f = "sq_frame r"
  let ?r = "r\<lparr>sq_sent := sq_sent r @ [?f], sq_frame := ?f\<lparr>data := (data ?f)[0 := data ?f ! 0 + 1]\<rparr>\<rparr>"
  have s: "sq_sent r = map (seq_frame p) [0..<?n]" and f: "?f = seq_frame p ?n" and q: "sq_sequence r = of_nat ?n"
    using assms by (simp_all add: counting_def Let_def)
  have n: "sq_frame ?r = seq_frame p (Suc ?n)" using f seq_frame_next [of p ?n] by simp
  have "sq_sent ?r = map (seq_frame p) [0..<Suc ?n]" by (simp add: f) (rule s)
  then have "counting p (seq_next p ?r)"
    using n q seq_next_fields [of p ?r] by (simp add: counting_def Let_def add.commute)
  then show ?thesis
    using Wrote by (simp add: Let_def counting_head)
qed (use assms in \<open>auto simp: counting_def\<close>)

lemma counting_loop:
  "counting p (seq_final st) \<Longrightarrow> counting p (seq_final (seq_loop (send_step p) ws st))"
proof (induction "send_step p" ws st rule: seq_loop.induct)
  case (1 i "is" r)
  then show ?case using counting_step by simp
qed simp_all

lemma counting_start: "counting p (seq_final (seq_head p (seq_run0 p t)))"
proof -
  have "(replicate 8 0)[0 := 0] = replicate 8 (0 :: u8)" by (simp add: numeral_eq_Suc)
  then show ?thesis unfolding counting_head by (simp add: counting_def seq_run0_def seq_frame_def)
qed

subsection \<open>What the receiver accepts\<close>

fun in_order :: "u8 \<Rightarrow> u8 list \<Rightarrow> bool" where
  "in_order s [] = True"
| "in_order s (b # bs) = (b = s \<and> in_order (s + 1) bs)"

lemma in_order_append:
  "in_order s (xs @ ys) \<longleftrightarrow> in_order s xs \<and> in_order (s + of_nat (length xs)) ys"
  by (induction xs arbitrary: s) (auto simp: algebra_simps)

lemma in_order_upt: "in_order s (map of_nat [i..<j]) \<longleftrightarrow> (i < j \<longrightarrow> s = of_nat i)"
proof (induction "j - i" arbitrary: s i)
  case (Suc d)
  then have "i < j" "d = j - Suc i" by simp_all
  then show ?case
    using Suc.hyps(1) [of "Suc i" "s + 1"] by (auto simp: upt_conv_Cons add.commute)
qed simp

lemma recv_step_next:
  assumes "qo_quit q" and "qo_infinite q" and "sq_running r"
  shows "if sq_init r \<or> data f ! 0 = sq_sequence r
    then \<exists>r'. recv_step q (Got f) r = SeqBusy r' \<and> sq_running r' \<and> \<not> sq_init r' \<and> sq_sequence r' = data f ! 0 + 1
    else \<exists>r'. recv_step q (Got f) r = SeqExit 1 r'"
  using assms by (auto simp: recv_check_def seq_head_def seq_next_def Let_def)

lemma recv_loop_in_order:
  assumes "qo_quit q" and "qo_infinite q"
  shows "sq_running r \<Longrightarrow> \<not> sq_init r \<Longrightarrow>
    \<exists>r'. seq_loop (recv_step q) (map Got fs) (SeqBusy r) =
      (if in_order (sq_sequence r) (map (\<lambda>f. data f ! 0) fs) then SeqBusy r' else SeqExit 1 r')"
proof (induction fs arbitrary: r)
  case (Cons f fs)
  show ?case
  proof (cases "data f ! 0 = sq_sequence r")
    case True
    then obtain r' where "recv_step q (Got f) r = SeqBusy r'" "sq_running r'" "\<not> sq_init r'" "sq_sequence r' = data f ! 0 + 1"
      using recv_step_next [OF assms Cons.prems(1), of f] by auto
    then show ?thesis using Cons.IH [of r'] True by (simp del: recv_step.simps)
  next
    case False
    then obtain r' where "recv_step q (Got f) r = SeqExit 1 r'"
      using recv_step_next [OF assms Cons.prems(1), of f] Cons.prems(2) by auto
    then show ?thesis using False by (simp del: recv_step.simps)
  qed
qed simp

subsection \<open>Properties\<close>


lemma send_loop_count:
  assumes "\<not> qo_infinite p"
  shows "unat (sq_loop r) = n \<Longrightarrow> sq_running r \<Longrightarrow>
    \<exists>r'. seq_loop (send_step p) (replicate n Wrote) (seq_head p r) = SeqExit 0 r' \<and>
      length (sq_sent r') = length (sq_sent r) + n"
proof (induction n arbitrary: r)
  case 0
  then have "sq_loop r = 0" by (simp add: unat_eq_zero)
  then show ?case using assms by (simp add: seq_head_def)
next
  case (Suc n)
  let ?s = "seq_head p r" let ?q = "seq_final ?s" let ?f = "sq_frame ?q"
  let ?r = "seq_next p (?q\<lparr>sq_sent := sq_sent ?q @ [?f], sq_frame := ?f\<lparr>data := (data ?f)[0 := data ?f ! 0 + 1]\<rparr>\<rparr>)"
  have "sq_loop r \<noteq> 0" using Suc.prems(1) by auto
  then have busy: "?s = SeqBusy ?q" and q: "sq_loop ?q = sq_loop r - 1" "sq_running ?q" "sq_sent ?q = sq_sent r"
    using assms Suc.prems(2) by (auto simp: seq_head_def Let_def)
  have "unat (sq_loop ?r) = n" "sq_running ?r"
    using q Suc.prems(1) \<open>sq_loop r \<noteq> 0\<close> seq_next_fields
    by (simp_all add: unat_minus_one)
  from Suc.IH [OF this] obtain r' where "seq_loop (send_step p) (replicate n Wrote) (seq_head p ?r) = SeqExit 0 r'"
      "length (sq_sent r') = length (sq_sent ?r) + n" by blast
  moreover have "seq_loop (send_step p) (replicate (Suc n) Wrote) ?s = seq_loop (send_step p) (replicate n Wrote) (seq_head p ?r)"
    by (subst busy) (simp add: Let_def)
  ultimately show ?case using q(3) seq_next_fields by simp
qed

text \<open>C18: with \<open>--loop=COUNT\<close> the sender ends after exactly \<open>COUNT\<close> frames, whose first bytes count
  up from 0 modulo 256.\<close>

theorem cansequence_sends_count:
  assumes "seq_setup S version args = Inr (p, t)" and "\<not> qo_receive p" and "\<not> qo_infinite p"
  shows "\<exists>r. cansequence S version args (replicate (unat (qo_loop p)) Wrote) reads = SeqExit 0 r \<and>
    sq_sent r = map (seq_frame p) [0..<unat (qo_loop p)]"
proof -
  let ?st = "cansequence S version args (replicate (unat (qo_loop p)) Wrote) reads"
  have run: "?st = seq_loop (send_step p) (replicate (unat (qo_loop p)) Wrote) (seq_head p (seq_run0 p t))"
    using assms(1,2) by (simp add: cansequence_def)
  obtain r where r: "?st = SeqExit 0 r" "length (sq_sent r) = unat (qo_loop p)"
    using send_loop_count [OF assms(3), of "seq_run0 p t" "unat (qo_loop p)"] run by (auto simp: seq_run0_def)
  have "counting p (seq_final ?st)" unfolding run by (rule counting_loop [OF counting_start])
  then show ?thesis using r by (simp add: counting_def Let_def)
qed

theorem cansequence_sends_count_witness:
  "\<exists>r. cansequence working_can ''1.0'' [''--loop=2''] [Wrote, Wrote] [] = SeqExit 0 r \<and>
     map (\<lambda>f. data f ! 0) (sq_sent r) = [0, 1]"
proof -
  let ?p = "seq_opts0\<lparr>qo_loop := 2, qo_infinite := False\<rparr>"
  have g: "getopt_long ''ehpqrvi:l:'' seq_longopts [''--loop=2''] = ([(Opt CHR ''l'', ''2'')], [])"
    by (simp add: clib_simps seq_longopts_def)
  have "seq_options ''1.0'' [(Opt CHR ''l'', ''2'')] seq_opts0 = Inr ?p"
    by (simp add: seq_option_def clib_simps VERSION_OPTION_def)
  then have s: "seq_setup working_can ''1.0'' [''--loop=2''] =
      Inr (?p, interface_line ''can0'' PF_CAN SOCK_RAW CAN_RAW)"
    by (simp only: seq_setup_def g) (simp add: working_can_def seq_opts0_def)
  have l: "replicate (unat (qo_loop ?p)) Wrote = [Wrote, Wrote]" "[0..<unat (qo_loop ?p)] = [0, 1]"
    by (simp_all add: upt_rec, simp add: numeral_2_eq_2)
  show ?thesis
    using cansequence_sends_count [OF s, of "[]"] unfolding l
    by (auto simp: seq_opts0_def seq_frame_def)
qed


end
