(* ===== verification/CanConfig.thy ===== *)
theory CanConfig
  imports CLib
begin

text \<open>
  The configuration tool \<^verbatim>\<open>src/can_test/utilities/canconfig.c\<close>: its reading of the command
  line with \<open>argc\<close> and \<open>argv\<close>, and its commands on a CAN device. The functions of
  \<^verbatim>\<open>libsocketcan\<close> are a parameter that acts on a state of the device. A command ends with
  the state and output it leaves, with an exit, or with a fault when it reads past the
  arguments. Messages to the error stream are left out; the floating point numbers of the
  sample point are exact.
\<close>

subsection \<open>The device\<close>

record can_bittiming =
  bt_bitrate :: u32
  bt_sample_point :: u32
  bt_tq :: u32
  bt_prop_seg :: u32
  bt_phase_seg1 :: u32
  bt_phase_seg2 :: u32
  bt_sjw :: u32
  bt_brp :: u32

record can_bittiming_const =
  btc_name :: cstr
  btc_tseg1_min :: u32
  btc_tseg1_max :: u32
  btc_tseg2_min :: u32
  btc_tseg2_max :: u32
  btc_sjw_max :: u32
  btc_brp_min :: u32
  btc_brp_max :: u32
  btc_brp_inc :: u32

record can_ctrlmode =
  cm_mask :: u32
  cm_flags :: u32

text \<open>None and False stand for a negative result.\<close>

record 'd can_lib =
  can_get_bittiming :: "cstr \<Rightarrow> 'd \<Rightarrow> can_bittiming option"
  can_set_bitrate :: "cstr \<Rightarrow> u32 \<Rightarrow> 'd \<Rightarrow> bool \<times> 'd"
  can_set_bitrate_samplepoint :: "cstr \<Rightarrow> u32 \<Rightarrow> u32 \<Rightarrow> 'd \<Rightarrow> bool \<times> 'd"
  can_set_bittiming :: "cstr \<Rightarrow> can_bittiming \<Rightarrow> 'd \<Rightarrow> bool \<times> 'd"
  can_get_bittiming_const :: "cstr \<Rightarrow> 'd \<Rightarrow> can_bittiming_const option"
  can_get_state :: "cstr \<Rightarrow> 'd \<Rightarrow> int option"
  can_get_clock :: "cstr \<Rightarrow> 'd \<Rightarrow> u32 option"
  can_do_restart :: "cstr \<Rightarrow> 'd \<Rightarrow> bool \<times> 'd"
  can_do_start :: "cstr \<Rightarrow> 'd \<Rightarrow> bool \<times> 'd"
  can_do_stop :: "cstr \<Rightarrow> 'd \<Rightarrow> bool \<times> 'd"
  can_get_ctrlmode :: "cstr \<Rightarrow> 'd \<Rightarrow> can_ctrlmode option"
  can_set_ctrlmode :: "cstr \<Rightarrow> can_ctrlmode \<Rightarrow> 'd \<Rightarrow> bool \<times> 'd"
  can_get_restart_ms :: "cstr \<Rightarrow> 'd \<Rightarrow> u32 option"
  can_set_restart_ms :: "cstr \<Rightarrow> u32 \<Rightarrow> 'd \<Rightarrow> bool \<times> 'd"
  can_get_berr_counter :: "cstr \<Rightarrow> 'd \<Rightarrow> (u16 \<times> u16) option"

datatype 'd conf = CDone 'd cstr | CExit int 'd cstr | CFault

fun and_then :: "'d conf \<Rightarrow> ('d \<Rightarrow> cstr \<Rightarrow> 'd conf) \<Rightarrow> 'd conf" where
  "and_then (CDone d t) k = k d t"
| "and_then c k = c"

subsection \<open>Reading arguments\<close>

datatype 'a args = ArgOk 'a | ArgExit | ArgFault

text \<open>\<open>NEXT_ARG\<close> and the access to \<open>*argv\<close> after it: the parameter, if \<open>argc\<close> allows one.\<close>

definition next_arg :: "int \<Rightarrow> cstr list \<Rightarrow> cstr args" where
  "next_arg argc argv =
     (if argc - 1 < 0 then ArgExit else case tl argv of [] \<Rightarrow> ArgFault | v # _ \<Rightarrow> ArgOk v)"

definition find_str :: "cstr list \<Rightarrow> cstr \<Rightarrow> bool" where
  "find_str haystack needle \<longleftrightarrow> needle \<in> set haystack"

definition config_keywords :: "cstr list" where
  "config_keywords =
     [''baudrate'', ''bitrate'', ''bittiming'', ''ctrlmode'', ''restart'', ''start'', ''stop'',
      ''restart-ms'', ''state'', ''clockfreq'', ''bittiming-const'', ''berr-counter'']"

text \<open>\<open>show_only\<close>: the command has no argument, or the next word is a command.\<close>

definition show_only :: "int \<Rightarrow> cstr list \<Rightarrow> bool args" where
  "show_only argc argv =
     (if argc > 0 then (case tl argv of [] \<Rightarrow> ArgFault | a # _ \<Rightarrow> ArgOk (find_str config_keywords a))
      else ArgOk True)"

text \<open>\<open>strtod\<close> for decimal numbers, as an exact value.\<close>

definition scan_exponent :: "cstr \<Rightarrow> int" where
  "scan_exponent s =
     (case s of [] \<Rightarrow> 0
      | c # t \<Rightarrow>
          if c = CHR ''e'' \<or> c = CHR ''E''
          then let (neg, r) = scan_sign t; e = int (digits_value 10 (map digit_val (takeWhile isdigit r)))
               in if neg then - e else e
          else 0)"

definition strtod :: "cstr \<Rightarrow> rat" where
  "strtod s =
     (let (neg, s2) = scan_sign (dropWhile isspace s);
          ip = takeWhile isdigit s2; r = dropWhile isdigit s2;
          (fp, r2) = (if r \<noteq> [] \<and> hd r = CHR ''.'' then (takeWhile isdigit (tl r), dropWhile isdigit (tl r)) else ([], r));
          v = of_nat (digits_value 10 (map digit_val (ip @ fp)));
          e = scan_exponent r2 - int (length fp);
          x = (if e \<ge> 0 then v * 10 ^ nat e else v / 10 ^ nat (- e))
      in if ip = [] \<and> fp = [] then 0 else if neg then - x else x)"

definition sample_point_arg :: "cstr \<Rightarrow> u32" where
  "sample_point_arg s =
     (let x = strtod s * 1000 in of_int (if x < 0 then - \<lfloor>- x\<rfloor> else \<lfloor>x\<rfloor>))"

function bitrate_args :: "int \<Rightarrow> cstr list \<Rightarrow> u32 \<times> u32 \<Rightarrow> (u32 \<times> u32) args" where
  "bitrate_args argc argv (bitrate, sample_point) =
     (if argc > 0 then
        (case argv of [] \<Rightarrow> ArgFault
         | a # _ \<Rightarrow>
             if a = ''bitrate'' then
               (case next_arg argc argv of
                  ArgOk v \<Rightarrow> bitrate_args (argc - 2) (drop 2 argv) (strtoul 0 v, sample_point)
                | ArgExit \<Rightarrow> ArgExit | ArgFault \<Rightarrow> ArgFault)
             else if a = ''sample-point'' then
               (case next_arg argc argv of
                  ArgOk v \<Rightarrow> bitrate_args (argc - 2) (drop 2 argv) (bitrate, sample_point_arg v)
                | ArgExit \<Rightarrow> ArgExit | ArgFault \<Rightarrow> ArgFault)
             else bitrate_args (argc - 1) (tl argv) (bitrate, sample_point))
      else ArgOk (bitrate, sample_point))"
  by pat_completeness auto
termination
  by (relation "measure (\<lambda>(argc, _, _). nat argc)") auto

text \<open>The setter for a word of \<open>bittiming\<close>, and whether it counts as a required parameter.\<close>

definition bittiming_word :: "cstr \<Rightarrow> (nat \<times> (u32 \<Rightarrow> can_bittiming \<Rightarrow> can_bittiming)) option" where
  "bittiming_word a =
     (if a = ''tq'' then Some (1, \<lambda>v. bt_tq_update (\<lambda>_. v))
      else if a = ''prop-seg'' then Some (1, \<lambda>v. bt_prop_seg_update (\<lambda>_. v))
      else if a = ''phase-seg1'' then Some (1, \<lambda>v. bt_phase_seg1_update (\<lambda>_. v))
      else if a = ''phase-seg2'' then Some (1, \<lambda>v. bt_phase_seg2_update (\<lambda>_. v))
      else if a = ''sjw'' then Some (0, \<lambda>v. bt_sjw_update (\<lambda>_. v))
      else None)"

text \<open>After a parameter the loop goes on with the parameter itself as the next word.\<close>

function bittiming_args :: "int \<Rightarrow> cstr list \<Rightarrow> can_bittiming \<times> nat \<Rightarrow> (can_bittiming \<times> nat) args" where
  "bittiming_args argc argv (bt, bt_par_count) =
     (if argc > 0 then
        (case argv of [] \<Rightarrow> ArgFault
         | a # _ \<Rightarrow>
             (case bittiming_word a of
                Some (n, put) \<Rightarrow>
                  (case next_arg argc argv of
                     ArgOk v \<Rightarrow> bittiming_args (argc - 1) (tl argv) (put (strtoul 0 v) bt, bt_par_count + n)
                   | ArgExit \<Rightarrow> ArgExit | ArgFault \<Rightarrow> ArgFault)
              | None \<Rightarrow> bittiming_args (argc - 1) (tl argv) (bt, bt_par_count)))
      else ArgOk (bt, bt_par_count))"
  by pat_completeness auto
termination
  by (relation "measure (\<lambda>(argc, _, _). nat argc)") auto

definition CAN_CTRLMODE_LOOPBACK :: u32 where "CAN_CTRLMODE_LOOPBACK = 0x01"
definition CAN_CTRLMODE_LISTENONLY :: u32 where "CAN_CTRLMODE_LISTENONLY = 0x02"
definition CAN_CTRLMODE_3_SAMPLES :: u32 where "CAN_CTRLMODE_3_SAMPLES = 0x04"
definition CAN_CTRLMODE_ONE_SHOT :: u32 where "CAN_CTRLMODE_ONE_SHOT = 0x08"
definition CAN_CTRLMODE_BERR_REPORTING :: u32 where "CAN_CTRLMODE_BERR_REPORTING = 0x10"

definition ctrlmode_word :: "cstr \<Rightarrow> u32 option" where
  "ctrlmode_word a =
     (if a = ''loopback'' then Some CAN_CTRLMODE_LOOPBACK
      else if a = ''listen-only'' then Some CAN_CTRLMODE_LISTENONLY
      else if a = ''triple-sampling'' then Some CAN_CTRLMODE_3_SAMPLES
      else if a = ''one-shot'' then Some CAN_CTRLMODE_ONE_SHOT
      else if a = ''berr-reporting'' then Some CAN_CTRLMODE_BERR_REPORTING
      else None)"

text \<open>None is the exit for an argument that is neither \<open>on\<close> nor \<open>off\<close>.\<close>

definition set_ctrlmode :: "cstr \<Rightarrow> u32 \<Rightarrow> can_ctrlmode \<Rightarrow> can_ctrlmode option" where
  "set_ctrlmode arg flags cm =
     (if arg = ''on'' then Some \<lparr>cm_mask = cm_mask cm OR flags, cm_flags = cm_flags cm OR flags\<rparr>
      else if arg \<noteq> ''off'' then None
      else Some (cm\<lparr>cm_mask := cm_mask cm OR flags\<rparr>))"

function ctrlmode_args :: "int \<Rightarrow> cstr list \<Rightarrow> can_ctrlmode \<Rightarrow> can_ctrlmode option args" where
  "ctrlmode_args argc argv cm =
     (if argc > 0 then
        (case argv of [] \<Rightarrow> ArgFault
         | a # _ \<Rightarrow>
             (case ctrlmode_word a of
                Some flags \<Rightarrow>
                  (case next_arg argc argv of
                     ArgOk v \<Rightarrow>
                       (case set_ctrlmode v flags cm of
                          None \<Rightarrow> ArgOk None
                        | Some cm1 \<Rightarrow> ctrlmode_args (argc - 2) (drop 2 argv) cm1)
                   | ArgExit \<Rightarrow> ArgExit | ArgFault \<Rightarrow> ArgFault)
              | None \<Rightarrow> ctrlmode_args (argc - 1) (tl argv) cm))
      else ArgOk (Some cm))"
  by pat_completeness auto
termination
  by (relation "measure (\<lambda>(argc, _, _). nat argc)") auto

declare bitrate_args.simps [simp del] bittiming_args.simps [simp del] ctrlmode_args.simps [simp del]

subsection \<open>Commands\<close>

definition fmt_point :: "u32 \<Rightarrow> cstr" where
  "fmt_point sp = fmt_u (unat sp div 1000) @ ''.'' @ pad0 3 (fmt_u (unat sp mod 1000))"

definition udec :: "u32 \<Rightarrow> cstr" where "udec w = fmt_u (unat w)"

definition do_show_bitrate :: "'d can_lib \<Rightarrow> cstr \<Rightarrow> 'd \<Rightarrow> cstr \<Rightarrow> 'd conf" where
  "do_show_bitrate L name d t =
     (case can_get_bittiming L name d of
        None \<Rightarrow> CExit 1 d t
      | Some bt \<Rightarrow> CDone d (t @ name @ '' bitrate: '' @ udec (bt_bitrate bt) @ '', sample-point: '' @
                              fmt_point (bt_sample_point bt) @ nl))"

definition do_set_bitrate :: "'d can_lib \<Rightarrow> int \<Rightarrow> cstr list \<Rightarrow> cstr \<Rightarrow> 'd \<Rightarrow> cstr \<Rightarrow> 'd conf" where
  "do_set_bitrate L argc argv name d t =
     (case bitrate_args argc argv (0, 0) of
        ArgFault \<Rightarrow> CFault
      | ArgExit \<Rightarrow> CExit 1 d t
      | ArgOk (bitrate, sample_point) \<Rightarrow>
          let (ok, d1) = (if sample_point \<noteq> 0
                          then can_set_bitrate_samplepoint L name bitrate sample_point d
                          else can_set_bitrate L name bitrate d)
          in if ok then CDone d1 t else CExit 1 d1 t)"

text \<open>A command that sets if its next word is not a command, and then shows.\<close>

definition set_and_show ::
  "int \<Rightarrow> cstr list \<Rightarrow> ('d \<Rightarrow> cstr \<Rightarrow> 'd conf) \<Rightarrow> ('d \<Rightarrow> cstr \<Rightarrow> 'd conf) \<Rightarrow> 'd \<Rightarrow> cstr \<Rightarrow> 'd conf" where
  "set_and_show argc argv do_set do_show d t =
     (case show_only argc argv of
        ArgFault \<Rightarrow> CFault
      | ArgExit \<Rightarrow> CExit 1 d t
      | ArgOk b \<Rightarrow> and_then (if b then CDone d t else do_set d t) do_show)"

definition cmd_bitrate :: "'d can_lib \<Rightarrow> int \<Rightarrow> cstr list \<Rightarrow> cstr \<Rightarrow> 'd \<Rightarrow> cstr \<Rightarrow> 'd conf" where
  "cmd_bitrate L argc argv name =
     set_and_show argc argv (do_set_bitrate L argc argv name) (do_show_bitrate L name)"

definition bittiming0 :: can_bittiming where
  "bittiming0 = \<lparr>bt_bitrate = 0, bt_sample_point = 0, bt_tq = 0, bt_prop_seg = 0, bt_phase_seg1 = 0,
     bt_phase_seg2 = 0, bt_sjw = 0, bt_brp = 0\<rparr>"

definition do_set_bittiming :: "'d can_lib \<Rightarrow> int \<Rightarrow> cstr list \<Rightarrow> cstr \<Rightarrow> 'd \<Rightarrow> cstr \<Rightarrow> 'd conf" where
  "do_set_bittiming L argc argv name d t =
     (case bittiming_args argc argv (bittiming0, 0) of
        ArgFault \<Rightarrow> CFault
      | ArgExit \<Rightarrow> CExit 1 d t
      | ArgOk (bt, bt_par_count) \<Rightarrow>
          if bt_par_count < 4 then CExit 1 d t
          else let (ok, d1) = can_set_bittiming L name bt d in if ok then CDone d1 t else CExit 1 d1 t)"

definition do_show_bittiming :: "'d can_lib \<Rightarrow> cstr \<Rightarrow> 'd \<Rightarrow> cstr \<Rightarrow> 'd conf" where
  "do_show_bittiming L name d t =
     (case can_get_bittiming L name d of
        None \<Rightarrow> CExit 1 d t
      | Some bt \<Rightarrow>
          CDone d (t @ name @ '' bittiming:'' @ nl @ tab @ ''tq: '' @ udec (bt_tq bt) @
                   '', prop-seq: '' @ udec (bt_prop_seg bt) @ '' phase-seq1: '' @ udec (bt_phase_seg1 bt) @
                   '' phase-seq2: '' @ udec (bt_phase_seg2 bt) @ '' sjw: '' @ udec (bt_sjw bt) @
                   '', brp: '' @ udec (bt_brp bt) @ nl))"

definition cmd_bittiming :: "'d can_lib \<Rightarrow> int \<Rightarrow> cstr list \<Rightarrow> cstr \<Rightarrow> 'd \<Rightarrow> cstr \<Rightarrow> 'd conf" where
  "cmd_bittiming L argc argv name =
     set_and_show argc argv (do_set_bittiming L argc argv name)
       (\<lambda>d t. and_then (do_show_bittiming L name d t) (do_show_bitrate L name))"

definition do_show_bittiming_const :: "'d can_lib \<Rightarrow> cstr \<Rightarrow> 'd \<Rightarrow> cstr \<Rightarrow> 'd conf" where
  "do_show_bittiming_const L name d t =
     (case can_get_bittiming_const L name d of
        None \<Rightarrow> CExit 1 d t
      | Some btc \<Rightarrow>
          CDone d (t @ name @ '' bittiming-constants: name '' @ btc_name btc @ '','' @ nl @ tab @
                   ''tseg1-min: '' @ udec (btc_tseg1_min btc) @ '', tseg1-max: '' @ udec (btc_tseg1_max btc) @
                   '', tseg2-min: '' @ udec (btc_tseg2_min btc) @ '', tseg2-max: '' @ udec (btc_tseg2_max btc) @
                   '','' @ nl @ tab @ ''sjw-max '' @ udec (btc_sjw_max btc) @ '', brp-min: '' @ udec (btc_brp_min btc) @
                   '', brp-max: '' @ udec (btc_brp_max btc) @ '', brp-inc: '' @ udec (btc_brp_inc btc) @ '','' @ nl))"

definition can_states :: "cstr list" where
  "can_states = [''ERROR-ACTIVE'', ''ERROR-WARNING'', ''ERROR-PASSIVE'', ''BUS-OFF'', ''STOPPED'', ''SLEEPING'']"

definition do_show_state :: "'d can_lib \<Rightarrow> cstr \<Rightarrow> 'd \<Rightarrow> cstr \<Rightarrow> 'd conf" where
  "do_show_state L name d t =
     (case can_get_state L name d of
        None \<Rightarrow> CExit 1 d t
      | Some state \<Rightarrow>
          if state \<ge> 0 \<and> state < int (length can_states)
          then CDone d (t @ name @ '' state: '' @ can_states ! nat state @ nl)
          else CDone d t)"

definition do_show_clockfreq :: "'d can_lib \<Rightarrow> cstr \<Rightarrow> 'd \<Rightarrow> cstr \<Rightarrow> 'd conf" where
  "do_show_clockfreq L name d t =
     (case can_get_clock L name d of
        None \<Rightarrow> CExit 1 d t
      | Some freq \<Rightarrow> CDone d (t @ name @ '' clock freq: '' @ udec freq @ nl))"

definition do_restart :: "'d can_lib \<Rightarrow> cstr \<Rightarrow> 'd \<Rightarrow> cstr \<Rightarrow> 'd conf" where
  "do_restart L name d t =
     (let (ok, d1) = can_do_restart L name d in
      if ok then CDone d1 (t @ name @ '' restarted'' @ nl) else CExit 1 d1 t)"

definition do_start :: "'d can_lib \<Rightarrow> cstr \<Rightarrow> 'd \<Rightarrow> cstr \<Rightarrow> 'd conf" where
  "do_start L name d t =
     (let (ok, d1) = can_do_start L name d in if ok then do_show_state L name d1 t else CExit 1 d1 t)"

definition do_stop :: "'d can_lib \<Rightarrow> cstr \<Rightarrow> 'd \<Rightarrow> cstr \<Rightarrow> 'd conf" where
  "do_stop L name d t =
     (let (ok, d1) = can_do_stop L name d in if ok then do_show_state L name d1 t else CExit 1 d1 t)"

definition print_ctrlmode :: "u32 \<Rightarrow> cstr" where
  "print_ctrlmode flags =
     (let on = (\<lambda>f. if flags AND f \<noteq> 0 then ''ON'' else ''OFF'') in
      ''loopback['' @ on CAN_CTRLMODE_LOOPBACK @ ''], listen-only['' @ on CAN_CTRLMODE_LISTENONLY @
      ''], tripple-sampling['' @ on CAN_CTRLMODE_3_SAMPLES @ ''],one-shot['' @ on CAN_CTRLMODE_ONE_SHOT @
      ''], berr-reporting['' @ on CAN_CTRLMODE_BERR_REPORTING @ '']'' @ nl)"

definition do_show_ctrlmode :: "'d can_lib \<Rightarrow> cstr \<Rightarrow> 'd \<Rightarrow> cstr \<Rightarrow> 'd conf" where
  "do_show_ctrlmode L name d t =
     (case can_get_ctrlmode L name d of
        None \<Rightarrow> CExit 1 d t
      | Some cm \<Rightarrow> CDone d (t @ name @ '' ctrlmode: '' @ print_ctrlmode (cm_flags cm)))"

definition do_set_ctrlmode :: "'d can_lib \<Rightarrow> int \<Rightarrow> cstr list \<Rightarrow> cstr \<Rightarrow> 'd \<Rightarrow> cstr \<Rightarrow> 'd conf" where
  "do_set_ctrlmode L argc argv name d t =
     (case ctrlmode_args argc argv \<lparr>cm_mask = 0, cm_flags = 0\<rparr> of
        ArgFault \<Rightarrow> CFault
      | ArgExit \<Rightarrow> CExit 1 d t
      | ArgOk None \<Rightarrow> CExit 1 d t
      | ArgOk (Some cm) \<Rightarrow>
          (let (ok, d1) = can_set_ctrlmode L name cm d in if ok then CDone d1 t else CExit 1 d1 t))"

definition cmd_ctrlmode :: "'d can_lib \<Rightarrow> int \<Rightarrow> cstr list \<Rightarrow> cstr \<Rightarrow> 'd \<Rightarrow> cstr \<Rightarrow> 'd conf" where
  "cmd_ctrlmode L argc argv name =
     set_and_show argc argv (do_set_ctrlmode L argc argv name) (do_show_ctrlmode L name)"

definition do_show_restart_ms :: "'d can_lib \<Rightarrow> cstr \<Rightarrow> 'd \<Rightarrow> cstr \<Rightarrow> 'd conf" where
  "do_show_restart_ms L name d t =
     (case can_get_restart_ms L name d of
        None \<Rightarrow> CExit 1 d t
      | Some ms \<Rightarrow> CDone d (t @ name @ '' restart-ms: '' @ udec ms @ nl))"

definition do_set_restart_ms :: "'d can_lib \<Rightarrow> cstr list \<Rightarrow> cstr \<Rightarrow> 'd \<Rightarrow> cstr \<Rightarrow> 'd conf" where
  "do_set_restart_ms L argv name d t =
     (case tl argv of [] \<Rightarrow> CFault
      | a # _ \<Rightarrow>
          (let (ok, d1) = can_set_restart_ms L name (strtoul 10 a) d in if ok then CDone d1 t else CExit 1 d1 t))"

definition cmd_restart_ms :: "'d can_lib \<Rightarrow> int \<Rightarrow> cstr list \<Rightarrow> cstr \<Rightarrow> 'd \<Rightarrow> cstr \<Rightarrow> 'd conf" where
  "cmd_restart_ms L argc argv name =
     set_and_show argc argv (do_set_restart_ms L argv name) (do_show_restart_ms L name)"

definition do_show_berr_counter :: "'d can_lib \<Rightarrow> cstr \<Rightarrow> 'd \<Rightarrow> cstr \<Rightarrow> 'd conf" where
  "do_show_berr_counter L name d t =
     (case can_get_ctrlmode L name d of
        None \<Rightarrow> CExit 1 d t
      | Some cm \<Rightarrow>
          if cm_flags cm AND CAN_CTRLMODE_BERR_REPORTING \<noteq> 0
          then (case can_get_berr_counter L name d of
                  None \<Rightarrow> CExit 1 d t
                | Some (txerr, rxerr) \<Rightarrow>
                    CDone d (t @ name @ '' txerr: '' @ fmt_u (unat txerr) @ '' rxerr: '' @ fmt_u (unat rxerr) @ nl))
          else CDone d t)"

subsection \<open>The program\<close>

definition cmd_show_interface :: "'d can_lib \<Rightarrow> cstr \<Rightarrow> 'd \<Rightarrow> cstr \<Rightarrow> 'd conf" where
  "cmd_show_interface L name d t =
     (case fold (\<lambda>show c. and_then c (show L name))
             [do_show_bitrate, do_show_bittiming, do_show_state, do_show_restart_ms, do_show_ctrlmode,
              do_show_clockfreq, do_show_bittiming_const, do_show_berr_counter] (CDone d t) of
        CDone d1 t1 \<Rightarrow> CExit 0 d1 t1
      | c \<Rightarrow> c)"

definition conf_command :: "'d can_lib \<Rightarrow> cstr \<Rightarrow> int \<Rightarrow> cstr list \<Rightarrow> 'd \<Rightarrow> cstr \<Rightarrow> 'd conf" where
  "conf_command L name argc argv d t =
     (let a = hd argv in
      if a = ''baudrate'' then CExit 1 d t
      else if a = ''bitrate'' then cmd_bitrate L argc argv name d t
      else if a = ''bittiming'' then cmd_bittiming L argc argv name d t
      else if a = ''ctrlmode'' then cmd_ctrlmode L argc argv name d t
      else if a = ''restart'' then do_restart L name d t
      else if a = ''start'' then do_start L name d t
      else if a = ''stop'' then do_stop L name d t
      else if a = ''restart-ms'' then cmd_restart_ms L argc argv name d t
      else if a = ''state'' then do_show_state L name d t
      else if a = ''clockfreq'' then do_show_clockfreq L name d t
      else if a = ''bittiming-constants'' then do_show_bittiming_const L name d t
      else if a = ''berr-counter'' then do_show_berr_counter L name d t
      else CDone d t)"

text \<open>Every word is looked at, the parameters of the commands before it included.\<close>

fun conf_loop :: "'d can_lib \<Rightarrow> cstr \<Rightarrow> cstr list \<Rightarrow> 'd \<Rightarrow> cstr \<Rightarrow> 'd conf" where
  "conf_loop L name [] d t = CExit 0 d t"
| "conf_loop L name (a # as) d t =
     and_then (conf_command L name (int (length as)) (a # as) d t) (conf_loop L name as)"

definition conf_main :: "'d can_lib \<Rightarrow> cstr \<Rightarrow> cstr list \<Rightarrow> 'd \<Rightarrow> 'd conf" where
  "conf_main L version argv d =
     (case argv of
        prog # name # rest \<Rightarrow>
          if name = ''--help'' then CExit 1 d []
          else if name = ''--version'' then CExit 0 d (''Version: '' @ version @ nl)
          else if rest = [] then cmd_show_interface L name d []
          else conf_loop L name argv d []
      | _ \<Rightarrow> CExit 1 d [])"

subsection \<open>The arguments are never left\<close>

text \<open>In a command \<open>argc\<close> counts the words after the first one of \<open>argv\<close>.\<close>

definition args_match :: "int \<Rightarrow> cstr list \<Rightarrow> bool" where
  "args_match argc argv \<longleftrightarrow> argc \<le> 0 \<or> length argv = nat argc + 1"

lemma args_match_next:
  assumes "args_match argc argv" and "0 < argc"
  shows "\<exists>a v vs. argv = a # v # vs" "args_match (argc - 1) (tl argv)" "args_match (argc - 2) (drop 2 argv)"
proof -
  have l: "length argv = nat argc + 1" using assms by (simp add: args_match_def)
  then obtain a as where a: "argv = a # as" "length as = nat argc" by (cases argv) auto
  then obtain v vs where v: "as = v # vs" using assms(2) by (cases as) auto
  show "\<exists>a v vs. argv = a # v # vs" using a v by simp
  show "args_match (argc - 1) (tl argv)" "args_match (argc - 2) (drop 2 argv)"
    using l assms(2) a v by (auto simp: args_match_def)
qed

lemma next_arg_ok: "args_match argc argv \<Longrightarrow> 0 < argc \<Longrightarrow> next_arg argc argv = ArgOk (argv ! 1)"
  using args_match_next(1) [of argc argv] by (auto simp: next_arg_def)

lemma bitrate_args_ok: "args_match argc argv \<Longrightarrow> \<exists>r. bitrate_args argc argv acc = ArgOk r"
proof (induction argc argv acc rule: bitrate_args.induct)
  case (1 argc argv bitrate sample_point)
  show ?case
  proof (cases "0 < argc")
    case True
    obtain a as where "argv = a # as" using args_match_next(1) [OF "1.prems" True] by blast
    then show ?thesis
      using 1 True next_arg_ok [OF "1.prems" True] args_match_next(2,3) [OF "1.prems" True]
      by (subst bitrate_args.simps) auto
  qed (subst bitrate_args.simps, simp)
qed

lemma bittiming_args_ok: "args_match argc argv \<Longrightarrow> \<exists>r. bittiming_args argc argv acc = ArgOk r"
proof (induction argc argv acc rule: bittiming_args.induct)
  case (1 argc argv bt n)
  show ?case
  proof (cases "0 < argc")
    case True
    obtain a as where "argv = a # as" using args_match_next(1) [OF "1.prems" True] by blast
    then show ?thesis
      using 1 True next_arg_ok [OF "1.prems" True] args_match_next(2) [OF "1.prems" True]
      by (subst bittiming_args.simps) (auto split: option.splits)
  qed (subst bittiming_args.simps, simp)
qed

lemma ctrlmode_args_ok: "args_match argc argv \<Longrightarrow> \<exists>r. ctrlmode_args argc argv cm = ArgOk r"
proof (induction argc argv cm rule: ctrlmode_args.induct)
  case (1 argc argv cm)
  show ?case
  proof (cases "0 < argc")
    case True
    obtain a as where "argv = a # as" using args_match_next(1) [OF "1.prems" True] by blast
    then show ?thesis
      using 1 True next_arg_ok [OF "1.prems" True] args_match_next(2,3) [OF "1.prems" True]
      by (subst ctrlmode_args.simps) (auto split: option.splits)
  qed (subst ctrlmode_args.simps, simp)
qed

lemma show_only_ok: "args_match argc argv \<Longrightarrow> \<exists>b. show_only argc argv = ArgOk b"
  using args_match_next(1) [of argc argv] by (auto simp: show_only_def)

lemma and_then_no_fault: "c \<noteq> CFault \<Longrightarrow> (\<And>d t. k d t \<noteq> CFault) \<Longrightarrow> and_then c k \<noteq> CFault"
  by (cases c) auto

lemma show_no_fault:
  "do_show_bitrate L name d t \<noteq> CFault" "do_show_bittiming L name d t \<noteq> CFault"
  "do_show_bittiming_const L name d t \<noteq> CFault" "do_show_state L name d t \<noteq> CFault"
  "do_show_clockfreq L name d t \<noteq> CFault" "do_show_ctrlmode L name d t \<noteq> CFault"
  "do_show_restart_ms L name d t \<noteq> CFault" "do_show_berr_counter L name d t \<noteq> CFault"
  "do_restart L name d t \<noteq> CFault" "do_start L name d t \<noteq> CFault" "do_stop L name d t \<noteq> CFault"
  by (auto simp: do_show_bitrate_def do_show_bittiming_def do_show_bittiming_const_def do_show_state_def
      do_show_clockfreq_def do_show_ctrlmode_def do_show_restart_ms_def do_show_berr_counter_def
      do_restart_def do_start_def do_stop_def split: option.splits prod.splits)

lemma set_no_fault:
  assumes "args_match argc argv"
  shows "do_set_bitrate L argc argv name d t \<noteq> CFault" "do_set_bittiming L argc argv name d t \<noteq> CFault"
    "do_set_ctrlmode L argc argv name d t \<noteq> CFault"
  using bitrate_args_ok [OF assms, of "(0, 0)"] bittiming_args_ok [OF assms, of "(bittiming0, 0)"]
    ctrlmode_args_ok [OF assms, of "\<lparr>cm_mask = 0, cm_flags = 0\<rparr>"]
  by (auto simp: do_set_bitrate_def do_set_bittiming_def do_set_ctrlmode_def Let_def
      split: prod.splits option.splits if_splits)

lemma set_and_show_no_fault:
  assumes "args_match argc argv"
    and "0 < argc \<Longrightarrow> do_set d t \<noteq> CFault" and "\<And>d t. do_show d t \<noteq> CFault"
  shows "set_and_show argc argv do_set do_show d t \<noteq> CFault"
proof -
  obtain b where b: "show_only argc argv = ArgOk b" using show_only_ok [OF assms(1)] by blast
  have "b \<or> 0 < argc" using b by (auto simp: show_only_def split: if_splits)
  then have "(if b then CDone d t else do_set d t) \<noteq> CFault" using assms(2) by auto
  then show ?thesis using b assms(3) by (simp add: set_and_show_def and_then_no_fault)
qed

lemma conf_command_no_fault:
  assumes "args_match argc argv"
  shows "conf_command L name argc argv d t \<noteq> CFault"
proof -
  have r: "0 < argc \<Longrightarrow> do_set_restart_ms L argv name d t \<noteq> CFault"
    using args_match_next(1) [OF assms] by (auto simp: do_set_restart_ms_def split: prod.splits if_splits)
  note set_show = set_and_show_no_fault [OF assms]
  have "cmd_bitrate L argc argv name d t \<noteq> CFault"
    unfolding cmd_bitrate_def by (rule set_show) (simp_all add: set_no_fault [OF assms] show_no_fault)
  moreover have "cmd_bittiming L argc argv name d t \<noteq> CFault"
    unfolding cmd_bittiming_def
    by (rule set_show) (simp_all add: set_no_fault [OF assms] show_no_fault and_then_no_fault)
  moreover have "cmd_ctrlmode L argc argv name d t \<noteq> CFault"
    unfolding cmd_ctrlmode_def by (rule set_show) (simp_all add: set_no_fault [OF assms] show_no_fault)
  moreover have "cmd_restart_ms L argc argv name d t \<noteq> CFault"
    unfolding cmd_restart_ms_def by (rule set_show) (simp_all add: r show_no_fault)
  ultimately show ?thesis by (simp add: conf_command_def show_no_fault Let_def)
qed

lemma conf_loop_no_fault: "conf_loop L name argv d t \<noteq> CFault"
proof (induction argv arbitrary: d t)
  case (Cons a as)
  have "args_match (int (length as)) (a # as)" by (simp add: args_match_def)
  then show ?case using Cons by (simp add: and_then_no_fault conf_command_no_fault)
qed simp

subsection \<open>Control modes\<close>

definition mode_words :: "cstr \<times> bool \<Rightarrow> cstr list" where
  "mode_words m = [fst m, if snd m then ''on'' else ''off'']"

definition mode_flag :: "cstr \<Rightarrow> u32" where
  "mode_flag a = (case ctrlmode_word a of None \<Rightarrow> 0 | Some f \<Rightarrow> f)"

definition or_all :: "u32 list \<Rightarrow> u32" where
  "or_all ws = fold (OR) ws 0"

lemma fold_or: "fold (OR) ws w = w OR or_all (ws :: u32 list)"
proof (induction ws arbitrary: w)
  case (Cons x ws)
  show ?case using Cons [of "x OR w"] Cons [of x] by (simp add: or_all_def ac_simps)
qed (simp add: or_all_def)

lemma or_all_Cons [simp]: "or_all (w # ws) = w OR or_all ws"
  using fold_or [of ws w] by (simp add: or_all_def)

lemma or_all_Nil [simp]: "or_all [] = 0"
  by (simp add: or_all_def)

text \<open>The last word is not looked at, so a mode needs a word before it and its argument.\<close>

lemma ctrlmode_args_modes:
  assumes "\<forall>m\<in>set ms. ctrlmode_word (fst m) \<noteq> None"
  shows "ctrlmode_args (int (2 * length ms) - 1) (concat (map mode_words ms)) cm =
    ArgOk (Some \<lparr>cm_mask = cm_mask cm OR or_all (map (mode_flag \<circ> fst) ms),
      cm_flags = cm_flags cm OR or_all (map (mode_flag \<circ> fst) (filter snd ms))\<rparr>)"
  using assms
proof (induction ms arbitrary: cm)
  case Nil
  show ?case by (subst ctrlmode_args.simps) simp
next
  case (Cons m ms)
  obtain a b where m: "m = (a, b)" by force
  then obtain f where f: "ctrlmode_word a = Some f" using Cons.prems by auto
  let ?cm = "\<lparr>cm_mask = cm_mask cm OR f, cm_flags = (if b then cm_flags cm OR f else cm_flags cm)\<rparr>"
  have s: "set_ctrlmode (if b then ''on'' else ''off'') f cm = Some ?cm" by (simp add: set_ctrlmode_def)
  have "ctrlmode_args (int (2 * length (m # ms)) - 1) (concat (map mode_words (m # ms))) cm =
      ctrlmode_args (int (2 * length ms) - 1) (concat (map mode_words ms)) ?cm"
    using s by (subst ctrlmode_args.simps) (simp add: m f next_arg_def mode_words_def)
  moreover have "mode_flag a = f" by (simp add: mode_flag_def f)
  ultimately show ?case using Cons by (simp add: m or.assoc)
qed

subsection \<open>Properties\<close>

text \<open>Whatever the command line and the device, no command reads past its arguments, and the
  message for a missing parameter is never reached.\<close>

lemma canconfig_arguments_safe:
  "conf_main L version argv d \<noteq> CFault \<and>
   (\<forall>a as. \<exists>r s c. bitrate_args (int (length as)) (a # as) (0, 0) = ArgOk r \<and>
      bittiming_args (int (length as)) (a # as) (bittiming0, 0) = ArgOk s \<and>
      ctrlmode_args (int (length as)) (a # as) \<lparr>cm_mask = 0, cm_flags = 0\<rparr> = ArgOk c)"
proof -
  have "args_match (int (length as)) (a # as)" for a as by (simp add: args_match_def)
  note ok = bitrate_args_ok [OF this] bittiming_args_ok [OF this] ctrlmode_args_ok [OF this]
  have "cmd_show_interface L name d t \<noteq> CFault" for name t
    by (simp add: cmd_show_interface_def show_no_fault and_then_no_fault split: conf.splits)
  then have "conf_main L version argv d \<noteq> CFault"
    by (simp add: conf_main_def conf_loop_no_fault del: conf_loop.simps split: list.splits)
  then show ?thesis using ok by blast
qed

text \<open>C17: the command \<open>ctrlmode\<close> with any list of modes sets exactly the modes it names, and switches
  on those that are given as \<open>on\<close> at least once.\<close>

theorem ctrlmode_sets_named_modes:
  assumes "ms \<noteq> []" and "\<forall>m\<in>set ms. ctrlmode_word (fst m) \<noteq> None"
  shows "do_set_ctrlmode L (int (2 * length ms)) (''ctrlmode'' # concat (map mode_words ms)) name d t =
    (let (ok, d1) = can_set_ctrlmode L name
       \<lparr>cm_mask = or_all (map (mode_flag \<circ> fst) ms), cm_flags = or_all (map (mode_flag \<circ> fst) (filter snd ms))\<rparr> d
     in if ok then CDone d1 t else CExit 1 d1 t)"
proof -
  have "ctrlmode_args (int (2 * length ms)) (''ctrlmode'' # concat (map mode_words ms)) cm =
      ctrlmode_args (int (2 * length ms) - 1) (concat (map mode_words ms)) cm" for cm
    using assms(1) by (subst ctrlmode_args.simps) (simp add: ctrlmode_word_def)
  note step = this
  show ?thesis
    by (simp only: do_set_ctrlmode_def step ctrlmode_args_modes [OF assms(2)]) (simp add: Let_def)
qed

text \<open>The laws of a device the next property needs: a rate that is set is the rate that is read.\<close>

definition keeps_bitrate :: "'d can_lib \<Rightarrow> cstr \<Rightarrow> bool" where
  "keeps_bitrate L name \<longleftrightarrow>
     (\<forall>r d. \<exists>d1 bt. can_set_bitrate L name r d = (True, d1) \<and> can_get_bittiming L name d1 = Some bt \<and> bt_bitrate bt = r)"

lemma fmt_u_no_word: "c \<in> set (fmt_u n) \<Longrightarrow> digit_val c < 10"
  using fmt_base_digits(1) [of 10 c n] by (simp add: fmt_u_def)

lemma fmt_u_not_command:
  assumes "w \<noteq> []" and "10 \<le> digit_val (hd w)"
  shows "fmt_u n \<noteq> w"
proof
  assume "fmt_u n = w"
  then have "hd w \<in> set (fmt_u n)" using assms(1) by simp
  then show False using fmt_u_no_word assms(2) by fastforce
qed

definition conf_words :: "cstr list" where
  "conf_words =
     [''baudrate'', ''bitrate'', ''bittiming'', ''ctrlmode'', ''restart'', ''start'', ''stop'',
      ''restart-ms'', ''state'', ''clockfreq'', ''bittiming-constants'', ''berr-counter'']"

lemma conf_command_other: "a \<notin> set conf_words \<Longrightarrow> conf_command L name argc (a # as) d t = CDone d t"
  by (auto simp: conf_command_def conf_words_def Let_def)

lemma fmt_u_not_conf_word: "fmt_u n \<notin> set conf_words" "fmt_u n \<notin> set config_keywords" "fmt_u n \<noteq> ''sample-point''"
proof -
  have "list_all (\<lambda>w. w \<noteq> [] \<and> 10 \<le> digit_val (hd w)) (''sample-point'' # conf_words @ config_keywords)"
    by (simp add: conf_words_def config_keywords_def digit_val_def)
  then show "fmt_u n \<notin> set conf_words" "fmt_u n \<notin> set config_keywords" "fmt_u n \<noteq> ''sample-point''"
    using fmt_u_not_command unfolding list_all_iff by (metis Un_iff insert_iff list.set(2) set_append)+
qed

text \<open>\<open>canconfig <dev> bitrate <n>\<close> sets the rate and prints the rate it set.\<close>

lemma canconfig_bitrate:
  assumes "keeps_bitrate L name" and "prog \<notin> set conf_words" and "name \<notin> set conf_words"
    and "name \<noteq> ''--help''" and "name \<noteq> ''--version''" and "n < 2 ^ 32"
  shows "\<exists>d1 sp. can_set_bitrate L name (of_nat n) d = (True, d1) \<and>
    conf_main L version [prog, name, ''bitrate'', fmt_u n] d =
      CExit 0 d1 (name @ '' bitrate: '' @ fmt_u n @ '', sample-point: '' @ fmt_point sp @ nl)"
proof -
  obtain d1 bt where s: "can_set_bitrate L name (of_nat n) d = (True, d1)" "can_get_bittiming L name d1 = Some bt"
      "bt_bitrate bt = of_nat n"
    using assms(1) unfolding keeps_bitrate_def by blast
  let ?t = "name @ '' bitrate: '' @ fmt_u n @ '', sample-point: '' @ fmt_point (bt_sample_point bt) @ nl"
  have "bitrate_args 1 [''bitrate'', fmt_u n] (0, 0) = ArgOk (of_nat n, 0)"
    using strtoul_0_fmt_u [OF assms(6)]
    by (subst bitrate_args.simps) (simp add: next_arg_def bitrate_args.simps [of "- 1"])
  moreover have "udec (of_nat n) = fmt_u n" using assms(6) by (simp add: udec_def unat_of_nat)
  ultimately have c: "conf_command L name 1 [''bitrate'', fmt_u n] d [] = CDone d1 ?t"
    using s fmt_u_not_conf_word(2) [of n]
    by (simp add: conf_command_def cmd_bitrate_def set_and_show_def show_only_def find_str_def
        do_set_bitrate_def do_show_bitrate_def)
  have "conf_loop L name [prog, name, ''bitrate'', fmt_u n] d [] = CExit 0 d1 ?t"
    by (simp add: c conf_command_other [OF assms(2)] conf_command_other [OF assms(3)]
        conf_command_other [OF fmt_u_not_conf_word(1)])
  then have "conf_main L version [prog, name, ''bitrate'', fmt_u n] d = CExit 0 d1 ?t"
    using assms(4,5) by (simp add: conf_main_def del: conf_loop.simps)
  then show ?thesis using s(1) by blast
qed

text \<open>A device that remembers the last timing, for the witnesses.\<close>

definition plain_lib :: "can_bittiming can_lib" where
  "plain_lib =
     \<lparr>can_get_bittiming = (\<lambda>_ d. Some d), can_set_bitrate = (\<lambda>_ r d. (True, d\<lparr>bt_bitrate := r\<rparr>)),
      can_set_bitrate_samplepoint = (\<lambda>_ r s d. (True, d\<lparr>bt_bitrate := r, bt_sample_point := s\<rparr>)),
      can_set_bittiming = (\<lambda>_ bt d. (True, bt)), can_get_bittiming_const = (\<lambda>_ _. None),
      can_get_state = (\<lambda>_ _. Some 0), can_get_clock = (\<lambda>_ _. Some 8000000),
      can_do_restart = (\<lambda>_ d. (True, d)), can_do_start = (\<lambda>_ d. (True, d)), can_do_stop = (\<lambda>_ d. (True, d)),
      can_get_ctrlmode = (\<lambda>_ _. None), can_set_ctrlmode = (\<lambda>_ cm d. (cm_flags cm = 1, d)),
      can_get_restart_ms = (\<lambda>_ _. None), can_set_restart_ms = (\<lambda>_ _ d. (True, d)),
      can_get_berr_counter = (\<lambda>_ _. None)\<rparr>"

theorem ctrlmode_sets_named_modes_witness:
  "do_set_ctrlmode plain_lib 4 [''ctrlmode'', ''loopback'', ''on'', ''one-shot'', ''off''] ''can0'' bittiming0 [] =
     CDone bittiming0 []"
  using ctrlmode_sets_named_modes [of "[(''loopback'', True), (''one-shot'', False)]" plain_lib "''can0''" bittiming0 "[]"]
  by (simp add: mode_words_def ctrlmode_word_def plain_lib_def mode_flag_def CAN_CTRLMODE_LOOPBACK_def)

end
