(* ===== verification/Uboot.thy ===== *)
theory Uboot
  imports CLib Bytes "HOL-Library.Sublist"
begin

text \<open>
  The test of loading a file in U-Boot (\<open>src/preloader-uboot\<close>): the random number generator
  shared by host and target (\<open>test-lib/myrand.c\<close>), the host program that writes a test file
  (\<open>host-tools/creatf.c\<close>), the start-up code and its helpers (\<open>uboot-api/crtinit.c\<close>) and the
  program that checks the file in memory (\<open>tftp-test/tftp-test.c\<close>), with the one for the
  SDRAM (\<open>sdram-test/sdram-test.c\<close>). The memory of the target is a function on 32-bit
  addresses. What \<open>fopen\<close>, \<open>fwrite\<close>, \<open>fstat\<close> and the boot loader answer is an argument.
\<close>

unbundle bit_operations_syntax

section \<open>myrand.c\<close>

abbreviation MYRAND_MAX :: u32 where "MYRAND_MAX \<equiv> push_bit 31 1 - 1"

text \<open>The number returned is also the new state.\<close>

definition myrand :: "u32 \<Rightarrow> u32" where
  "myrand rseed = (rseed * 1103515245 + 12345) AND MYRAND_MAX"


section \<open>creatf.c\<close>

record creatf_sys =
  can_create :: "cstr \<Rightarrow> bool"
  fwrite :: "u8 list \<Rightarrow> u8 list \<Rightarrow> nat"   \<comment> \<open>bytes in the file, bytes to add: how many it takes\<close>
  fstat_size :: "cstr \<Rightarrow> u8 list \<Rightarrow> int option"

text \<open>The bytes the loop writes, one at a time; the flag says that it got through.\<close>

fun creatf_loop :: "creatf_sys \<Rightarrow> nat \<Rightarrow> u32 \<Rightarrow> u8 list \<Rightarrow> u8 list \<times> bool" where
  "creatf_loop w 0 rseed file = (file, True)"
| "creatf_loop w (Suc n) rseed file =
     (let r = myrand rseed; rnd = ucast r in
      if fwrite w file [rnd] \<noteq> 1 then (file, False)
      else creatf_loop w n r (file @ [rnd]))"

definition put4 :: "creatf_sys \<Rightarrow> int \<Rightarrow> u8 list \<Rightarrow> u8 list \<times> bool" where
  "put4 w v file =
     (let bs = le_bytes 4 v; n = fwrite w file bs in (file @ take n bs, n = 4))"

text \<open>Exit status (a main that runs off its end gives 0), output and the file.\<close>

definition creatf :: "creatf_sys \<Rightarrow> cstr list \<Rightarrow> int \<times> cstr \<times> u8 list option" where
  "creatf w argv =
     (if length argv < 4 then (1, ''Usage: '' @ argv ! 0 @ '' seed size filename'' @ nl, None)
      else
        let lseed = atoi (argv ! 1); fsize = atoi (argv ! 2) in
        if \<not> can_create w (argv ! 3) then (1, ''cannot open file for writing!'' @ nl, None)
        else case put4 w fsize [] of (f1, ok1) \<Rightarrow>
        if \<not> ok1 then (1, ''cannot write size'' @ nl, Some f1)
        else case put4 w lseed f1 of (f2, ok2) \<Rightarrow>
        if \<not> ok2 then (1, ''cannot write seed value'' @ nl, Some f2)
        else case creatf_loop w (nat fsize) (of_int lseed) f2 of (f3, ok3) \<Rightarrow>
        if \<not> ok3 then (1, ''cannot write file!'' @ nl, Some f3)
        else case fstat_size w (argv ! 3) f3 of
          None \<Rightarrow> (1, ''cannot open and stat file!'' @ nl, Some f3)
        | Some st_size \<Rightarrow>
            (0, ''Wrote '' @ fmt_d st_size @ '' bytes to file '' @ argv ! 3 @ '' using seed '' @
                fmt_d lseed @ '', fsize '' @ fmt_d fsize @ nl, Some f3))"


section \<open>crtinit.c\<close>

type_synonym target_mem = "u32 \<Rightarrow> u8"

lemma unat_Suc_less: "cp < e \<Longrightarrow> unat (cp + 1 :: 'a::len word) = Suc (unat cp)"
  using le_less_trans [OF Suc_leI unat_mod_le [of e], of "unat cp"]
  by (simp add: word_less_nat_alt unat_word_ariths)

function zero_bss :: "u32 \<Rightarrow> u32 \<Rightarrow> target_mem \<Rightarrow> target_mem" where
  "zero_bss cp e m = (if cp < e then zero_bss (cp + 1) e (m(cp := 0)) else m)"
  by pat_completeness auto
termination
  by (relation "measure (\<lambda>(cp, e, m). unat e - unat cp)")
     (auto simp: unat_Suc_less word_less_nat_alt)

declare zero_bss.simps [simp del]

definition crt_startup :: "u32 \<Rightarrow> u32 \<Rightarrow> (target_mem \<Rightarrow> 'r) \<Rightarrow> target_mem \<Rightarrow> 'r" where
  "crt_startup bss_start bss_end app m = app (zero_bss bss_start bss_end m)"

partial_function (option) uidiv_loop :: "u32 \<Rightarrow> u32 \<Rightarrow> u32 \<Rightarrow> u32 option" where
  "uidiv_loop num den x = (if x < num then uidiv_loop num den (x + den) else Some x)"

definition aeabi_uidiv :: "u32 \<Rightarrow> u32 \<Rightarrow> u32 option" where
  "aeabi_uidiv num den = uidiv_loop num den den"

definition hex_digit :: "char \<Rightarrow> u32 option" where
  "hex_digit = map_of
     [(CHR ''0'', 0), (CHR ''1'', 1), (CHR ''2'', 2), (CHR ''3'', 3), (CHR ''4'', 4),
      (CHR ''5'', 5), (CHR ''6'', 6), (CHR ''7'', 7), (CHR ''8'', 8), (CHR ''9'', 9),
      (CHR ''a'', 10), (CHR ''A'', 10), (CHR ''b'', 11), (CHR ''B'', 11), (CHR ''c'', 12),
      (CHR ''C'', 12), (CHR ''d'', 13), (CHR ''D'', 13), (CHR ''e'', 14), (CHR ''E'', 14),
      (CHR ''f'', 15), (CHR ''F'', 15)]"

text \<open>The value, and what is printed on the way.\<close>

fun hex2dec_loop :: "cstr \<Rightarrow> u32 \<Rightarrow> u32 \<times> cstr" where
  "hex2dec_loop [] val = (val, [])"
| "hex2dec_loop (c # s) val =
     (case hex_digit c of
        Some digit \<Rightarrow> hex2dec_loop s (val * 16 + digit)
      | None \<Rightarrow> (- 1, ''unexpected digit!'' @ nl))"

definition hex2dec :: "cstr \<Rightarrow> u32 \<times> cstr" where
  "hex2dec str = hex2dec_loop str 0"


section \<open>tftp-test.c and sdram-test.c\<close>

record uboot =
  serverip :: cstr
  cpuid :: u32
  xf_version :: int
  abi_version :: int

definition hexw :: "'a::len word \<Rightarrow> cstr" where "hexw w = fmt_base 16 (unat w)"

definition word_at :: "target_mem \<Rightarrow> u32 \<Rightarrow> u32" where
  "word_at m a = le_u32 (\<lambda>k. m (a + of_nat k)) 0"

definition s32 :: "u32 \<Rightarrow> int" where "s32 w = sint w"

definition argv_lines :: "cstr list \<Rightarrow> cstr" where
  "argv_lines argv = concat (map (\<lambda>i. ''argv['' @ fmt_u i @ ''] = '' @ [CHR 0x22] @
     (if i < length argv then argv ! i else ''<NULL>'') @ [CHR 0x22] @ nl) [0..<length argv + 1])"

text \<open>The check of the ten bytes from \<open>pdata\<close> on: whether it passes, and its output.\<close>

fun check_bytes :: "target_mem \<Rightarrow> u32 \<Rightarrow> int \<Rightarrow> nat list \<Rightarrow> u32 \<Rightarrow> bool \<times> cstr" where
  "check_bytes m pdata fsize [] rseed = (True, ''pass!'' @ nl)"
| "check_bytes m pdata fsize (i # is) rseed =
     (let r = myrand rseed; expch = ucast r :: u8; actual = m (pdata + of_nat i) in
      if expch \<noteq> actual then
        (False, ''fail, offs '' @ fmt_d (to_int32 (fsize + 8)) @ '', exp '' @ hexw expch @
                '', actual '' @ hexw actual @ nl)
      else case check_bytes m pdata fsize is r of (ok, out) \<Rightarrow>
        (ok, ''i '' @ fmt_u i @ '', expch '' @ hexw expch @ '', actual '' @ hexw actual @ nl @ out))"

definition tftp_main :: "uboot \<Rightarrow> cstr list \<Rightarrow> target_mem \<Rightarrow> int \<times> cstr" where
  "tftp_main ub argv m =
     (let out0 = ''serverip : '' @ serverip ub @ nl in
      if length argv < 2 then (1, out0 @ ''need load address of tftp file image!'' @ nl)
      else
        let (loadaddr, out1) = hex2dec (argv ! 1);
            seed = word_at m (loadaddr + 4);
            fsize = s32 (word_at m loadaddr);
            (ok, out2) = check_bytes m (loadaddr + 8) fsize [0..<10] seed
        in (0, out0 @ out1 @ ''load addr '' @ hexw loadaddr @ nl @
               ''fsize '' @ fmt_d fsize @ nl @ ''seed  '' @ hexw seed @ nl @
               ''CPU ID '' @ hexw (cpuid ub) @ nl @
               ''Example expects ABI version '' @ fmt_d (xf_version ub) @ nl @
               ''Actual U-Boot ABI version '' @ fmt_d (abi_version ub) @ nl @
               ''argc = '' @ fmt_u (length argv) @ nl @ argv_lines argv @ out2))"

fun uboot_memcpy_loop :: "nat \<Rightarrow> u32 \<Rightarrow> u32 \<Rightarrow> nat \<Rightarrow> target_mem \<Rightarrow> target_mem" where
  "uboot_memcpy_loop 0 d s i m = m"
| "uboot_memcpy_loop (Suc n) d s i m =
     uboot_memcpy_loop n d s (Suc i) (m(d + of_nat i := m (s + of_nat i)))"

definition uboot_memcpy :: "u32 \<Rightarrow> u32 \<Rightarrow> u32 \<Rightarrow> target_mem \<Rightarrow> cstr \<times> target_mem" where
  "uboot_memcpy d s sz m =
     (''d '' @ hexw d @ '', s '' @ hexw s @ '', sz '' @ fmt_d (s32 sz) @ nl,
      uboot_memcpy_loop (unat sz) d s 0 m)"

text \<open>The SDRAM test returns after its first message; the code behind is not reached.\<close>

definition sdram_main :: "uboot \<Rightarrow> int \<times> cstr" where
  "sdram_main ub = (0, ''CPU ID '' @ hexw (cpuid ub) @ nl)"



section \<open>The generator\<close>

definition rand_byte :: "u32 \<Rightarrow> nat \<Rightarrow> u8" where
  "rand_byte rseed k = ucast ((myrand ^^ Suc k) rseed)"

lemma rand_byte_0: "ucast (myrand r) = rand_byte r 0"
  by (simp add: rand_byte_def)

lemma rand_byte_Suc: "rand_byte (myrand r) k = rand_byte r (Suc k)"
  by (simp add: rand_byte_def funpow_swap1)

lemma rand_byte_shift:
  "(\<forall>k<Suc n. P k (rand_byte r k)) \<longleftrightarrow> P 0 (rand_byte r 0) \<and> (\<forall>k<n. P (Suc k) (rand_byte (myrand r) k))"
  unfolding rand_byte_Suc using less_Suc_eq_0_disj by auto

text \<open>The lowest byte of the state is a generator of its own.\<close>

definition low_step :: "u8 \<Rightarrow> u8 \<Rightarrow> u8 \<Rightarrow> u8" where
  "low_step a c x = a * x + c"

lemma ucast_myrand: "(ucast (myrand r) :: u8) = low_step 109 57 (ucast r)"
proof -
  have max: "MYRAND_MAX = mask 31" by (simp add: mask_eq_exp_minus_1)
  have "(ucast (x AND MYRAND_MAX) :: u8) = ucast x" for x
    unfolding max by (intro bit_word_eqI) (auto simp: bit_unsigned_iff bit_and_iff bit_mask_iff)
  moreover have "(ucast (r * 1103515245 + 12345) :: u8) = ucast r * 109 + 57"
  proof (transfer, simp only: take_bit_eq_mod)
    fix r :: int
    show "(r * 1103515245 + 12345) mod 2 ^ LENGTH(32) mod 2 ^ LENGTH(8) =
      (r mod 2 ^ LENGTH(32) * 109 + 57) mod 2 ^ LENGTH(8)"
      by (simp add: mod_mod_cancel) (intro mod_add_cong mod_mult_cong; simp add: mod_mod_cancel)
  qed
  ultimately show ?thesis by (simp add: myrand_def low_step_def)
qed

lemma ucast_myrand_funpow: "(ucast ((myrand ^^ n) r) :: u8) = (low_step 109 57 ^^ n) (ucast r)"
  by (induction n) (simp_all add: ucast_myrand)

lemma low_step_double:
  assumes "a * a = a'" and "a * c + c = c'"
  shows "low_step a c ^^ (2 * n) = low_step a' c' ^^ n"
proof -
  have "low_step a c ^^ 2 = low_step a' c'"
    unfolding assms [symmetric]
    by (auto simp: fun_eq_iff low_step_def numeral_2_eq_2 algebra_simps)
  then show ?thesis using funpow_mult [of n 2 "low_step a c"] by (simp add: mult.commute)
qed

lemma low_step_256: "low_step 109 57 ^^ 256 = id"
proof -
  have "low_step 109 57 ^^ 256 = low_step 105 126 ^^ 128"
    by (rule low_step_double [where n = 128, simplified]) simp_all
  moreover have "low_step 105 126 ^^ 128 = low_step 17 44 ^^ 64"
    by (rule low_step_double [where n = 64, simplified]) simp_all
  moreover have "low_step 17 44 ^^ 64 = low_step 33 24 ^^ 32"
    by (rule low_step_double [where n = 32, simplified]) simp_all
  moreover have "low_step 33 24 ^^ 32 = low_step 65 48 ^^ 16"
    by (rule low_step_double [where n = 16, simplified]) simp_all
  moreover have "low_step 65 48 ^^ 16 = low_step 129 96 ^^ 8"
    by (rule low_step_double [where n = 8, simplified]) simp_all
  moreover have "low_step 129 96 ^^ 8 = low_step 1 192 ^^ 4"
    by (rule low_step_double [where n = 4, simplified]) simp_all
  moreover have "low_step 1 192 ^^ 4 = low_step 1 128 ^^ 2"
    by (rule low_step_double [where n = 2, simplified]) simp_all
  moreover have "low_step 1 128 ^^ 2 = low_step 1 0"
    by (rule low_step_double [where n = 1, simplified]) simp_all
  ultimately show ?thesis by (simp add: fun_eq_iff low_step_def)
qed

lemma rand_byte_period: "rand_byte r (k + 256) = rand_byte r k"
proof -
  have "(low_step 109 57 ^^ (Suc k + 256)) x = (low_step 109 57 ^^ Suc k) x" for x
    unfolding funpow_add low_step_256 by simp
  then show ?thesis unfolding rand_byte_def ucast_myrand_funpow by simp
qed

lemma rand_byte_low_seed: "(ucast r :: u8) = ucast s \<Longrightarrow> rand_byte r k = rand_byte s k"
  unfolding rand_byte_def ucast_myrand_funpow by simp



section \<open>Writing the file\<close>

lemma creatf_loop_file:
  "creatf_loop w n r f = (g, True) \<Longrightarrow> g = f @ map (rand_byte r) [0..<n]"
proof (induction n arbitrary: r f)
  case (Suc n)
  then have "g = (f @ [ucast (myrand r)]) @ map (rand_byte (myrand r)) [0..<n]"
    using Suc.IH by (simp only: creatf_loop.simps Let_def split: if_splits) blast
  moreover have "map (rand_byte r) [0..<Suc n] = rand_byte r 0 # map (rand_byte (myrand r)) [0..<n]"
    by (simp add: map_upt_Suc rand_byte_Suc del: upt_Suc)
  ultimately show ?case by (simp add: rand_byte_0 del: upt_Suc)
qed simp

lemma put4_ok: "put4 w v f = (g, True) \<Longrightarrow> g = f @ le_bytes 4 v"
  by (auto simp: put4_def Let_def)

lemma creatf_file:
  assumes "creatf w [prog, seed, sz, name] = (0, out, Some file)"
  shows "file = le_bytes 4 (atoi sz) @ le_bytes 4 (atoi seed) @
    map (rand_byte (of_int (atoi seed))) [0..<nat (atoi sz)]"
  using assms
  by (auto simp: creatf_def Let_def split: if_splits prod.splits option.splits
      dest!: put4_ok creatf_loop_file)


section \<open>Reading it\<close>

lemma hex_digit_digit_char: "d < 16 \<Longrightarrow> hex_digit (digit_char d) = Some (of_nat d)"
proof -
  assume "d < 16"
  then have "d \<in> set [0..<16]" by simp
  moreover have "list_all (\<lambda>d. hex_digit (digit_char d) = Some (of_nat d)) [0..<16]"
    by code_simp
  ultimately show ?thesis unfolding list_all_iff by blast
qed

lemma hex2dec_loop_digits:
  "\<forall>d\<in>set ds. d < 16 \<Longrightarrow>
   hex2dec_loop (map digit_char ds) (of_nat v) = (of_nat (foldl (\<lambda>a d. a * 16 + d) v ds), [])"
proof (induction ds arbitrary: v)
  case (Cons d ds)
  then show ?case using Cons.IH [of "v * 16 + d"] by (simp add: hex_digit_digit_char)
qed simp

lemma hex2dec_fmt: "hex2dec (fmt_base 16 (unat a)) = (a, [])"
proof -
  have "\<forall>d\<in>set (digits_of 16 (unat a)). d < 16" using digits_of_less [of 16] by auto
  moreover have "foldl (\<lambda>a d. a * 16 + d) 0 (digits_of 16 (unat a)) = unat a"
    using digits_value_digits_of [of 16 "unat a"] by (simp add: digits_value_def)
  ultimately show ?thesis
    using hex2dec_loop_digits [of "digits_of 16 (unat a)" 0] by (simp add: hex2dec_def fmt_base_def)
qed

lemma zero_bss_other: "a < bs \<or> be \<le> a \<Longrightarrow> zero_bss bs be m a = m a"
proof (induction bs be m rule: zero_bss.induct)
  case (1 cp e m)
  then show ?case
  proof (cases "cp < e")
    case True
    then have "a < cp + 1 \<or> e \<le> a" "a \<noteq> cp"
      using 1(2) unat_Suc_less [OF True] by (auto simp: word_less_nat_alt word_le_nat_alt)
    then show ?thesis using 1(1) [OF True] True by (simp add: zero_bss.simps [of cp] del: fun_upd_apply) simp
  qed (simp add: zero_bss.simps [of cp])
qed

lemma zero_bss_zero: "bs \<le> a \<Longrightarrow> a < be \<Longrightarrow> zero_bss bs be m a = 0"
proof (induction bs be m rule: zero_bss.induct)
  case (1 cp e m)
  then have cp: "cp < e" by simp
  show ?case
  proof (cases "a = cp")
    case True
    then have "a < cp + 1" using unat_Suc_less [OF cp] by (simp add: word_less_nat_alt)
    then show ?thesis using cp True by (simp add: zero_bss.simps [of cp] zero_bss_other)
  next
    case False
    then have "cp + 1 \<le> a"
      using 1(2) unat_Suc_less [OF cp] by (auto simp: word_le_nat_alt le_less word_unat_eq_iff)
    then show ?thesis using 1(1,3) cp by (simp add: zero_bss.simps [of cp] del: fun_upd_apply)
  qed
qed

text \<open>The copy of memory, for ranges that do not overlap.\<close>

lemma uboot_memcpy_loop_copies:
  assumes "\<forall>j<n. \<forall>k<n. d + of_nat (i + j) \<noteq> s + of_nat (i + k)" and "n \<le> 2 ^ 32" and "k < n"
  shows "uboot_memcpy_loop n d s i m (d + of_nat (i + k)) = m (s + of_nat (i + k))"
  using assms
proof (induction n arbitrary: i m k)
  case (Suc n)
  let ?m = "m(d + of_nat i := m (s + of_nat i))"
  have other: "uboot_memcpy_loop n' d s i' m' a = m' a"
    if "\<And>j. j < n' \<Longrightarrow> a \<noteq> d + of_nat (i' + j)" for n' i' m' a
    using that
  proof (induction n' arbitrary: i' m')
    case (Suc n')
    have "a \<noteq> d + of_nat (Suc i' + j)" if "j < n'" for j using Suc.prems [of "Suc j"] that by simp
    then show ?case using Suc.IH [of "Suc i'"] Suc.prems [of 0] by simp
  qed simp
  show ?case
  proof (cases k)
    case 0
    have "(of_nat (Suc j) :: u32) \<noteq> 0" if "j < n" for j
      using that Suc.prems(2) by (simp add: word_unat_eq_iff unat_of_nat del: of_nat_Suc)
    moreover have "(of_nat (Suc i + j) :: u32) = of_nat i + of_nat (Suc j)" for j by simp
    ultimately have "d + of_nat i \<noteq> d + of_nat (Suc i + j)" if "j < n" for j
      using that by (simp del: of_nat_Suc of_nat_add add_Suc)
    then have "uboot_memcpy_loop n d s (Suc i) ?m (d + of_nat i) = ?m (d + of_nat i)" by (rule other)
    then show ?thesis using 0 by simp
  next
    case k: (Suc k')
    have "d + of_nat (Suc i + j) \<noteq> s + of_nat (Suc i + l)" if "j < n" "l < n" for j l
      using Suc.prems(1) [rule_format, of "Suc j" "Suc l"] that by simp
    then have "uboot_memcpy_loop n d s (Suc i) ?m (d + of_nat (Suc i + k')) = ?m (s + of_nat (Suc i + k'))"
      using Suc.prems(2,3) k by (intro Suc.IH) auto
    moreover have "d + of_nat i \<noteq> s + of_nat (Suc i + k')"
      using Suc.prems(1) [rule_format, of 0 "Suc k'"] Suc.prems(3) k by simp
    ultimately show ?thesis using k by simp
  qed
qed simp

definition reports_pass :: "cstr \<Rightarrow> bool" where
  "reports_pass out \<longleftrightarrow> suffix (''pass!'' @ nl) out"

lemma check_bytes_ok:
  "fst (check_bytes m p f [j..<j + n] r) \<longleftrightarrow> (\<forall>k<n. m (p + of_nat (j + k)) = rand_byte r k)"
proof (induction n arbitrary: j r)
  case (Suc n)
  have "[j..<j + Suc n] = j # [Suc j..<Suc j + n]" by (simp add: upt_conv_Cons del: upt_Suc)
  then show ?case
    unfolding rand_byte_shift [of n "\<lambda>k b. m (p + of_nat (j + k)) = b" r]
    using Suc [of "Suc j" "myrand r"]
    by (auto simp: Let_def rand_byte_0 split: prod.splits simp del: upt_Suc)
qed simp

lemma hexw_last: "last (hexw w) \<noteq> CHR ''!''"
proof -
  have "last (hexw w) \<in> set (hexw w)" by (simp add: hexw_def)
  then have "digit_val (last (hexw w)) < 16"
    using fmt_base_digits(1) [of 16 "last (hexw w)" "unat w"] by (simp add: hexw_def)
  then show ?thesis by (auto simp: digit_val_def)
qed

definition ends_with :: "bool \<Rightarrow> cstr \<Rightarrow> bool" where
  "ends_with ok out \<longleftrightarrow> (\<exists>pre c. out = pre @ [c] @ nl \<and>
     (if ok then suffix ''pass!'' (pre @ [c]) else c \<noteq> CHR ''!''))"

lemma ends_with_append: "ends_with ok out \<Longrightarrow> ends_with ok (x @ out)"
  unfolding ends_with_def by (metis append.assoc suffix_appendI)

lemma ends_with_Cons: "ends_with ok out \<Longrightarrow> ends_with ok (c # out)"
  using ends_with_append [of ok out "[c]"] by simp

lemma ends_with_hexw: "ends_with False (hexw w @ nl)"
proof -
  have "hexw w = butlast (hexw w) @ [last (hexw w)]" by (simp add: hexw_def)
  then show ?thesis unfolding ends_with_def using hexw_last [of w] by (metis append.assoc)
qed

lemma ends_with_pass: "ends_with True (''pass!'' @ nl)"
  unfolding ends_with_def by (rule exI [of _ "''pass''"], rule exI [of _ "CHR ''!''"]) simp

lemmas ends_with_intros = ends_with_append ends_with_Cons ends_with_hexw ends_with_pass

lemma ends_with_iff: "ends_with ok out \<Longrightarrow> reports_pass out \<longleftrightarrow> ok"
  by (cases ok) (auto simp: ends_with_def reports_pass_def suffix_def)

lemma check_bytes_out: "case check_bytes m p f js r of (ok, out) \<Rightarrow> ends_with ok out"
proof (induction m p f js r rule: check_bytes.induct)
  case (1 m p f r)
  show ?case using ends_with_pass by simp
next
  case (2 m p f i js r)
  show ?case
  proof (cases "ucast (myrand r) = m (p + of_nat i)")
    case True
    then show ?thesis using 2 [OF refl refl refl]
      by (auto simp: Let_def ends_with_intros split: prod.splits)
  next
    case False
    then show ?thesis by (simp add: Let_def ends_with_intros)
  qed
qed



section \<open>Properties\<close>

lemma tftp_main_result:
  assumes "2 \<le> length argv" and "hex2dec (argv ! 1) = (a, e)"
  shows "\<exists>pre. tftp_main ub argv m = (0, pre @
    snd (check_bytes m (a + 8) (s32 (word_at m a)) [0..<10] (word_at m (a + 4))))"
  using assms by (simp add: tftp_main_def Let_def case_prod_beta flip: append_assoc)

lemma tftp_main_pass:
  assumes "2 \<le> length argv" and "hex2dec (argv ! 1) = (a, e)"
  shows "fst (tftp_main ub argv m) = 0"
    and "reports_pass (snd (tftp_main ub argv m)) \<longleftrightarrow>
      (\<forall>k<10. m (a + 8 + of_nat k) = rand_byte (word_at m (a + 4)) k)"
proof -
  let ?c = "check_bytes m (a + 8) (s32 (word_at m a)) [0..<10] (word_at m (a + 4))"
  obtain pre where r: "tftp_main ub argv m = (0, pre @ snd ?c)"
    using tftp_main_result [OF assms] by blast
  then show "fst (tftp_main ub argv m) = 0" by simp
  have "ends_with (fst ?c) (snd ?c)" using check_bytes_out by (metis case_prod_beta)
  then have "ends_with (fst ?c) (pre @ snd ?c)" by (rule ends_with_append)
  then have "reports_pass (pre @ snd ?c) \<longleftrightarrow> fst ?c" by (rule ends_with_iff)
  then show "reports_pass (snd (tftp_main ub argv m)) \<longleftrightarrow>
      (\<forall>k<10. m (a + 8 + of_nat k) = rand_byte (word_at m (a + 4)) k)"
    using check_bytes_ok [of m "a + 8" "s32 (word_at m a)" 0 10 "word_at m (a + 4)"] r by simp
qed

lemma word_at_loaded:
  "(\<And>k. k < 4 \<Longrightarrow> m (a + of_nat k) = le_bytes 4 v ! k) \<Longrightarrow> word_at m a = of_int v"
  unfolding word_at_def by (rule le_u32_le_bytes) simp

text \<open>C19: A test file written by creatf with at least ten bytes, loaded anywhere outside the
  zeroed data of the test program and checked with its address given in hexadecimal, passes the
  test: the generator, the file format, the start-up code, the number conversion and the check
  fit together.
\<close>
theorem tftp_accepts_creatf:
  assumes wrote: "creatf w [prog, seed, sz, name] = (0, out, Some file)" and ten: "10 \<le> atoi sz"
    and loaded: "\<forall>k<length file. m (a + of_nat k) = file ! k"
    and apart: "\<forall>k<length file. a + of_nat k < bss_start \<or> bss_end \<le> a + of_nat k"
  shows "fst (crt_startup bss_start bss_end (tftp_main ub [app, fmt_base 16 (unat a)]) m) = 0 \<and>
    reports_pass (snd (crt_startup bss_start bss_end (tftp_main ub [app, fmt_base 16 (unat a)]) m))"
proof -
  define m' where "m' = zero_bss bss_start bss_end m"
  let ?s = "of_int (atoi seed) :: u32"
  have f: "file = le_bytes 4 (atoi sz) @ le_bytes 4 (atoi seed) @ map (rand_byte ?s) [0..<nat (atoi sz)]"
    using wrote by (rule creatf_file)
  then have len: "length file = 8 + nat (atoi sz)" by simp
  have m': "m' (a + of_nat k) = file ! k" if "k < length file" for k
    using that loaded apart unfolding m'_def by (simp add: zero_bss_other)
  have "m' (a + 4 + of_nat k) = le_bytes 4 (atoi seed) ! k" if "k < 4" for k
    using m' [of "4 + k"] that len by (simp add: f nth_append add.assoc)
  then have seed: "word_at m' (a + 4) = ?s" by (rule word_at_loaded)
  have "m' (a + 8 + of_nat k) = rand_byte ?s k" if "k < 10" for k
    using m' [of "8 + k"] that len ten by (simp add: f nth_append add.assoc)
  then show ?thesis
    using tftp_main_pass [of "[app, fmt_base 16 (unat a)]" a "[]" ub m'] seed
    by (simp add: crt_startup_def m'_def hex2dec_fmt)
qed

text \<open>The test passes exactly if the first ten bytes behind the header are those the seed in
  the header generates; whatever the size in the header says and whatever follows those bytes
  has no influence.
\<close>
lemma tftp_checks_ten_bytes:
  assumes "2 \<le> length argv" and "hex2dec (argv ! 1) = (a, e)"
  shows "reports_pass (snd (tftp_main ub argv m)) \<longleftrightarrow>
    (\<forall>k<10. m (a + 8 + of_nat k) = rand_byte (word_at m (a + 4)) k)"
  using assms by (rule tftp_main_pass)

lemma uidiv_loop_from:
  assumes "0 < d" and "unat num + d \<le> 2 ^ 32" and "den = of_nat d" and "d < 2 ^ 32"
    and q: "unat num \<le> d * q" "d * (q - 1) < unat num \<or> q = 1" and "k \<le> q" and "1 \<le> k"
  shows "uidiv_loop num den (of_nat (d * k)) = Some (of_nat (d * q))"
  using \<open>k \<le> q\<close> \<open>1 \<le> k\<close>
proof (induction k rule: inc_induct)
  case base
  have "d * q < 2 ^ 32"
  proof (cases "q = 1")
    case False
    then have "d * q = d * (q - 1) + d" using base by (simp add: algebra_simps)
    then show ?thesis using q(2) False assms(2) by simp
  qed (use assms(4) in simp)
  then have "\<not> (of_nat (d * q) :: u32) < num"
    using q(1) by (simp add: word_less_nat_alt unat_of_nat del: of_nat_mult)
  then show ?case by (subst uidiv_loop.simps) simp
next
  case (step k)
  then have "d * k \<le> d * (q - 1)" by (intro mult_left_mono) auto
  then have "d * k < unat num" using q(2) step.hyps step.prems by (metis le_less_trans not_le)
  moreover have "unat num < 2 ^ 32" using unat_mod_le [of num] by simp
  ultimately have "(of_nat (d * k) :: u32) < num"
    by (simp add: word_less_nat_alt unat_of_nat del: of_nat_mult)
  moreover have "of_nat (d * k) + den = (of_nat (d * Suc k) :: u32)" using assms(3) by simp
  ultimately show ?case using step by (subst uidiv_loop.simps) (simp del: mult_Suc_right of_nat_mult)
qed

lemma uidiv_loop_zero: "uidiv_loop num 0 x = Some y \<Longrightarrow> \<not> x < num"
proof -
  have "den = 0 \<longrightarrow> \<not> x < num" if "uidiv_loop num den x = Some y" for den
    using that
    by (rule uidiv_loop.raw_induct [where P = "\<lambda>num den x y. den = 0 \<longrightarrow> \<not> x < num"
        and xa = "((num, den), x)", unfolded prod.case, rotated])
      (auto split: if_splits)
  then show "uidiv_loop num 0 x = Some y \<Longrightarrow> \<not> x < num" by blast
qed




section \<open>Witnesses\<close>

definition roomy :: creatf_sys where
  "roomy = \<lparr>can_create = (\<lambda>_. True), fwrite = (\<lambda>f bs. length bs),
     fstat_size = (\<lambda>_ f. Some (int (length f)))\<rparr>"

definition board :: uboot where
  "board = \<lparr>serverip = ''10.0.0.1'', cpuid = 0x413FC090, xf_version = 6, abi_version = 6\<rparr>"

definition sample_file :: "u8 list" where
  "sample_file = le_bytes 4 12 @ le_bytes 4 7 @ map (rand_byte 7) [0..<12]"

lemma creatf_loop_roomy: "creatf_loop roomy n r f = (f @ map (rand_byte r) [0..<n], True)"
proof (induction n arbitrary: r f)
  case (Suc n)
  have "map (rand_byte r) [0..<Suc n] = rand_byte r 0 # map (rand_byte (myrand r)) [0..<n]"
    by (simp add: map_upt_Suc rand_byte_Suc del: upt_Suc)
  then show ?case using Suc by (simp add: Let_def rand_byte_0 roomy_def del: upt_Suc)
qed simp

lemma creatf_roomy:
  "\<exists>out. creatf roomy [''creatf'', ''7'', ''12'', ''f''] = (0, out, Some sample_file)"
proof -
  have "atoi ''7'' = 7" "atoi ''12'' = 12" by (simp_all add: clib_simps)
  moreover have "put4 roomy v f = (f @ le_bytes 4 v, True)" for v f by (simp add: put4_def roomy_def)
  moreover have "can_create roomy p" "fstat_size roomy p f = Some (int (length f))" for p f
    by (simp_all add: roomy_def)
  ultimately show ?thesis
    by (simp add: creatf_def creatf_loop_roomy sample_file_def del: upt_Suc)
qed

definition loaded_at_1M :: target_mem where
  "loaded_at_1M a = (if unat (a - 0x100000) < 20 then sample_file ! unat (a - 0x100000) else 0xFF)"

theorem tftp_accepts_creatf_witness:
  "reports_pass (snd (crt_startup 0xC100000 0xC100100
     (tftp_main board [''tftp'', fmt_base 16 (unat (0x100000 :: u32))]) loaded_at_1M))"
proof -
  obtain out where "creatf roomy [''creatf'', ''7'', ''12'', ''f''] = (0, out, Some sample_file)"
    using creatf_roomy by blast
  moreover have "10 \<le> atoi ''12''" by (simp add: clib_simps)
  moreover have len: "length sample_file = 20" by (simp add: sample_file_def)
  then have "\<forall>k<length sample_file. loaded_at_1M (0x100000 + of_nat k) = sample_file ! k"
    by (simp add: loaded_at_1M_def unat_of_nat)
  moreover have "\<forall>k<length sample_file. 0x100000 + of_nat k < (0xC100000 :: u32) \<or>
      0xC100100 \<le> 0x100000 + (of_nat k :: u32)"
    unfolding len by (auto simp: word_less_nat_alt unat_word_ariths unat_of_nat)
  ultimately show ?thesis using tftp_accepts_creatf by blast
qed

definition damaged :: target_mem where
  "damaged a = (if a = 0x100000 + 8 + 11 then NOT (loaded_at_1M a) else loaded_at_1M a)"


end
