(* ===== verification/Memtool.thy ===== *)
theory Memtool
  imports CLib Bytes
begin

text \<open>
  Reading and writing physical memory from the command line (\<open>src/memtool/memtool.c\<close>). The
  memory behind \<open>/dev/mem\<close> is a function on 32-bit addresses that only the program changes;
  \<open>mmap\<close> is an argument. An access outside the mapped range is None.
\<close>

unbundle bit_operations_syntax

section \<open>Command line\<close>

record memtool =
  g_size :: u32
  g_paddr :: ul
  g_is_write :: bool
  g_value :: u32
  g_count :: u32

definition memtool0 :: memtool where
  "memtool0 = \<lparr>g_size = 4, g_paddr = 0, g_is_write = False, g_value = 0, g_count = 1\<rparr>"

text \<open>The size option in front, if there is one, and the arguments left.\<close>

definition size_arg :: "cstr list \<Rightarrow> memtool \<Rightarrow> cstr list \<times> memtool" where
  "size_arg args g =
     (case args of [] \<Rightarrow> (args, g)
      | a # rest \<Rightarrow>
          if a = ''-8'' then (rest, g\<lparr>g_size := 1\<rparr>)
          else if a = ''-16'' then (rest, g\<lparr>g_size := 2\<rparr>)
          else if a = ''-32'' then (rest, g\<lparr>g_size := 4\<rparr>)
          else (args, g))"

text \<open>The argument behind the address: the value to write or the number of units to read.\<close>

definition value_arg :: "cstr list \<Rightarrow> memtool \<Rightarrow> memtool option" where
  "value_arg args g =
     (case args of [] \<Rightarrow> None
      | a # rest \<Rightarrow>
          if a \<noteq> [] \<and> hd a = CHR ''='' then
            (if 1 < length a then Some (g\<lparr>g_is_write := True, g_value := strtoul 16 (tl a)\<rparr>)
             else case rest of [] \<Rightarrow> None
               | b # _ \<Rightarrow> Some (g\<lparr>g_is_write := True, g_value := strtoul 16 b\<rparr>))
          else if g_is_write g then Some (g\<lparr>g_value := strtoul 16 a\<rparr>)
          else Some (g\<lparr>g_count := strtoul 16 a\<rparr>))"

definition parse_cmdline :: "cstr list \<Rightarrow> memtool \<Rightarrow> memtool option" where
  "parse_cmdline argv g =
     (if length argv < 2 then None
      else case size_arg (tl argv) g of (args, g1) \<Rightarrow>
        (case args of [] \<Rightarrow> None
         | a # rest \<Rightarrow>
             let g2 = g1\<lparr>g_paddr := strtoul 16 a\<rparr> in
             if g_paddr g2 = 0 then None
             else case strchr a CHR ''='' of
               None \<Rightarrow> value_arg rest g2
             | Some str \<Rightarrow>
                 let g3 = g2\<lparr>g_is_write := True\<rparr> in
                 if 1 < length str then Some (g3\<lparr>g_value := strtoul 16 (tl str)\<rparr>)
                 else value_arg rest g3))"


section \<open>Access to memory\<close>

type_synonym phys = "u32 \<Rightarrow> u8"

text \<open>A mapping: where it is, how long it is, and the physical address behind it.\<close>

record window =
  w_va :: u32
  w_len :: nat
  w_pa :: u32

definition inside :: "window option \<Rightarrow> u32 \<Rightarrow> nat \<Rightarrow> bool" where
  "inside w a n = (case w of None \<Rightarrow> False | Some w \<Rightarrow> unat (a - w_va w) + n \<le> w_len w)"

definition backing :: "window option \<Rightarrow> u32 \<Rightarrow> u32" where
  "backing w a = (case w of None \<Rightarrow> a | Some w \<Rightarrow> w_pa w + (a - w_va w))"

text \<open>The \<open>n\<close> bytes at a physical address as a little-endian number.\<close>

definition phys_value :: "phys \<Rightarrow> nat \<Rightarrow> u32 \<Rightarrow> nat" where
  "phys_value ph n a = (\<Sum>k<n. unat (ph (a + of_nat k)) * 2 ^ (8 * k))"

definition load :: "window option \<Rightarrow> phys \<Rightarrow> nat \<Rightarrow> u32 \<Rightarrow> nat option" where
  "load w ph n a = (if inside w a n then Some (phys_value ph n (backing w a)) else None)"

definition store :: "window option \<Rightarrow> phys \<Rightarrow> nat \<Rightarrow> u32 \<Rightarrow> u32 \<Rightarrow> phys option" where
  "store w ph n a v =
     (if inside w a n
      then Some (fold (\<lambda>k ph. ph(backing w a + of_nat k := le_bytes 4 (uint v) ! k)) [0..<n] ph)
      else None)"

text \<open>The loops of the three sizes, with \<open>size\<close> bytes per unit and 16 bytes per line.\<close>

fun read_loop :: "window option \<Rightarrow> phys \<Rightarrow> nat \<Rightarrow> u32 \<Rightarrow> nat \<Rightarrow> nat \<Rightarrow> ul \<Rightarrow> cstr option" where
  "read_loop w ph sz addr i 0 paddr = Some []"
| "read_loop w ph sz addr i (Suc n) paddr =
     (case load w ph sz (addr + of_nat (i * sz)) of None \<Rightarrow> None
      | Some v \<Rightarrow>
          map_option (\<lambda>out. (if i mod (16 div sz) = 0 then nl @ ''0x'' @ fmt_X 8 (unat paddr) @ '': '' else []) @
                            '' '' @ fmt_X (2 * sz) v @ out)
            (read_loop w ph sz addr (Suc i) n (paddr + of_nat sz)))"

definition read_mem :: "window option \<Rightarrow> phys \<Rightarrow> u32 \<Rightarrow> u32 \<Rightarrow> u32 \<Rightarrow> ul \<Rightarrow> cstr option" where
  "read_mem w ph addr count sz paddr =
     map_option (\<lambda>out. out @ nl @ nl)
       (if sz = 1 \<or> sz = 2 \<or> sz = 4 then read_loop w ph (unat sz) addr 0 (unat count) paddr else Some [])"

definition write_mem :: "window option \<Rightarrow> phys \<Rightarrow> u32 \<Rightarrow> u32 \<Rightarrow> u32 \<Rightarrow> phys option" where
  "write_mem w ph addr v sz =
     (if sz = 1 \<or> sz = 2 \<or> sz = 4 then store w ph (unat sz) addr v else Some ph)"


section \<open>main\<close>

record memtool_sys =
  open_mem :: bool
  mmap_mem :: "u32 \<Rightarrow> ul \<Rightarrow> u32 option"   \<comment> \<open>length and offset; None for MAP\_FAILED\<close>

definition page_down :: "u32 \<Rightarrow> u32" where "page_down a = a AND NOT (4096 - 1)"

definition memtool_usage :: cstr where
  "memtool_usage = ''Usage:'' @ nl @ nl @
     ''Read memory: memtool [-8 | -16 | -32] <phys addr> <count>'' @ nl @
     ''Write memory: memtool [-8 | -16 | -32] <phys addr>=<value>'' @ nl @ nl @
     ''Default access size is 32-bit.'' @ nl @ nl @ ''Address, count and value are all in hex.'' @ nl"

definition announce :: "memtool \<Rightarrow> cstr" where
  "announce g =
     (if g_is_write g
      then ''Writing '' @ fmt_d (sint (g_size g * 8)) @ ''-bit value 0x'' @ fmt_X 0 (unat (g_value g)) @
           '' to address 0x'' @ fmt_X 8 (unat (g_paddr g)) @ nl
      else ''Reading 0x'' @ fmt_X 0 (unat (g_count g)) @ '' count starting at address 0x'' @
           fmt_X 8 (unat (g_paddr g)) @ nl)"

text \<open>
  The address aligned to the size, the page it is in, and the length to map. Exit status, output
  and memory; None if an access is outside the mapping. The check for a failed \<open>mmap\<close> compares
  with NULL, so the address used after a failure is the one behind MAP\_FAILED.
\<close>

definition aligned_length :: "memtool \<Rightarrow> u32" where
  "aligned_length g =
     page_down (g_paddr g - page_down (g_paddr g) + g_count g * g_size g + 4096 - 1)"

definition memtool_access :: "memtool_sys \<Rightarrow> memtool \<Rightarrow> phys \<Rightarrow> (int \<times> cstr \<times> phys) option" where
  "memtool_access S g ph =
     (let aligned_paddr = page_down (g_paddr g);
          aligned_size = aligned_length g
      in if \<not> open_mem S then Some (1, announce g, ph)
      else
        let mapped = mmap_mem S aligned_size aligned_paddr;
            vaddr = (case mapped of Some va \<Rightarrow> va | None \<Rightarrow> - 1);
            w = map_option (\<lambda>va. \<lparr>w_va = va, w_len = unat aligned_size, w_pa = aligned_paddr\<rparr>) mapped
        in if vaddr = 0 then Some (1, announce g @ ''Error mapping address'' @ nl, ph)
        else
          let mem = vaddr + (g_paddr g - aligned_paddr) in
          if g_is_write g
          then map_option (\<lambda>ph'. (0, announce g, ph')) (write_mem w ph mem (g_value g) (g_size g))
          else map_option (\<lambda>out. (0, announce g @ out, ph))
                 (read_mem w ph mem (g_count g) (g_size g) (g_paddr g)))"

definition align_to_size :: "memtool \<Rightarrow> memtool" where
  "align_to_size g = g\<lparr>g_paddr := g_paddr g AND NOT (g_size g - 1)\<rparr>"

definition memtool_main :: "memtool_sys \<Rightarrow> cstr list \<Rightarrow> phys \<Rightarrow> (int \<times> cstr \<times> phys) option" where
  "memtool_main S argv ph =
     (case parse_cmdline argv memtool0 of
        None \<Rightarrow> Some (1, memtool_usage, ph)
      | Some g \<Rightarrow> memtool_access S (align_to_size g) ph)"



section \<open>The mapping covers the access\<close>

lemma parse_cmdline_size:
  assumes "parse_cmdline argv memtool0 = Some g"
  shows "g_size g = 1 \<or> g_size g = 2 \<or> g_size g = 4" and "g_is_write g \<Longrightarrow> g_count g = 1"
  using assms
  by (auto simp: parse_cmdline_def size_arg_def value_arg_def memtool0_def Let_def
      split: if_splits option.splits list.splits)

text \<open>How far into its page an access begins and ends.\<close>

definition page_offset :: "u32 \<Rightarrow> nat" where "page_offset p = unat p mod 4096"

definition extent :: "memtool \<Rightarrow> nat" where
  "extent g = page_offset (g_paddr g) + unat (g_count g) * unat (g_size g)"

lemma unat_page_down: "unat (page_down a) = unat a - unat a mod 4096"
  using and_not_mask_nat [of a 12] by (simp add: page_down_def)

lemma unat_page_offset: "unat (p - page_down p) = page_offset p"
  using unat_sub [of "page_down p" p] by (simp add: word_le_nat_alt unat_page_down page_offset_def)

lemma aligned_length_nat:
  "unat (aligned_length g) = (extent g + 4095) mod 2 ^ 32 - (extent g + 4095) mod 2 ^ 32 mod 4096"
proof -
  have "of_nat (extent g) = g_paddr g - page_down (g_paddr g) + g_count g * g_size g"
    unfolding extent_def by (simp flip: unat_page_offset)
  then have "g_paddr g - page_down (g_paddr g) + g_count g * g_size g + 4096 - 1 = of_nat (extent g + 4095)"
    by simp
  then show ?thesis by (simp add: aligned_length_def unat_page_down unat_of_nat del: of_nat_add)
qed

lemma aligned_length_fits: "extent g + 4095 < 2 ^ 32 \<Longrightarrow> extent g \<le> unat (aligned_length g)"
  using mod_less_divisor [of 4096 "extent g + 4095"] by (simp add: aligned_length_nat)

lemma aligned_length_max: "unat (aligned_length g) \<le> 2 ^ 32 - 4096"
proof -
  have "x - x mod 4096 \<le> 2 ^ 32 - 4096" if "x < 2 ^ 32" for x :: nat
  proof -
    have "x div 4096 \<le> 1048575" using that by simp
    moreover have "x - x mod 4096 = x div 4096 * 4096" by (simp add: minus_mod_eq_div_mult)
    ultimately show ?thesis by simp
  qed
  then show ?thesis unfolding aligned_length_nat by simp
qed

text \<open>The mapping of the page the access is in.\<close>

definition page_window :: "memtool \<Rightarrow> u32 \<Rightarrow> window" where
  "page_window g va = \<lparr>w_va = va, w_len = unat (aligned_length g), w_pa = page_down (g_paddr g)\<rparr>"

lemma inside_unit:
  assumes "page_offset (g_paddr g) + o' < 2 ^ 32"
  shows "inside (Some (page_window g va)) (va + (g_paddr g - page_down (g_paddr g)) + of_nat o') n \<longleftrightarrow>
    page_offset (g_paddr g) + o' + n \<le> unat (aligned_length g)"
proof -
  have "va + (g_paddr g - page_down (g_paddr g)) + of_nat o' - va = of_nat (page_offset (g_paddr g) + o')"
    by (simp flip: unat_page_offset)
  then show ?thesis using assms
    by (simp only: inside_def page_window_def option.case window.select_convs)
      (simp add: unat_of_nat del: of_nat_add)
qed

lemma load_unit:
  assumes "page_offset (g_paddr g) + o' + n \<le> unat (aligned_length g)"
  shows "load (Some (page_window g va)) ph n (va + (g_paddr g - page_down (g_paddr g)) + of_nat o') =
    Some (phys_value ph n (g_paddr g + of_nat o'))"
proof -
  have "page_offset (g_paddr g) + o' < 2 ^ 32" using assms aligned_length_max [of g] by simp
  then show ?thesis using assms
    by (simp add: load_def inside_unit) (simp add: backing_def page_window_def)
qed

section \<open>What is printed\<close>

definition unit_text :: "phys \<Rightarrow> nat \<Rightarrow> u32 \<Rightarrow> nat \<Rightarrow> cstr" where
  "unit_text ph sz p i =
     (if i mod (16 div sz) = 0 then nl @ ''0x'' @ fmt_X 8 (unat (p + of_nat (i * sz))) @ '': '' else []) @
     '' '' @ fmt_X (2 * sz) (phys_value ph sz (p + of_nat (i * sz)))"

lemma read_loop_all:
  assumes "\<And>j. i \<le> j \<Longrightarrow> j < i + n \<Longrightarrow>
    load w ph sz (addr + of_nat (j * sz)) = Some (phys_value ph sz (p + of_nat (j * sz)))"
  shows "read_loop w ph sz addr i n (p + of_nat (i * sz)) =
    Some (concat (map (unit_text ph sz p) [i..<i + n]))"
  using assms
proof (induction n arbitrary: i)
  case (Suc n)
  have "p + of_nat (i * sz) + of_nat sz = p + of_nat (Suc i * sz)" by simp
  note e = this
  have "[i..<i + Suc n] = i # [Suc i..<Suc i + n]" by (simp add: upt_conv_Cons del: upt_Suc)
  moreover have "read_loop w ph sz addr (Suc i) n (p + of_nat (Suc i * sz)) =
      Some (concat (map (unit_text ph sz p) [Suc i..<Suc i + n]))"
    using Suc.prems by (intro Suc.IH) simp
  ultimately show ?case
    using Suc.prems [of i]
    by (simp only: read_loop.simps e) (simp add: unit_text_def [of ph sz p i] del: upt_Suc of_nat_mult of_nat_Suc mult_Suc)
qed simp

lemma read_loop_fault:
  "i \<le> j \<Longrightarrow> j < i + n \<Longrightarrow> load w ph sz (addr + of_nat (j * sz)) = None \<Longrightarrow>
   read_loop w ph sz addr i n paddr = None"
proof (induction n arbitrary: i paddr)
  case (Suc n)
  then show ?case by (cases "i = j") (auto split: option.splits)
qed simp



lemma first_outside:
  assumes "len < off + count * sz" and "len \<le> 2 ^ 32 - 4096" and "off < (4096 :: nat)" and "0 < count"
  shows "\<exists>j<count. len < off + j * sz + sz \<and> off + j * sz < 2 ^ 32"
proof (cases "len < off + sz")
  case True
  then show ?thesis using assms(3,4) by (intro exI [of _ 0]) simp
next
  case False
  define j where "j = (LEAST j. len < off + j * sz + sz)"
  obtain c where c: "count = Suc c" using assms(4) by (cases count) auto
  then have c': "len < off + c * sz + sz" using assms(1) by (simp add: add.commute add.left_commute)
  then have j: "len < off + j * sz + sz" "j \<le> c" unfolding j_def by (rule LeastI, rule Least_le)
  then obtain i where i: "j = Suc i" using False by (cases j) auto
  then have "\<not> len < off + i * sz + sz" using not_less_Least [of i "\<lambda>j. len < off + j * sz + sz"] by (simp add: j_def)
  then have "off + j * sz \<le> len" using i by (simp add: add.commute add.left_commute)
  then show ?thesis using j c assms(2) by (intro exI [of _ j]) simp
qed

text \<open>What \<open>mmap\<close> does: it maps any length but 0, and not at the address 0.\<close>

definition maps_at :: "memtool_sys \<Rightarrow> u32 \<Rightarrow> bool" where
  "maps_at S va \<longleftrightarrow> open_mem S \<and> va \<noteq> 0 \<and>
     (\<forall>len off. mmap_mem S len off = (if len = 0 then None else Some va))"

lemma access_window:
  assumes "maps_at S va" and "aligned_length g \<noteq> 0"
  shows "memtool_access S g ph =
    (let mem = va + (g_paddr g - page_down (g_paddr g)); w = Some (page_window g va) in
     if g_is_write g
     then map_option (\<lambda>ph'. (0, announce g, ph')) (write_mem w ph mem (g_value g) (g_size g))
     else map_option (\<lambda>out. (0, announce g @ out, ph)) (read_mem w ph mem (g_count g) (g_size g) (g_paddr g)))"
  using assms by (simp add: memtool_access_def maps_at_def page_window_def Let_def)

lemma read_access:
  assumes S: "maps_at S va" and sz: "g_size g = 1 \<or> g_size g = 2 \<or> g_size g = 4" and "\<not> g_is_write g"
  shows "memtool_access S g ph =
    (if extent g + 4095 < 2 ^ 32 then
       Some (0, announce g @ concat (map (unit_text ph (unat (g_size g)) (g_paddr g)) [0..<unat (g_count g)]) @ nl @ nl, ph)
     else None)"
proof (cases "aligned_length g = 0")
  case True
  then have w: "memtool_access S g ph =
      map_option (\<lambda>out. (0, announce g @ out, ph))
        (read_mem None ph (- 1 + (g_paddr g - page_down (g_paddr g))) (g_count g) (g_size g) (g_paddr g))"
    using S assms(3) by (simp add: memtool_access_def maps_at_def Let_def)
  show ?thesis
  proof (cases "unat (g_count g)")
    case 0
    then show ?thesis using w sz by (auto simp: read_mem_def extent_def page_offset_def)
  next
    case (Suc n)
    then have "0 < extent g" using sz by (auto simp: extent_def)
    then have "\<not> extent g + 4095 < 2 ^ 32" using aligned_length_fits [of g] True by auto
    then show ?thesis using w sz Suc by (auto simp: read_mem_def load_def inside_def)
  qed
next
  case False
  let ?w = "Some (page_window g va)" and ?a = "va + (g_paddr g - page_down (g_paddr g))"
  let ?sz = "unat (g_size g)" and ?n = "unat (g_count g)"
  have w: "memtool_access S g ph = map_option (\<lambda>out. (0, announce g @ out @ nl @ nl, ph))
      (read_loop ?w ph ?sz ?a 0 ?n (g_paddr g))"
    using access_window [OF S False] assms(2,3) by (auto simp: read_mem_def Let_def option.map_comp comp_def)
  show ?thesis
  proof (cases "extent g + 4095 < 2 ^ 32")
    case True
    have "load ?w ph ?sz (?a + of_nat (j * ?sz)) = Some (phys_value ph ?sz (g_paddr g + of_nat (j * ?sz)))"
      if "j < ?n" for j
    proof -
      have "Suc j * ?sz \<le> ?n * ?sz" using that by (intro mult_le_mono1) simp
      then have "page_offset (g_paddr g) + j * ?sz + ?sz \<le> unat (aligned_length g)"
        using aligned_length_fits [OF True] by (simp add: extent_def)
      then show ?thesis by (rule load_unit)
    qed
    then have "read_loop ?w ph ?sz ?a 0 ?n (g_paddr g + of_nat (0 * ?sz)) =
        Some (concat (map (unit_text ph ?sz (g_paddr g)) [0..<0 + ?n]))"
      by (intro read_loop_all) simp
    then show ?thesis using w True by simp
  next
    case far: False
    have "unat (aligned_length g) < page_offset (g_paddr g) + ?n * ?sz"
      using far aligned_length_max [of g] by (simp add: extent_def)
    moreover have off: "page_offset (g_paddr g) < 4096" by (simp add: page_offset_def)
    moreover have "0 < ?n" using far off by (cases ?n) (simp_all add: extent_def)
    ultimately obtain j where j: "j < ?n" "unat (aligned_length g) < page_offset (g_paddr g) + j * ?sz + ?sz"
      "page_offset (g_paddr g) + j * ?sz < 2 ^ 32"
      using first_outside [OF _ aligned_length_max] by blast
    then have "load ?w ph ?sz (?a + of_nat (j * ?sz)) = None"
      using inside_unit [OF j(3)] by (simp add: load_def del: of_nat_mult)
    then have "read_loop ?w ph ?sz ?a 0 ?n (g_paddr g) = None" using j(1) by (intro read_loop_fault [of 0 j]) auto
    then show ?thesis using w far by simp
  qed
qed



section \<open>Writing\<close>

lemma fold_store:
  assumes "n \<le> 2 ^ 32"
  shows "fold (\<lambda>k ph. ph((b :: u32) + of_nat k := bs k)) [0..<n] ph x =
    (if unat (x - b) < n then bs (unat (x - b)) else ph x)"
  using assms
proof (induction n)
  case (Suc n)
  have "x = b + of_nat n \<longleftrightarrow> unat (x - b) = n"
    using Suc.prems by (auto simp: unat_of_nat)
  then show ?case using Suc by (auto simp: less_Suc_eq)
qed simp

lemma le_bytes_value:
  assumes "n = 1 \<or> n = 2 \<or> n = (4 :: nat)"
  shows "(\<Sum>k<n. unat (le_bytes 4 (uint v) ! k) * 2 ^ (8 * k)) = unat (v :: u32) mod 2 ^ (8 * n)"
proof -
  have b: "uint (le_bytes 4 (uint v) ! k) = uint v div 2 ^ (8 * k) mod 256" if "k < 4" for k
    using that int_unat_byte [of "uint v div 2 ^ (8 * k)"] by (simp add: le_bytes_def)
  have two: "uint v mod 65536 = uint v mod 256 + uint v div 256 mod 256 * 256"
    using zmod_zmult2_eq [of 256 "uint v" 256] by simp
  have s: "(\<Sum>k<4. f k) = f 0 + f 1 + f 2 + f 3" "(\<Sum>k<2. f k) = f 0 + f 1" for f :: "nat \<Rightarrow> int"
    by (simp_all add: eval_nat_numeral)
  have "(\<Sum>k<n. uint (le_bytes 4 (uint v) ! k) * 2 ^ (8 * k)) = uint v mod 2 ^ (8 * n)"
    using assms
  proof (elim disjE)
    assume "n = 1"
    then show ?thesis using b [of 0] by simp
  next
    assume n: "n = 2"
    have pw: "(2 :: int) ^ (8 * 0) = 1" "(2 :: int) ^ (8 * 1) = 256" "(2 :: int) ^ (8 * 2) = 65536" "(2 :: int) ^ 8 = 256"
      by simp_all
    have lt: "0 < (4 :: nat)" "1 < (4 :: nat)" by simp_all
    show ?thesis unfolding n s by (simp only: b lt pw div_by_1 mult_1_right two)
  next
    assume n: "n = 4"
    have pw: "(2 :: int) ^ (8 * 0) = 1" "(2 :: int) ^ (8 * 1) = 256" "(2 :: int) ^ (8 * 2) = 65536"
      "(2 :: int) ^ (8 * 3) = 16777216" "(2 :: int) ^ (8 * 4) = 4294967296" "(2 :: int) ^ 8 = 256" by simp_all
    have lt: "0 < (4 :: nat)" "1 < (4 :: nat)" "2 < (4 :: nat)" "3 < (4 :: nat)" by simp_all
    show ?thesis unfolding n s by (simp only: b lt pw div_by_1 mult_1_right bytes_sum)
  qed
  then have "int (\<Sum>k<n. unat (le_bytes 4 (uint v) ! k) * 2 ^ (8 * k)) = int (unat v mod 2 ^ (8 * n))"
    by (simp add: zmod_int)
  then show ?thesis by (simp only: of_nat_eq_iff)
qed

lemma write_access:
  assumes S: "maps_at S va" and sz: "g_size g = 1 \<or> g_size g = 2 \<or> g_size g = 4" and "g_is_write g"
    and "g_count g = 1"
  shows "\<exists>ph'. memtool_access S g ph = Some (0, announce g, ph') \<and>
    phys_value ph' (unat (g_size g)) (g_paddr g) = unat (g_value g) mod 2 ^ (8 * unat (g_size g)) \<and>
    (\<forall>x. unat (g_size g) \<le> unat (x - g_paddr g) \<longrightarrow> ph' x = ph x)"
proof -
  let ?sz = "unat (g_size g)"
  let ?b = "\<lambda>k. le_bytes 4 (uint (g_value g)) ! k"
  define ph' where "ph' = fold (\<lambda>k ph. ph(g_paddr g + of_nat k := ?b k)) [0..<?sz] ph"
  have 4: "?sz = 1 \<or> ?sz = 2 \<or> ?sz = 4" using sz by auto
  have e: "extent g = page_offset (g_paddr g) + ?sz" using assms(4) by (simp add: extent_def)
  have "page_offset (g_paddr g) < 4096" by (simp add: page_offset_def)
  then have "extent g \<le> unat (aligned_length g)" using 4 e by (intro aligned_length_fits) auto
  then have len: "page_offset (g_paddr g) + 0 + ?sz \<le> unat (aligned_length g)" "aligned_length g \<noteq> 0"
    using e 4 by auto
  have "inside (Some (page_window g va)) (va + (g_paddr g - page_down (g_paddr g))) ?sz"
    using inside_unit [of g 0 va ?sz] len(1) by (simp add: page_offset_def)
  then have "memtool_access S g ph = Some (0, announce g, ph')"
    using access_window [OF S len(2)] assms(2,3)
    by (auto simp: Let_def write_mem_def store_def backing_def page_window_def ph'_def)
  moreover have at: "ph' x = (if unat (x - g_paddr g) < ?sz then ?b (unat (x - g_paddr g)) else ph x)" for x
    unfolding ph'_def using 4 by (intro fold_store) auto
  moreover have "phys_value ph' ?sz (g_paddr g) = (\<Sum>k<?sz. unat (?b k) * 2 ^ (8 * k))"
    unfolding phys_value_def using 4 by (intro sum.cong) (auto simp: at unat_of_nat)
  ultimately show ?thesis using le_bytes_value [OF 4, of "g_value g"] by auto
qed


section \<open>Properties\<close>

text \<open>C21: A read command prints the units of physical memory from the address on, rounded down to
  the size of a unit, all of them inside the mapping, exactly if the length fits 32 bits after
  rounding to pages; otherwise the mapping is too short and the program reads past its end.\<close>

theorem memtool_reads_memory:
  assumes "maps_at S va" and g: "parse_cmdline argv memtool0 = Some g" and "\<not> g_is_write g"
  shows "memtool_main S argv ph =
    (if extent (align_to_size g) + 4095 < 2 ^ 32 then
       Some (0, announce (align_to_size g) @
         concat (map (unit_text ph (unat (g_size g)) (g_paddr (align_to_size g))) [0..<unat (g_count g)]) @ nl @ nl, ph)
     else None)"
  using read_access [OF assms(1), of "align_to_size g" ph] parse_cmdline_size [OF g] g assms(3)
  by (simp add: memtool_main_def align_to_size_def)

text \<open>C22: What a write command writes is what a read command of the same size at the same address
  prints afterwards, cut to that size, and no other byte of the memory changes.\<close>

theorem memtool_write_then_read:
  assumes "maps_at S va" and w: "parse_cmdline wargs memtool0 = Some gw" and "g_is_write gw"
    and r: "parse_cmdline rargs memtool0 = Some gr" and "\<not> g_is_write gr" and "g_count gr = 1"
    and same: "g_size gr = g_size gw" "g_paddr gr = g_paddr gw"
    and sz: "sz = unat (g_size gw)" and p: "p = g_paddr (align_to_size gw)"
  shows "\<exists>ph'. memtool_main S wargs ph = Some (0, announce (align_to_size gw), ph') \<and>
    (\<forall>x. sz \<le> unat (x - p) \<longrightarrow> ph' x = ph x) \<and>
    memtool_main S rargs ph' = Some (0, announce (align_to_size gr) @
      nl @ ''0x'' @ fmt_X 8 (unat p) @ '':  '' @ fmt_X (2 * sz) (unat (g_value gw) mod 2 ^ (8 * sz)) @ nl @ nl, ph')"
proof -
  obtain ph' where ph': "memtool_access S (align_to_size gw) ph = Some (0, announce (align_to_size gw), ph')"
    "phys_value ph' sz p = unat (g_value gw) mod 2 ^ (8 * sz)" "\<forall>x. sz \<le> unat (x - p) \<longrightarrow> ph' x = ph x"
    using write_access [OF assms(1), of "align_to_size gw" ph] parse_cmdline_size [OF w] assms(3)
    by (auto simp: align_to_size_def sz p)
  have "extent (align_to_size gr) + 4095 < 2 ^ 32"
    using parse_cmdline_size(1) [OF r] assms(6) by (auto simp: extent_def align_to_size_def page_offset_def)
  then have "memtool_access S (align_to_size gr) ph' =
      Some (0, announce (align_to_size gr) @ unit_text ph' sz p 0 @ nl @ nl, ph')"
    using read_access [OF assms(1), of "align_to_size gr" ph'] parse_cmdline_size(1) [OF r] assms(5,6) same
    by (simp add: align_to_size_def sz p)
  then show ?thesis using ph' w r by (auto simp: memtool_main_def unit_text_def)
qed


section \<open>Witnesses\<close>

definition mem_sys :: memtool_sys where
  "mem_sys = \<lparr>open_mem = True, mmap_mem = (\<lambda>len off. if len = 0 then None else Some 0xB6F00000)\<rparr>"

lemma mem_sys_maps: "maps_at mem_sys 0xB6F00000"
  by (simp add: maps_at_def mem_sys_def)

theorem memtool_reads_memory_witness:
  "memtool_main mem_sys [''memtool'', ''1000'', ''40000000''] (\<lambda>_. 0) = None \<and>
   memtool_main mem_sys [''memtool'', ''-8'', ''1001'', ''2''] (\<lambda>a. if a = 0x1002 then 0x42 else 0) =
     Some (0, ''Reading 0x2 count starting at address 0x00001001'' @ nl @ nl @ ''0x00001001:  00 42'' @ nl @ nl,
       \<lambda>a. if a = 0x1002 then 0x42 else 0)"
proof -
  have g: "parse_cmdline [''memtool'', ''1000'', ''40000000''] memtool0 =
      Some (memtool0\<lparr>g_paddr := 0x1000, g_count := 0x40000000\<rparr>)"
    and h: "parse_cmdline [''memtool'', ''-8'', ''1001'', ''2''] memtool0 =
      Some (memtool0\<lparr>g_size := 1, g_paddr := 0x1001, g_count := 2\<rparr>)"
    by (simp_all add: parse_cmdline_def size_arg_def value_arg_def memtool0_def clib_simps)
  have "replicate 4 c = [c, c, c, c]" for c :: char by (simp add: eval_nat_numeral)
  then have "fmt_X 0 2 = ''2''" "fmt_X 8 0x1001 = ''00001001''" "fmt_X 2 0 = ''00''" "fmt_X 2 0x42 = ''42''"
    by (simp_all add: fmt_X_def fmt_0x_def pad0_def fmt_base_def digits_of.simps toupper_hex_def digit_char_nth)
  moreover have "[0..<2] = [0, 1 :: nat]" by (simp add: upt_rec)
  moreover have "memtool_main mem_sys [''memtool'', ''1000'', ''40000000''] (\<lambda>_. 0) = None"
    using memtool_reads_memory [OF mem_sys_maps g, of "\<lambda>_. 0"]
    by (simp add: memtool0_def extent_def page_offset_def align_to_size_def)
  ultimately show ?thesis
    using memtool_reads_memory [OF mem_sys_maps h, of "\<lambda>a. if a = 0x1002 then 0x42 else 0"]
    by (simp add: memtool0_def extent_def page_offset_def align_to_size_def announce_def unit_text_def phys_value_def)
qed

theorem memtool_write_then_read_witness:
  "\<exists>ph'. memtool_main mem_sys [''memtool'', ''-16'', ''2003=12345''] (\<lambda>_. 0) =
      Some (0, ''Writing 16-bit value 0x12345 to address 0x00002002'' @ nl, ph') \<and>
    memtool_main mem_sys [''memtool'', ''-16'', ''2003'', ''1''] ph' =
      Some (0, ''Reading 0x1 count starting at address 0x00002002'' @ nl @ nl @ ''0x00002002:  2345'' @ nl @ nl, ph')"
proof -
  have w: "parse_cmdline [''memtool'', ''-16'', ''2003=12345''] memtool0 =
      Some (memtool0\<lparr>g_size := 2, g_paddr := 0x2003, g_is_write := True, g_value := 0x12345\<rparr>)"
    and r: "parse_cmdline [''memtool'', ''-16'', ''2003'', ''1''] memtool0 =
      Some (memtool0\<lparr>g_size := 2, g_paddr := 0x2003, g_count := 1\<rparr>)"
    by (simp_all add: parse_cmdline_def size_arg_def value_arg_def memtool0_def clib_simps)
  have replicate_numeral_4: "replicate 4 c = [c, c, c, c]" for c :: char by (simp add: eval_nat_numeral)
  have "fmt_X 0 0x12345 = ''12345''" "fmt_X 8 0x2002 = ''00002002''" "fmt_X 0 1 = ''1''" "fmt_X 4 0x2345 = ''2345''"
    "fmt_d 16 = ''16''"
    by (simp_all add: fmt_X_def fmt_0x_def pad0_def fmt_d_def fmt_u_def fmt_base_def digits_of.simps
        toupper_hex_def digit_char_nth replicate_numeral_4)
  then show ?thesis
    using memtool_write_then_read [OF mem_sys_maps w _ r _ _ _ _ refl refl, of "\<lambda>_. 0"]
    by (simp add: memtool0_def align_to_size_def announce_def) blast
qed

end
