(* ===== verification/Macvlan.thy ===== *)
theory Macvlan
  imports CLib
begin

text \<open>
  The configuration utility for VLANs based on MAC addresses
  (\<open>src/ethernet_test/vlan/macvlan_config.c\<close>). The kernel module it talks to is not part of the
  sources: its state is the type \<open>'k\<close> and its \<open>ioctl\<close> an argument, with a request per command.
  A request fails with an error number or gives a reply of a number and an array of characters.
  Messages on stderr are left out.
\<close>

unbundle bit_operations_syntax

section \<open>The kernel module\<close>

datatype mv_req =
    MACVLAN_ENABLE cstr | MACVLAN_DISABLE cstr | MACVLAN_ADD cstr int | MACVLAN_DEL cstr
  | MACVLAN_BIND cstr "u8 list" | MACVLAN_UNBIND cstr "u8 list" | MACVLAN_SET_PORT_FLAGS cstr int
  | MACVLAN_GET_NUM_PORTS | MACVLAN_GET_PORT_NAME int | MACVLAN_GET_PORT_FLAGS int cstr
  | MACVLAN_GET_NUM_VLANS int | MACVLAN_GET_VLAN_NAME int int
  | MACVLAN_GET_NUM_MACS int int | MACVLAN_GET_MAC_NAME int int int

record mv_reply =
  rep_num :: int
  rep_name :: "char list"   \<comment> \<open>the array, also behind a terminating 0\<close>

record 'k mv_sys =
  mv_socket :: bool
  mv_ioctl :: "mv_req \<Rightarrow> 'k \<Rightarrow> (int + mv_reply) \<times> 'k"
  mv_system :: "cstr \<Rightarrow> 'k \<Rightarrow> 'k"

definition EEXIST :: int where "EEXIST = 17"

text \<open>The string in an array.\<close>

definition c_string :: "char list \<Rightarrow> cstr" where
  "c_string a = takeWhile (\<lambda>c. c \<noteq> CHR 0x00) a"

text \<open>Result, output and the state of the kernel.\<close>

type_synonym 'k mv_result = "int \<times> cstr \<times> 'k"

section \<open>Commands that change something\<close>

definition parseInt :: "cstr \<Rightarrow> int" where "parseInt s = strtol 0 s"

definition mv_usage :: "cstr list \<Rightarrow> cstr \<Rightarrow> 'k \<Rightarrow> 'k mv_result" where
  "mv_usage argv args k = (1, ''usage: '' @ argv ! 0 @ args @ nl, k)"

definition do_enable :: "'k mv_sys \<Rightarrow> cstr list \<Rightarrow> 'k \<Rightarrow> 'k mv_result" where
  "do_enable S argv k =
     (if length argv < 2 then mv_usage argv '' <ifname>'' k
      else if \<not> mv_socket S then (1, [], k)
      else case mv_ioctl S (MACVLAN_ENABLE (argv ! 1)) k of
        (Inl errno, k') \<Rightarrow> if errno \<noteq> EEXIST then (1, ''errno: '' @ fmt_d errno @ nl, k') else (0, [], k')
      | (Inr rep, k') \<Rightarrow> (0, [], k'))"

definition do_setflags :: "'k mv_sys \<Rightarrow> cstr list \<Rightarrow> 'k \<Rightarrow> 'k mv_result" where
  "do_setflags S argv k =
     (if length argv < 3 then mv_usage argv '' <ifname> <flags>'' k
      else if \<not> mv_socket S then (1, [], k)
      else case mv_ioctl S (MACVLAN_SET_PORT_FLAGS (argv ! 1) (parseInt (argv ! 2))) k of
        (Inl errno, k') \<Rightarrow> (1, [], k')
      | (Inr rep, k') \<Rightarrow> (0, [], k'))"

definition disable_port :: "'k mv_sys \<Rightarrow> cstr \<Rightarrow> 'k \<Rightarrow> 'k mv_result" where
  "disable_port S port k =
     (case mv_ioctl S (MACVLAN_DISABLE port) k of
        (Inl errno, k') \<Rightarrow> (- 1, [], k')
      | (Inr rep, k') \<Rightarrow> (0, ''Disabled port: '' @ port @ nl, k'))"

definition do_disable :: "'k mv_sys \<Rightarrow> cstr list \<Rightarrow> 'k \<Rightarrow> 'k mv_result" where
  "do_disable S argv k =
     (if length argv < 2 then mv_usage argv '' <ifname>'' k
      else if \<not> mv_socket S then (1, [], k)
      else disable_port S (argv ! 1) k)"

definition do_add :: "'k mv_sys \<Rightarrow> cstr list \<Rightarrow> 'k \<Rightarrow> 'k mv_result" where
  "do_add S argv k =
     (if length argv < 3 then mv_usage argv '' <ifname> <index>'' k
      else if \<not> mv_socket S then (1, [], k)
      else case mv_ioctl S (MACVLAN_ADD (argv ! 1) (parseInt (argv ! 2))) k of
        (Inl errno, k') \<Rightarrow> (1, [], k')
      | (Inr rep, k') \<Rightarrow> (0, [], k'))"

definition del_vlan :: "'k mv_sys \<Rightarrow> cstr \<Rightarrow> 'k \<Rightarrow> 'k mv_result" where
  "del_vlan S ifname k =
     (case mv_ioctl S (MACVLAN_DEL ifname) k of
        (Inl errno, k') \<Rightarrow> (- 1, ''failed to delete interface: '' @ ifname @ nl, k')
      | (Inr rep, k') \<Rightarrow> (0, ''Deleted interface: '' @ ifname @ nl, k'))"

definition do_del :: "'k mv_sys \<Rightarrow> cstr list \<Rightarrow> 'k \<Rightarrow> 'k mv_result" where
  "do_del S argv k =
     (if length argv < 2 then mv_usage argv '' <ifname>'' k
      else if \<not> mv_socket S then (1, [], k)
      else del_vlan S (argv ! 1) k)"

definition get_num_ports :: "'k mv_sys \<Rightarrow> 'k \<Rightarrow> 'k mv_result" where
  "get_num_ports S k =
     (case mv_ioctl S MACVLAN_GET_NUM_PORTS k of
        (Inl errno, k') \<Rightarrow> (- 1, [], k')
      | (Inr rep, k') \<Rightarrow> (rep_num rep, ''Found: '' @ fmt_d (rep_num rep) @ '' ports'' @ nl, k'))"

definition get_num_vlans :: "'k mv_sys \<Rightarrow> int \<Rightarrow> 'k \<Rightarrow> 'k mv_result" where
  "get_num_vlans S portidx k =
     (case mv_ioctl S (MACVLAN_GET_NUM_VLANS portidx) k of
        (Inl errno, k') \<Rightarrow> (- 1, [], k')
      | (Inr rep, k') \<Rightarrow>
          (rep_num rep, ''Found: '' @ fmt_d (rep_num rep) @ '' vlans for port: '' @ fmt_d portidx @ nl, k'))"

text \<open>Hexadecimal numbers: a character that is no digit counts as 0.\<close>

definition htoi_digit :: "char \<Rightarrow> u32" where
  "htoi_digit ch =
     (let n = of_char ch :: nat in
      if 48 \<le> n \<and> n \<le> 57 then of_nat (n - 48)
      else if 97 \<le> n \<and> n \<le> 102 then of_nat (n - 97 + 10)
      else if 65 \<le> n \<and> n \<le> 70 then of_nat (n - 65 + 10) else 0)"

definition htoi :: "cstr \<Rightarrow> u32" where
  "htoi s = foldl (\<lambda>i ch. push_bit 4 i + htoi_digit ch) 0 s"

text \<open>The address in an argument, whose separators are overwritten by 0.\<close>

definition cut_colons :: "char list \<Rightarrow> char list" where
  "cut_colons s = fold (\<lambda>p t. t[p := CHR 0x00]) [2, 5, 8, 11, 14] s"

definition parse_mac :: "cstr \<Rightarrow> u8 list option" where
  "parse_mac s =
     (if length s \<noteq> 17 then None
      else Some (map (\<lambda>p. ucast (htoi (c_string (drop p (cut_colons s))))) [0, 3, 6, 9, 12, 15]))"

definition bad_mac :: cstr where
  "bad_mac = ''bad macaddr format: need aa:bb:cc:dd:ee:ff'' @ nl"

definition do_bind :: "'k mv_sys \<Rightarrow> cstr list \<Rightarrow> 'k \<Rightarrow> 'k mv_result" where
  "do_bind S argv k =
     (if length argv < 3 then mv_usage argv '' <ifname> <macaddr>'' k
      else if \<not> mv_socket S then (1, [], k)
      else case parse_mac (argv ! 2) of
        None \<Rightarrow> (1, bad_mac, k)
      | Some macaddr \<Rightarrow>
          (case mv_ioctl S (MACVLAN_BIND (argv ! 1) macaddr) k of
             (Inl errno, k') \<Rightarrow> (1, [], k')
           | (Inr rep, k') \<Rightarrow> (0, [], k')))"

definition do_unbind :: "'k mv_sys \<Rightarrow> cstr list \<Rightarrow> 'k \<Rightarrow> 'k mv_result" where
  "do_unbind S argv k =
     (if length argv < 3 then mv_usage argv '' <ifname> <macaddr>'' k
      else if \<not> mv_socket S then (1, [], k)
      else case parse_mac (argv ! 2) of
        None \<Rightarrow> (1, bad_mac, k)
      | Some macaddr \<Rightarrow>
          (case mv_ioctl S (MACVLAN_UNBIND (argv ! 1) macaddr) k of
             (Inl errno, k') \<Rightarrow> (1, [], k')
           | (Inr rep, k') \<Rightarrow> (0, [], k')))"


section \<open>do\_info\<close>

text \<open>A loop over indices that stops at the first result other than 0.\<close>

fun for_each :: "(int \<Rightarrow> 'k \<Rightarrow> 'k mv_result) \<Rightarrow> int list \<Rightarrow> 'k \<Rightarrow> 'k mv_result" where
  "for_each f [] k = (0, [], k)"
| "for_each f (i # is) k =
     (case f i k of (r, out, k') \<Rightarrow>
        if r \<noteq> 0 then (r, out, k')
        else case for_each f is k' of (r2, out2, k2) \<Rightarrow> (r2, out @ out2, k2))"

definition mac_text :: "u8 list \<Rightarrow> cstr" where
  "mac_text p = fmt_0x 2 (unat (p ! 0)) @ '':'' @ fmt_0x 2 (unat (p ! 1)) @ '':'' @
     fmt_0x 2 (unat (p ! 2)) @ '':'' @ fmt_0x 2 (unat (p ! 3)) @ '':'' @
     fmt_0x 2 (unat (p ! 4)) @ '':'' @ fmt_0x 2 (unat (p ! 5))"

definition info_mac :: "'k mv_sys \<Rightarrow> int \<Rightarrow> int \<Rightarrow> int \<Rightarrow> 'k \<Rightarrow> 'k mv_result" where
  "info_mac S portidx ifidx macidx k =
     (case mv_ioctl S (MACVLAN_GET_MAC_NAME portidx ifidx macidx) k of
        (Inl errno, k') \<Rightarrow> (1, [], k')
      | (Inr rep, k') \<Rightarrow> (0, '' | |-'' @ mac_text (map of_char (rep_name rep)) @ nl, k'))"

definition info_vlan :: "'k mv_sys \<Rightarrow> int \<Rightarrow> int \<Rightarrow> 'k \<Rightarrow> 'k mv_result" where
  "info_vlan S portidx ifidx k =
     (case mv_ioctl S (MACVLAN_GET_VLAN_NAME portidx ifidx) k of
        (Inl errno, k1) \<Rightarrow> (1, [], k1)
      | (Inr rep, k1) \<Rightarrow>
          let out1 = '' |-'' @ c_string (rep_name rep) @ nl in
          (case mv_ioctl S (MACVLAN_GET_NUM_MACS portidx ifidx) k1 of
             (Inl errno, k2) \<Rightarrow> (1, out1, k2)
           | (Inr rep2, k2) \<Rightarrow>
               (case for_each (info_mac S portidx ifidx) [0..rep_num rep2 - 1] k2 of
                  (r, out2, k3) \<Rightarrow> (r, out1 @ out2, k3))))"

definition info_port :: "'k mv_sys \<Rightarrow> int \<Rightarrow> 'k \<Rightarrow> 'k mv_result" where
  "info_port S portidx k =
     (case mv_ioctl S (MACVLAN_GET_PORT_NAME portidx) k of
        (Inl errno, k1) \<Rightarrow> (1, [], k1)
      | (Inr rep, k1) \<Rightarrow>
          let tmpifname = c_string (rep_name rep); out1 = ''-'' @ tmpifname @ nl in
          (case mv_ioctl S (MACVLAN_GET_PORT_FLAGS portidx tmpifname) k1 of
             (Inl errno, k2) \<Rightarrow> (1, out1, k2)
           | (Inr rep2, k2) \<Rightarrow>
               let out2 = ''-'' @ tmpifname @ '' flag: 0x'' @ fmt_base 16 (nat (rep_num rep2 mod 2 ^ 32)) @ nl in
               (case mv_ioctl S (MACVLAN_GET_NUM_VLANS portidx) k2 of
                  (Inl errno, k3) \<Rightarrow> (1, out1 @ out2, k3)
                | (Inr rep3, k3) \<Rightarrow>
                    (case for_each (info_vlan S portidx) [0..rep_num rep3 - 1] k3 of
                       (r, out3, k4) \<Rightarrow> (r, out1 @ out2 @ out3, k4)))))"

definition do_info :: "'k mv_sys \<Rightarrow> 'k \<Rightarrow> 'k mv_result" where
  "do_info S k =
     (if \<not> mv_socket S then (1, [], k)
      else case mv_ioctl S MACVLAN_GET_NUM_PORTS k of
        (Inl errno, k') \<Rightarrow> (1, [], k')
      | (Inr rep, k') \<Rightarrow> for_each (info_port S) [0..rep_num rep - 1] k')"


section \<open>do\_unload\<close>

text \<open>
  The loops go on as long as the kernel reports something left; None if they never end.
\<close>

partial_function (option) unload_vlans :: "'k mv_sys \<Rightarrow> 'k \<Rightarrow> 'k mv_result option" where
  "unload_vlans S k =
     (case get_num_vlans S 0 k of (n, out1, k1) \<Rightarrow>
        if n \<le> 0 then Some (0, out1, k1)
        else case mv_ioctl S (MACVLAN_GET_VLAN_NAME 0 0) k1 of
          (Inl errno, k2) \<Rightarrow> Some (1, out1, k2)
        | (Inr rep, k2) \<Rightarrow>
            let ifname = c_string (rep_name rep) in
            (case del_vlan S ifname (mv_system S (''ifconfig '' @ ifname @ '' down'') k2) of (d, out2, k3) \<Rightarrow>
               Option.bind (unload_vlans S k3) (\<lambda>(r, out3, k4).
                 Some (r, out1 @ ''Configuring down interface: '' @ ifname @ '' with ifconfig...'' @
                          out2 @ out3, k4))))"

partial_function (option) unload_ports :: "'k mv_sys \<Rightarrow> 'k \<Rightarrow> 'k mv_result option" where
  "unload_ports S k =
     (case get_num_ports S k of (n, out1, k1) \<Rightarrow>
        if n \<le> 0 then Some (0, out1, k1)
        else case mv_ioctl S (MACVLAN_GET_PORT_NAME 0) k1 of
          (Inl errno, k2) \<Rightarrow> Some (1, out1, k2)
        | (Inr rep, k2) \<Rightarrow>
            let port = c_string (rep_name rep) in
            Option.bind (unload_vlans S k2) (\<lambda>(r, out2, k3).
              if r \<noteq> 0 then Some (r, out1 @ out2, k3)
              else case disable_port S port k3 of (d, out3, k4) \<Rightarrow>
                Option.bind (unload_ports S k4) (\<lambda>(r2, out4, k5).
                  Some (r2, out1 @ out2 @ out3 @ out4, k5))))"

declare unload_vlans.simps [simp del] unload_ports.simps [simp del]

definition do_unload :: "'k mv_sys \<Rightarrow> 'k \<Rightarrow> 'k mv_result option" where
  "do_unload S k = (if \<not> mv_socket S then Some (1, [], k) else unload_ports S k)"



section \<open>The commands\<close>

text \<open>Name, short and long help of the commands.\<close>

definition quoted :: "cstr \<Rightarrow> cstr" where "quoted s = [CHR 0x22] @ s @ [CHR 0x22]"

definition command_list :: "(cstr \<times> cstr \<times> cstr) list" where
  "command_list =
     [(''help'', ''help on other commands'', ''help <command>''),
      (''enable'', ''enables mac based vlans over an ethernet device'',
        ''enable <ifname>'' @ nl @ '' - enables mac based vlans over '' @ quoted ''ifname'' @ nl @
        '' - also creates a default vlan over '' @ quoted ''ifname'' @ '' called '' @ quoted ''ifname#0''),
      (''disable'', ''disables mac based vlans over an ethernet device'', ''disable <ifname>''),
      (''add'', ''creates new mac based vlan'',
        ''add <ifname> <index>'' @ nl @
        '' - creates a new mac based vlan called '' @ quoted ''ifname#index'' @ '' layered over '' @
          quoted ''ifname'' @ nl @
        '' - mac based vlans over '' @ quoted ''ifname'' @ '' must first be enabled with '' @ quoted ''enable'' @ nl @
        '' - '' @ quoted ''ifname#index'' @ '' is not mapped to any MAC address until '' @ quoted ''bind'' @ '' is called''),
      (''del'', ''destroys a mac based vlan'',
        ''del <ifname>'' @ nl @ '' - deletes a mac base vlan called '' @ quoted ''ifname''),
      (''bind'', ''binds macaddr to vlan'',
        ''bind  <ifname> <macaddr>'' @ nl @ '' - binds macaddr to vlan called '' @ quoted ''ifname''),
      (''unbind'', ''unbinds macaddr from vlan'',
        ''unbind <ifname> <macaddr>'' @ nl @ '' - unbinds macaddr from vlan called '' @ quoted ''ifname''),
      (''unload'', ''Unconfigure all of the macvlan devices'',
        ''Unconfigure all of the macvlan devices so module can be unloaded''),
      (''setflags'', ''Set port flags on a port'',
        ''setflags <ifname> <new_flags>'' @ nl @ ''0x01   Bind to Destination instead of source MAC''),
      (''info'', ''print state of mac based vlans'', ''info'')]"

definition do_help :: "cstr list \<Rightarrow> 'k \<Rightarrow> 'k mv_result" where
  "do_help argv k =
     (if length argv < 2 then (- 1, [], k)
      else case map_of command_list (argv ! 1) of
        None \<Rightarrow> (- 1, [], k)
      | Some (short_help, long_help) \<Rightarrow> (0, long_help @ nl, k))"

definition mv_command :: "'k mv_sys \<Rightarrow> cstr \<Rightarrow> cstr list \<Rightarrow> 'k \<Rightarrow> 'k mv_result option" where
  "mv_command S name argv k =
     (if name = ''help'' then Some (do_help argv k)
      else if name = ''enable'' then Some (do_enable S argv k)
      else if name = ''disable'' then Some (do_disable S argv k)
      else if name = ''add'' then Some (do_add S argv k)
      else if name = ''del'' then Some (do_del S argv k)
      else if name = ''bind'' then Some (do_bind S argv k)
      else if name = ''unbind'' then Some (do_unbind S argv k)
      else if name = ''unload'' then do_unload S k
      else if name = ''setflags'' then Some (do_setflags S argv k)
      else Some (do_info S k))"

definition mv_subcommands :: "cstr \<Rightarrow> cstr" where
  "mv_subcommands prog = nl @ prog @ '' subcommands:'' @ nl @ nl @
     concat (map (\<lambda>(name, short_help, long_help). prog @ '' '' @ name @ '':'' @ tab @ short_help @ nl)
       command_list)"

text \<open>
  The exit status is None where \<open>err\<close> is returned without having been set. The result of
  \<open>mv_main\<close> is None if the command does not end.
\<close>

definition mv_main :: "'k mv_sys \<Rightarrow> cstr list \<Rightarrow> 'k \<Rightarrow> (int option \<times> cstr \<times> 'k) option" where
  "mv_main S argv k =
     (if length argv < 2 \<or> map_of command_list (argv ! 1) = None
      then Some (None, mv_subcommands (argv ! 0), k)
      else Option.bind (mv_command S (argv ! 1) (tl argv) k) (\<lambda>(err, out, k').
        if err \<noteq> 0 then Some (Some err, out @ mv_subcommands (argv ! 0), k')
        else Some (Some 0, out, k')))"


section \<open>Addresses\<close>

lemma htoi_digit_char: "d < 16 \<Longrightarrow> htoi_digit (digit_char d) = of_nat d"
  by (simp add: htoi_digit_def of_char_digit_char)

lemma digit_char_0: "digit_char 0 = CHR ''0''"
  by code_simp

lemma fmt_0x_2: "fmt_0x 2 (unat (b :: u8)) = [digit_char (unat b div 16), digit_char (unat b mod 16)]"
proof -
  have "unat b < 256" using unat_mod_le [of b] by simp
  then have "unat b div 16 < 16" by linarith
  then show ?thesis
    by (cases "unat b < 16")
      (simp_all add: fmt_0x_def pad0_def fmt_base_def digits_of.simps digit_char_0)
qed

lemma digit_char_nonzero: "d < 16 \<Longrightarrow> digit_char d \<noteq> CHR 0x00"
  using of_char_digit_char [of d] by (auto split: if_splits)

lemma htoi_byte: "(ucast (htoi (fmt_0x 2 (unat b))) :: u8) = b"
proof -
  have b: "unat b < 256" using unat_mod_le [of b] by simp
  then have "htoi (fmt_0x 2 (unat b)) = push_bit 4 (of_nat (unat b div 16)) + of_nat (unat b mod 16)"
    by (simp add: htoi_def fmt_0x_2 htoi_digit_char)
  also have "\<dots> = of_nat (unat b div 16 * 16 + unat b mod 16)"
    by (simp only: push_bit_eq_mult of_nat_add of_nat_mult) simp
  finally have "htoi (fmt_0x 2 (unat b)) = of_nat (unat b)" by simp
  then show ?thesis
    using b by (simp add: word_unat_eq_iff unsigned_ucast_eq unat_of_nat take_bit_nat_eq_self)
qed

lemma parse_mac_text:
  assumes "length bs = 6"
  shows "parse_mac (mac_text bs) = Some bs"
proof -
  obtain a b c d e f where bs: "bs = [a, b, c, d, e, f]"
    using assms by (auto simp: numeral_eq_Suc length_Suc_conv)
  have two: "c_string (x # y # CHR 0x00 # r) = [x, y]" "c_string [x, y] = [x, y]"
    if "x \<noteq> CHR 0x00" "y \<noteq> CHR 0x00" for x y r
    using that by (simp_all add: c_string_def)
  have nz: "digit_char (unat v div 16) \<noteq> CHR 0x00" "digit_char (unat v mod 16) \<noteq> CHR 0x00" for v :: u8
    using unat_mod_le [of v] by (simp_all add: digit_char_nonzero)
  have byte: "(ucast (htoi [digit_char (unat v div 16), digit_char (unat v mod 16)]) :: u8) = v" for v :: u8
    using htoi_byte [of v] by (simp add: fmt_0x_2)
  show ?thesis
    by (simp add: bs parse_mac_def mac_text_def fmt_0x_2 cut_colons_def two nz byte)
qed



section \<open>What the kernel module is expected to do\<close>

type_synonym mv_vlan = "cstr \<times> u8 list list"
type_synonym mv_port = "cstr \<times> int \<times> mv_vlan list"

definition says_num :: "'k mv_sys \<Rightarrow> 'k \<Rightarrow> mv_req \<Rightarrow> int \<Rightarrow> bool" where
  "says_num S k req n \<longleftrightarrow> (\<exists>rep. mv_ioctl S req k = (Inr rep, k) \<and> rep_num rep = n)"

definition says_name :: "'k mv_sys \<Rightarrow> 'k \<Rightarrow> mv_req \<Rightarrow> cstr \<Rightarrow> bool" where
  "says_name S k req s \<longleftrightarrow> (\<exists>rep. mv_ioctl S req k = (Inr rep, k) \<and> c_string (rep_name rep) = s)"

definition says_mac :: "'k mv_sys \<Rightarrow> 'k \<Rightarrow> mv_req \<Rightarrow> u8 list \<Rightarrow> bool" where
  "says_mac S k req bs \<longleftrightarrow>
     length bs = 6 \<and> (\<exists>rep. mv_ioctl S req k = (Inr rep, k) \<and> map of_char (take 6 (rep_name rep)) = bs)"

definition reads_vlan :: "'k mv_sys \<Rightarrow> 'k \<Rightarrow> int \<Rightarrow> int \<Rightarrow> mv_vlan \<Rightarrow> bool" where
  "reads_vlan S k i j v \<longleftrightarrow>
     says_name S k (MACVLAN_GET_VLAN_NAME i j) (fst v) \<and>
     says_num S k (MACVLAN_GET_NUM_MACS i j) (int (length (snd v))) \<and>
     (\<forall>l<length (snd v). says_mac S k (MACVLAN_GET_MAC_NAME i j (int l)) (snd v ! l))"

definition reads_port :: "'k mv_sys \<Rightarrow> 'k \<Rightarrow> int \<Rightarrow> mv_port \<Rightarrow> bool" where
  "reads_port S k i p \<longleftrightarrow>
     (case p of (name, flags, vlans) \<Rightarrow>
        says_name S k (MACVLAN_GET_PORT_NAME i) name \<and>
        says_num S k (MACVLAN_GET_PORT_FLAGS i name) flags \<and>
        says_num S k (MACVLAN_GET_NUM_VLANS i) (int (length vlans)) \<and>
        (\<forall>j<length vlans. reads_vlan S k i (int j) (vlans ! j)))"

text \<open>Requests that read report the ports, VLANs and addresses there are.\<close>

definition reads_well :: "'k mv_sys \<Rightarrow> ('k \<Rightarrow> mv_port list) \<Rightarrow> bool" where
  "reads_well S ports \<longleftrightarrow>
     (\<forall>k. says_num S k MACVLAN_GET_NUM_PORTS (int (length (ports k))) \<and>
        (\<forall>i<length (ports k). reads_port S k (int i) (ports k ! i)))"

text \<open>A VLAN can be deleted and a port without VLANs be disabled; shell commands do neither.\<close>

definition removes_well :: "'k mv_sys \<Rightarrow> ('k \<Rightarrow> mv_port list) \<Rightarrow> bool" where
  "removes_well S ports \<longleftrightarrow>
     (\<forall>k p f v vs ps. ports k = (p, f, v # vs) # ps \<longrightarrow>
        (\<exists>rep k'. mv_ioctl S (MACVLAN_DEL (fst v)) k = (Inr rep, k') \<and> ports k' = (p, f, vs) # ps)) \<and>
     (\<forall>k p f ps. ports k = (p, f, []) # ps \<longrightarrow>
        (\<exists>rep k'. mv_ioctl S (MACVLAN_DISABLE p) k = (Inr rep, k') \<and> ports k' = ps)) \<and>
     (\<forall>k c. ports (mv_system S c k) = ports k)"


section \<open>What do\_info prints\<close>

definition vlan_text :: "mv_vlan \<Rightarrow> cstr" where
  "vlan_text v = '' |-'' @ fst v @ nl @ concat (map (\<lambda>a. '' | |-'' @ mac_text a @ nl) (snd v))"

definition port_text :: "mv_port \<Rightarrow> cstr" where
  "port_text p = (case p of (name, flags, vlans) \<Rightarrow>
     ''-'' @ name @ nl @ ''-'' @ name @ '' flag: 0x'' @ fmt_base 16 (nat (flags mod 2 ^ 32)) @ nl @
     concat (map vlan_text vlans))"

lemma for_each_all:
  assumes "\<And>i. i < length xs \<Longrightarrow> f (int i) k = (0, g (xs ! i), k)"
  shows "for_each f [0..int (length xs) - 1] k = (0, concat (map g xs), k)"
proof -
  have "for_each f [int j..int (length xs) - 1] k = (0, concat (map g (drop j xs)), k)"
    if "j \<le> length xs" for j
    using that
  proof (induction j rule: inc_induct)
    case (step j)
    have "[int j..int (length xs) - 1] = int j # [int (Suc j)..int (length xs) - 1]"
      using step by (subst upto.simps) (simp add: add.commute)
    moreover have "drop j xs = xs ! j # drop (Suc j) xs" using step by (simp add: Cons_nth_drop_Suc)
    ultimately show ?case using step assms [of j] by simp
  qed simp
  from this [of 0] show ?thesis by simp
qed

lemma mac_text_take:
  assumes "map of_char (take 6 a) = bs" and "length bs = 6"
  shows "mac_text (map of_char a) = mac_text bs"
proof -
  have "length a \<ge> 6" using assms by auto
  then have "map of_char a ! i = bs ! i" if "i < 6" for i
    using assms(1) [symmetric] that by simp
  then show ?thesis by (simp add: mac_text_def)
qed

lemma info_vlan_text:
  assumes "reads_vlan S k i j v"
  shows "info_vlan S i j k = (0, vlan_text v, k)"
proof -
  have "info_mac S i j (int l) k = (0, '' | |-'' @ mac_text (snd v ! l) @ nl, k)" if "l < length (snd v)" for l
  proof -
    have "says_mac S k (MACVLAN_GET_MAC_NAME i j (int l)) (snd v ! l)"
      using assms that by (simp add: reads_vlan_def)
    then show ?thesis unfolding says_mac_def by (auto simp: info_mac_def dest: mac_text_take)
  qed
  then have "for_each (info_mac S i j) [0..int (length (snd v)) - 1] k =
      (0, concat (map (\<lambda>a. '' | |-'' @ mac_text a @ nl) (snd v)), k)"
    by (rule for_each_all)
  then show ?thesis
    using assms unfolding reads_vlan_def says_name_def says_num_def
    by (auto simp: info_vlan_def vlan_text_def Let_def)
qed

lemma info_port_text:
  assumes "reads_port S k i p"
  shows "info_port S i k = (0, port_text p, k)"
proof -
  obtain name flags vlans where p: "p = (name, flags, vlans)" by (cases p)
  have "for_each (info_vlan S i) [0..int (length vlans) - 1] k = (0, concat (map vlan_text vlans), k)"
    using assms by (intro for_each_all info_vlan_text) (simp add: reads_port_def p)
  then show ?thesis
    using assms unfolding reads_port_def says_name_def says_num_def
    by (auto simp: info_port_def port_text_def p Let_def)
qed


section \<open>What do\_unload does\<close>

lemma reads_first:
  assumes "reads_well S ports" and "ports k = (p, f, vs) # ps"
  shows "\<exists>rep. mv_ioctl S (MACVLAN_GET_PORT_NAME 0) k = (Inr rep, k) \<and> c_string (rep_name rep) = p"
    and "\<exists>rep. mv_ioctl S (MACVLAN_GET_NUM_VLANS 0) k = (Inr rep, k) \<and> rep_num rep = int (length vs)"
    and "vs = v # vs' \<Longrightarrow>
      \<exists>rep. mv_ioctl S (MACVLAN_GET_VLAN_NAME 0 0) k = (Inr rep, k) \<and> c_string (rep_name rep) = fst v"
proof -
  have r: "reads_port S k 0 (p, f, vs)"
    using assms(1) [unfolded reads_well_def, rule_format, of k, THEN conjunct2, rule_format, of 0] assms(2)
    by simp
  then show "\<exists>rep. mv_ioctl S (MACVLAN_GET_PORT_NAME 0) k = (Inr rep, k) \<and> c_string (rep_name rep) = p"
    and "\<exists>rep. mv_ioctl S (MACVLAN_GET_NUM_VLANS 0) k = (Inr rep, k) \<and> rep_num rep = int (length vs)"
    by (simp_all add: reads_port_def says_name_def says_num_def)
  show "\<exists>rep. mv_ioctl S (MACVLAN_GET_VLAN_NAME 0 0) k = (Inr rep, k) \<and> c_string (rep_name rep) = fst v"
    if "vs = v # vs'"
    using r that by (auto simp: reads_port_def reads_vlan_def says_name_def)
qed

lemma unload_vlans_all:
  assumes "reads_well S ports" and "removes_well S ports" and "ports k = (p, f, vs) # ps"
  shows "\<exists>out k'. unload_vlans S k = Some (0, out, k') \<and> ports k' = (p, f, []) # ps"
  using assms(3)
proof (induction vs arbitrary: k)
  case Nil
  then show ?case
    using reads_first(2) [OF assms(1) Nil]
    by (subst unload_vlans.simps) (auto simp: get_num_vlans_def)
next
  case (Cons v vs)
  obtain rep where n: "mv_ioctl S (MACVLAN_GET_NUM_VLANS 0) k = (Inr rep, k)"
    "rep_num rep = int (length (v # vs))" using reads_first(2) [OF assms(1) Cons.prems] by blast
  obtain rep2 where v: "mv_ioctl S (MACVLAN_GET_VLAN_NAME 0 0) k = (Inr rep2, k)"
    "c_string (rep_name rep2) = fst v" using reads_first(3) [OF assms(1) Cons.prems refl] by blast
  let ?k = "mv_system S (''ifconfig '' @ fst v @ '' down'') k"
  have "ports ?k = (p, f, v # vs) # ps" using assms(2) Cons.prems by (simp add: removes_well_def)
  then obtain rep3 k' where d: "mv_ioctl S (MACVLAN_DEL (fst v)) ?k = (Inr rep3, k')" "ports k' = (p, f, vs) # ps"
    using assms(2) unfolding removes_well_def by blast
  show ?case
    using Cons.IH [OF d(2)] n v d(1)
    by (subst unload_vlans.simps) (auto simp: get_num_vlans_def del_vlan_def Let_def)
qed

lemma reads_num_ports:
  assumes "reads_well S ports"
  shows "\<exists>rep. mv_ioctl S MACVLAN_GET_NUM_PORTS k = (Inr rep, k) \<and> rep_num rep = int (length (ports k))"
  using assms by (simp add: reads_well_def says_num_def)

lemma unload_ports_all:
  assumes "reads_well S ports" and "removes_well S ports"
  shows "\<exists>out k'. unload_ports S k = Some (0, out, k') \<and> ports k' = []"
proof (induction "ports k" arbitrary: k)
  case Nil
  then show ?case
    using reads_num_ports [OF assms(1), of k]
    by (subst unload_ports.simps) (auto simp: get_num_ports_def)
next
  case (Cons port ps)
  obtain p f vs where "port = (p, f, vs)" by (cases port)
  then have k: "ports k = (p, f, vs) # ps" using Cons.hyps(2) by simp
  obtain out k2 where v: "unload_vlans S k = Some (0, out, k2)" "ports k2 = (p, f, []) # ps"
    using unload_vlans_all [OF assms k] by blast
  then obtain rep k3 where d: "mv_ioctl S (MACVLAN_DISABLE p) k2 = (Inr rep, k3)" "ports k3 = ps"
    using assms(2) unfolding removes_well_def by blast
  show ?case
    using reads_num_ports [OF assms(1), of k] reads_first(1) [OF assms(1) k] v(1) d(1)
      Cons.hyps(1) [OF d(2) [symmetric]] k
    by (subst unload_ports.simps) (auto simp: get_num_ports_def disable_port_def Let_def)
qed

text \<open>A VLAN that cannot be deleted is tried again and again.\<close>

lemma unload_vlans_stuck:
  assumes "reads_well S ports" and "stuck = (p, f, v # vs) # ps"
    and refuses: "\<And>k. ports k = stuck \<Longrightarrow>
      \<exists>e k'. mv_ioctl S (MACVLAN_DEL (fst v)) k = (Inl e, k') \<and> ports k' = stuck"
    and system: "\<And>k c. ports (mv_system S c k) = ports k"
  shows "ports k = stuck \<Longrightarrow> unload_vlans S k = None"
proof (rule ccontr)
  assume k: "ports k = stuck" and "unload_vlans S k \<noteq> None"
  then obtain y where "unload_vlans S k = Some y" by blast
  then have "S = S \<longrightarrow> ports k \<noteq> stuck"
  proof (rule unload_vlans.raw_induct [where P = "\<lambda>S' k y. S' = S \<longrightarrow> ports k \<noteq> stuck", rotated])
    fix loop S' k y
    assume IH: "\<And>S' k y. loop S' k = Some y \<Longrightarrow> S' = S \<longrightarrow> ports k \<noteq> stuck"
      and run: "(case get_num_vlans S' 0 k of (n, out1, k1) \<Rightarrow>
        if n \<le> 0 then Some (0, out1, k1)
        else case mv_ioctl S' (MACVLAN_GET_VLAN_NAME 0 0) k1 of
          (Inl errno, k2) \<Rightarrow> Some (1, out1, k2)
        | (Inr rep, k2) \<Rightarrow>
            let ifname = c_string (rep_name rep) in
            (case del_vlan S' ifname (mv_system S' (''ifconfig '' @ ifname @ '' down'') k2) of (d, out2, k3) \<Rightarrow>
               Option.bind (loop S' k3) (\<lambda>(r, out3, k4).
                 Some (r, out1 @ ''Configuring down interface: '' @ ifname @ '' with ifconfig...'' @
                          out2 @ out3, k4)))) = Some y"
    show "S' = S \<longrightarrow> ports k \<noteq> stuck"
    proof (intro impI notI)
      assume S: "S' = S" and "ports k = stuck"
      then have k: "ports k = (p, f, v # vs) # ps" using assms(2) by simp
      obtain rep where n: "mv_ioctl S (MACVLAN_GET_NUM_VLANS 0) k = (Inr rep, k)"
        "rep_num rep = int (length (v # vs))" using reads_first(2) [OF assms(1) k] by blast
      obtain rep2 where v: "mv_ioctl S (MACVLAN_GET_VLAN_NAME 0 0) k = (Inr rep2, k)"
        "c_string (rep_name rep2) = fst v" using reads_first(3) [OF assms(1) k refl] by blast
      obtain e k' where d: "mv_ioctl S (MACVLAN_DEL (fst v)) (mv_system S (''ifconfig '' @ fst v @ '' down'') k) = (Inl e, k')"
        "ports k' = stuck" using refuses system \<open>ports k = stuck\<close> by metis
      have "\<exists>y. loop S k' = Some y"
        using run n v d(1) unfolding S by (auto simp: get_num_vlans_def del_vlan_def Let_def bind_eq_Some_conv)
      then show False using IH d(2) by blast
    qed
  qed
  then show False using k by simp
qed



section \<open>Properties\<close>

text \<open>With a kernel module that reports its state, the command info prints it: every port
  with its name and flags, below it every VLAN, below that every address, in the order of the
  module and with nothing left out or added.\<close>

lemma do_info_prints_state:
  assumes "mv_socket S" and "reads_well S ports"
  shows "do_info S k = (0, concat (map port_text (ports k)), k)"
proof -
  have "for_each (info_port S) [0..int (length (ports k)) - 1] k = (0, concat (map port_text (ports k)), k)"
    using assms(2) by (intro for_each_all info_port_text) (simp add: reads_well_def)
  then show ?thesis
    using assms(1) reads_num_ports [OF assms(2), of k] by (auto simp: do_info_def)
qed

text \<open>C23: With a kernel module that lets VLANs and empty ports be removed, the command unload
  ends, returns 0 and leaves no port.\<close>

theorem do_unload_removes_all:
  assumes "mv_socket S" and "reads_well S ports" and "removes_well S ports"
  shows "\<exists>out k'. do_unload S k = Some (0, out, k') \<and> ports k' = []"
  using unload_ports_all [OF assms(2,3), of k] assms(1) by (simp add: do_unload_def)

text \<open>C24: If the first VLAN of the first port cannot be deleted, the command unload never ends,
  since it does not look at the result of the deletion.\<close>

theorem do_unload_never_ends:
  assumes "mv_socket S" and "reads_well S ports" and k: "ports k = (p, f, v # vs) # ps"
    and "\<forall>k'. ports k' = ports k \<longrightarrow>
      (\<exists>e k''. mv_ioctl S (MACVLAN_DEL (fst v)) k' = (Inl e, k'') \<and> ports k'' = ports k)"
    and "\<forall>k' c. ports (mv_system S c k') = ports k'"
  shows "do_unload S k = None"
proof -
  have "unload_vlans S k = None"
    using unload_vlans_stuck [OF assms(2) k, of k] assms(4,5) by blast
  then show ?thesis
    using reads_num_ports [OF assms(2), of k] reads_first(1) [OF assms(2) k] k assms(1)
    by (subst do_unload_def, subst unload_ports.simps) (auto simp: get_num_ports_def Let_def)
qed

text \<open>An address as info prints it is what bind and unbind take: each passes exactly the six
  bytes to the kernel and reports the kernel's answer.\<close>

lemma bind_takes_printed_address:
  assumes "mv_socket S" and "length bs = 6"
  shows "do_bind S [''bind'', vlan, mac_text bs] k =
      (case mv_ioctl S (MACVLAN_BIND vlan bs) k of (a, k') \<Rightarrow> (if isl a then 1 else 0, [], k')) \<and>
    do_unbind S [''unbind'', vlan, mac_text bs] k =
      (case mv_ioctl S (MACVLAN_UNBIND vlan bs) k of (a, k') \<Rightarrow> (if isl a then 1 else 0, [], k'))"
  using assms by (auto simp: do_bind_def do_unbind_def parse_mac_text split: prod.splits sum.splits)


section \<open>Witnesses\<close>

text \<open>A module with at most one port, VLAN and address; \<open>busy\<close> keeps the VLAN from being deleted.\<close>

definition small_ports :: "nat \<Rightarrow> mv_port list" where
  "small_ports k = (if k = 0 then [] else [(''eth0'', 1, if k = 1 then [] else [(''eth0#1'', [[0, 0x11, 0x22, 0xAA, 0xBB, 0xFF]])])])"

definition num_reply :: "int \<Rightarrow> mv_reply" where "num_reply n = \<lparr>rep_num = n, rep_name = []\<rparr>"
definition name_reply :: "char list \<Rightarrow> mv_reply" where "name_reply s = \<lparr>rep_num = 0, rep_name = s @ [CHR 0x00]\<rparr>"

definition small_ioctl :: "bool \<Rightarrow> mv_req \<Rightarrow> nat \<Rightarrow> (int + mv_reply) \<times> nat" where
  "small_ioctl busy req k =
     (case req of
        MACVLAN_GET_NUM_PORTS \<Rightarrow> (Inr (num_reply (if k = 0 then 0 else 1)), k)
      | MACVLAN_GET_PORT_NAME i \<Rightarrow> (Inr (name_reply ''eth0''), k)
      | MACVLAN_GET_PORT_FLAGS i n \<Rightarrow> (Inr (num_reply 1), k)
      | MACVLAN_GET_NUM_VLANS i \<Rightarrow> (Inr (num_reply (if k = 1 then 0 else 1)), k)
      | MACVLAN_GET_VLAN_NAME i j \<Rightarrow> (Inr (name_reply ''eth0#1''), k)
      | MACVLAN_GET_NUM_MACS i j \<Rightarrow> (Inr (num_reply 1), k)
      | MACVLAN_GET_MAC_NAME i j l \<Rightarrow>
          (Inr (name_reply [CHR 0x00, CHR 0x11, CHR 0x22, CHR 0xAA, CHR 0xBB, CHR 0xFF]), k)
      | MACVLAN_DEL n \<Rightarrow> if busy then (Inl 16, k) else (Inr (num_reply 0), 1)
      | MACVLAN_DISABLE n \<Rightarrow> (Inr (num_reply 0), 0)
      | _ \<Rightarrow> (Inl 22, k))"

definition small_sys :: "bool \<Rightarrow> nat mv_sys" where
  "small_sys busy = \<lparr>mv_socket = True, mv_ioctl = small_ioctl busy, mv_system = (\<lambda>c k. k)\<rparr>"

lemmas small_defs = small_sys_def small_ioctl_def small_ports_def num_reply_def name_reply_def

lemma small_reads: "reads_well (small_sys busy) small_ports"
  unfolding reads_well_def reads_port_def reads_vlan_def says_num_def says_name_def says_mac_def
  by (auto simp: small_defs c_string_def)

lemma small_removes: "removes_well (small_sys False) small_ports"
  unfolding removes_well_def by (auto simp: small_defs split: if_splits)

theorem do_unload_removes_all_witness:
  "\<exists>out k'. do_unload (small_sys False) 2 = Some (0, out, k') \<and> small_ports k' = []"
  using do_unload_removes_all [OF _ small_reads small_removes, of 2] by (simp add: small_sys_def)

theorem do_unload_never_ends_witness:
  "do_unload (small_sys True) 2 = None"
  by (rule do_unload_never_ends [OF _ small_reads]) (auto simp: small_defs)

end
