(* ===== verification/Vconfig.thy ===== *)
theory Vconfig
  imports CLib
begin

text \<open>
  The configuration utility for VLANs (\<open>src/ethernet_test/vlan/vconfig.c\<close>): the request it sends
  to the kernel for a command line and what it reports. The kernel's answer and the numbers of the
  name types in its header are arguments; messages on stderr and the usage text are left out.
\<close>

datatype vlan_cmd =
    ADD_VLAN_CMD | DEL_VLAN_CMD | SET_VLAN_INGRESS_PRIORITY_CMD | SET_VLAN_EGRESS_PRIORITY_CMD
  | SET_VLAN_NAME_TYPE_CMD | SET_VLAN_FLAG_CMD

datatype vlan_name_type =
    VLAN_NAME_TYPE_PLUS_VID | VLAN_NAME_TYPE_RAW_PLUS_VID
  | VLAN_NAME_TYPE_PLUS_VID_NO_PAD | VLAN_NAME_TYPE_RAW_PLUS_VID_NO_PAD

text \<open>The number in the union \<open>u\<close> is the same for all its members.\<close>

record vlan_request =
  vr_cmd :: "vlan_cmd option"
  vr_device1 :: cstr
  vr_u :: u32
  vr_qos :: u16

record vlan_sys =
  vc_socket :: bool
  vc_ioctl :: "vlan_request \<Rightarrow> bool"
  vc_name_type :: "vlan_name_type \<Rightarrow> u32"

text \<open>Pairs of hexadecimal digits; an odd one at the end is dropped.\<close>

fun hex_to_bytes :: "cstr \<Rightarrow> u8 list" where
  "hex_to_bytes (a # b # s) = ucast (strtoul 16 [a, b]) # hex_to_bytes s"
| "hex_to_bytes [a] = []"
| "hex_to_bytes [] = []"

definition name_type_arg :: "cstr \<Rightarrow> vlan_name_type option" where
  "name_type_arg s =
     (if strcaseeq s ''VLAN_PLUS_VID'' then Some VLAN_NAME_TYPE_PLUS_VID
      else if strcaseeq s ''VLAN_PLUS_VID_NO_PAD'' then Some VLAN_NAME_TYPE_PLUS_VID_NO_PAD
      else if strcaseeq s ''DEV_PLUS_VID'' then Some VLAN_NAME_TYPE_RAW_PLUS_VID
      else if strcaseeq s ''DEV_PLUS_VID_NO_PAD'' then Some VLAN_NAME_TYPE_RAW_PLUS_VID_NO_PAD
      else None)"

text \<open>The arguments: the request without its command, the VLAN number and the interface, or None
  for an exit with 1.\<close>

definition vconfig_args :: "vlan_sys \<Rightarrow> cstr list \<Rightarrow> (vlan_request \<times> u32 \<times> cstr) option" where
  "vconfig_args S argv =
     (let argc = length argv; r0 = \<lparr>vr_cmd = None, vr_device1 = [], vr_u = 0, vr_qos = 0\<rparr> in
      if argc < 3 \<or> 5 < argc then None
      else
        case (if strcaseeq (argv ! 1) ''set_name_type''
              then map_option (\<lambda>t. (r0\<lparr>vr_u := vc_name_type S t\<rparr>, [])) (name_type_arg (argv ! 2))
              else if 15 < length (argv ! 2) then None
              else Some (r0\<lparr>vr_device1 := argv ! 2\<rparr>, argv ! 2)) of
          None \<Rightarrow> None
        | Some (r1, if_name) \<Rightarrow>
            let vid = (if argc = 4 then of_int (atoi (argv ! 3)) else 0);
                r2 = (if argc = 4 then r1\<lparr>vr_u := vid\<rparr> else r1);
                r3 = (if argc = 5 then r2\<lparr>vr_u := of_int (atoi (argv ! 3)), vr_qos := of_int (atoi (argv ! 4))\<rparr> else r2)
            in Some (r3, vid, if_name))"

text \<open>The command word: the command, the exit status if the kernel refuses it, and the report.\<close>

definition vconfig_cmd :: "cstr \<Rightarrow> u32 \<Rightarrow> cstr \<Rightarrow> (vlan_cmd \<times> int \<times> cstr) option" where
  "vconfig_cmd cmd vid if_name =
     (if strcaseeq cmd ''add'' then
        Some (ADD_VLAN_CMD, 3, ''Added VLAN with VID == '' @ fmt_u (unat vid) @ '' to IF -:'' @ if_name @ '':-'' @ nl @
          (if vid = 1 then ''WARNING:  VLAN 1 does not work with many switches,'' @ nl @
             ''consider another number if you have problems.'' @ nl else []))
      else if strcaseeq cmd ''rem'' then
        Some (DEL_VLAN_CMD, 4, ''Removed VLAN -:'' @ if_name @ '':-'' @ nl)
      else if strcaseeq cmd ''set_egress_map'' then
        Some (SET_VLAN_EGRESS_PRIORITY_CMD, 5, ''Set egress mapping on device -:'' @ if_name @ '':- '' @
          ''Should be visible in /proc/net/vlan/'' @ if_name @ nl)
      else if strcaseeq cmd ''set_ingress_map'' then
        Some (SET_VLAN_INGRESS_PRIORITY_CMD, 6, ''Set ingress mapping on device -:'' @ if_name @ '':- '' @
          ''Should be visible in /proc/net/vlan/'' @ if_name @ nl)
      else if strcaseeq cmd ''set_flag'' then
        Some (SET_VLAN_FLAG_CMD, 7, ''Set flag on device -:'' @ if_name @ '':- '' @
          ''Should be visible in /proc/net/vlan/'' @ if_name @ nl)
      else if strcaseeq cmd ''set_name_type'' then
        Some (SET_VLAN_NAME_TYPE_CMD, 8, ''Set name-type for VLAN subsystem.'' @
          '' Should be visible in /proc/net/vlan/config'' @ nl)
      else None)"

text \<open>Exit status, report and the request sent, if any.\<close>

definition vconfig :: "vlan_sys \<Rightarrow> cstr list \<Rightarrow> int \<times> cstr \<times> vlan_request option" where
  "vconfig S argv =
     (case vconfig_args S argv of
        None \<Rightarrow> (1, if length argv < 3 \<or> 5 < length argv
                    then ''Expecting argc to be 3-5, inclusive.  Was: '' @ fmt_u (length argv) @ nl else [], None)
      | Some (r, vid, if_name) \<Rightarrow>
          if \<not> vc_socket S then (2, [], None)
          else case vconfig_cmd (argv ! 1) vid if_name of
            None \<Rightarrow> (5, [], None)
          | Some (cmd, refused, report) \<Rightarrow>
              let req = r\<lparr>vr_cmd := Some cmd\<rparr> in
              if vc_ioctl S req then (0, report, Some req) else (refused, [], Some req))"


section \<open>Properties\<close>

lemma hex_to_bytes_length: "length (hex_to_bytes s) = length s div 2"
  by (induction s rule: hex_to_bytes.induct) simp_all

lemma vconfig_args_device: "vconfig_args S argv = Some (r, vid, n) \<Longrightarrow> length (vr_device1 r) \<le> 15"
  by (auto simp: vconfig_args_def Let_def split: if_splits option.splits prod.splits)

lemma vconfig_cmd_status: "vconfig_cmd w vid n = Some (c, s, t) \<Longrightarrow> s \<noteq> 0"
  by (auto simp: vconfig_cmd_def split: if_splits)

text \<open>vconfig exits with 0 exactly if it sent a request that the kernel accepted, and every
  request it sends has a command and a device name that fits the kernel's field.\<close>

lemma vconfig_exit_status:
  "case vconfig S argv of (status, out, sent) \<Rightarrow>
     (status = 0 \<longleftrightarrow> (\<exists>r. sent = Some r \<and> vc_ioctl S r)) \<and>
     pred_option (\<lambda>r. vr_cmd r \<noteq> None \<and> length (vr_device1 r) \<le> 15) sent"
  by (auto simp: vconfig_def Let_def split: option.splits prod.splits if_splits
      dest: vconfig_args_device vconfig_cmd_status)

text \<open>The request for the commands that add and remove a VLAN.\<close>

lemma vconfig_add_request:
  assumes "length dev \<le> 15" and "vid < 2 ^ 31" and "vc_socket S"
    and "r = \<lparr>vr_cmd = Some ADD_VLAN_CMD, vr_device1 = dev, vr_u = of_nat vid, vr_qos = 0\<rparr>"
  shows "snd (snd (vconfig S [prog, ''add'', dev, fmt_u vid])) = Some r"
proof -
  have "\<not> strcaseeq ''add'' ''set_name_type''" "strcaseeq ''add'' ''add''"
    by (simp_all add: strcaseeq_def tolower_def)
  then show ?thesis using assms
    by (simp add: vconfig_def vconfig_args_def vconfig_cmd_def atoi_fmt_u Let_def)
qed

text \<open>A number behind the name type replaces it, as both are in the same union.\<close>

lemma vconfig_name_type_replaced:
  assumes "name_type_arg t = Some nt" and "vc_socket S" and "vid < 2 ^ 31"
  shows "\<exists>r. snd (snd (vconfig S [prog, ''set_name_type'', t, fmt_u vid])) = Some r \<and>
    vr_cmd r = Some SET_VLAN_NAME_TYPE_CMD \<and> vr_u r = of_nat vid"
proof -
  have "strcaseeq ''set_name_type'' ''set_name_type''" "\<not> strcaseeq ''set_name_type'' ''add''"
    "\<not> strcaseeq ''set_name_type'' ''rem''" "\<not> strcaseeq ''set_name_type'' ''set_egress_map''"
    "\<not> strcaseeq ''set_name_type'' ''set_ingress_map''" "\<not> strcaseeq ''set_name_type'' ''set_flag''"
    by (simp_all add: strcaseeq_def tolower_def)
  then show ?thesis using assms
    by (simp add: vconfig_def vconfig_args_def vconfig_cmd_def atoi_fmt_u Let_def)
qed

end
