(* ===== verification/Watchdog.thy ===== *)
theory Watchdog
  imports Getopt
begin

text \<open>
  The interactive watchdog test (\<open>src/watchdog/watchdog-test.c\<close>). What is done to the device is
  recorded as a list of operations; what the driver answers is an argument. Standard input is the
  list of characters typed, at whose end \<open>getchar\<close> gives EOF for ever. Messages on stderr are left
  out.
\<close>

datatype wd_op = SetTimeout int | WriteChar char | KeepAlive | CloseDev

record wd_driver =
  wd_open :: "cstr \<Rightarrow> bool"
  wd_settimeout :: "int \<Rightarrow> int option"    \<comment> \<open>the interval written back, None for an error\<close>
  wd_gettimeout :: "int option"
  wd_bootstatus :: "int option"

section \<open>Options\<close>

record wd_opts =
  wd_dev :: cstr
  wd_interval :: int

definition wd_opts0 :: wd_opts where
  "wd_opts0 = \<lparr>wd_dev = ''/dev/watchdog'', wd_interval = 0\<rparr>"

definition wd_longopts :: "longopt list" where
  "wd_longopts =
     [\<lparr>lo_name = ''help'', lo_arg = False, lo_val = Opt CHR ''h''\<rparr>,
      \<lparr>lo_name = ''dev'', lo_arg = True, lo_val = Opt CHR ''d''\<rparr>,
      \<lparr>lo_name = ''interval'', lo_arg = True, lo_val = Opt CHR ''i''\<rparr>]"

definition wd_usage :: "cstr \<Rightarrow> cstr" where
  "wd_usage app_name = ''Usage: '' @ app_name @ '' [options]'' @ nl @
     '' -h  --help                Display this usage information.'' @ nl @
     '' -d  --dev <device_file>   Use <device_file> as watchdog device file.'' @ nl @
     ''                           The default device file is '' @ [CHR 0x27] @ ''/dev/watchdog'' @ [CHR 0x27] @ nl @
     '' -i  --interval <interval> Change the watchdog interval time'' @ nl"

text \<open>The exit status and standard output, or the settings.\<close>

fun wd_options :: "cstr \<Rightarrow> optev list \<Rightarrow> wd_opts \<Rightarrow> (int \<times> cstr) + wd_opts" where
  "wd_options app [] p = Inr p"
| "wd_options app ((code, optarg) # es) p =
     (if code = Opt CHR ''h'' then Inl (0, wd_usage app)
      else if code = Opt CHR ''d'' then wd_options app es (p\<lparr>wd_dev := optarg\<rparr>)
      else if code = Opt CHR ''i'' then wd_options app es (p\<lparr>wd_interval := atoi optarg\<rparr>)
      else Inl (1, []))"


section \<open>Commands\<close>

definition wd_getchar :: "cstr \<Rightarrow> char \<times> cstr" where
  "wd_getchar input = (case input of [] \<Rightarrow> (CHR 0xFF, []) | c # cs \<Rightarrow> (c, cs))"

definition wd_command :: "char \<Rightarrow> cstr \<times> wd_op list" where
  "wd_command c =
     (if c = CHR ''w'' then (''Kick watchdog through writing over device file'' @ nl, [WriteChar CHR ''w''])
      else if c = CHR ''i'' then (''Kick watchdog through IOCTL'' @ nl, [KeepAlive])
      else if c = CHR ''x'' then (''Goodbye !'' @ nl, [])
      else (''Unknown command'' @ nl, []))"

partial_function (option) wd_loop :: "cstr \<Rightarrow> cstr \<Rightarrow> wd_op list \<Rightarrow> (cstr \<times> wd_op list) option" where
  "wd_loop input out ops =
     (let (c, rest) = wd_getchar input; (t, os) = wd_command c in
      if c \<noteq> CHR ''x'' then wd_loop rest (out @ t) (ops @ os)
      else Some (out @ t, ops @ os))"

declare wd_loop.simps [simp del]

text \<open>Setting and showing the interval, and the cause of the last start.\<close>

definition wd_setup :: "wd_driver \<Rightarrow> wd_opts \<Rightarrow> (int \<times> cstr \<times> wd_op list) + (cstr \<times> wd_op list)" where
  "wd_setup D p =
     (let n = wd_interval p;
          out1 = (if n \<noteq> 0 then ''Set watchdog interval to '' @ fmt_d n @ nl else []);
          ops1 = (if n \<noteq> 0 then [SetTimeout n] else [])
      in if n \<noteq> 0 \<and> wd_settimeout D n = None then Inl (1, out1, ops1)
      else case wd_gettimeout D of
        None \<Rightarrow> Inl (1, out1, ops1)
      | Some i \<Rightarrow>
          let out2 = out1 @ ''Current watchdog interval is '' @ fmt_d i @ nl in
          (case wd_bootstatus D of
             None \<Rightarrow> Inl (1, out2, ops1)
           | Some b \<Rightarrow>
               Inr (out2 @ ''Last boot is caused by : '' @ (if b \<noteq> 0 then ''Watchdog'' else ''Power-On-Reset'') @ nl, ops1)))"

definition wd_help :: cstr where
  "wd_help = ''Use:'' @ nl @ '' <w> to kick through writing over device file'' @ nl @
     '' <i> to kick through IOCTL'' @ nl @ '' <x> to exit the program'' @ nl"

text \<open>
  Exit status, output and the operations on the device; None if the program does not end. A main
  that runs off its end gives 0.
\<close>

definition wd_main :: "wd_driver \<Rightarrow> cstr list \<Rightarrow> cstr \<Rightarrow> (int \<times> cstr \<times> wd_op list) option" where
  "wd_main D argv input =
     (case wd_options (argv ! 0) (fst (getopt_long ''hd:i:'' wd_longopts (tl argv))) wd_opts0 of
        Inl (status, out) \<Rightarrow> Some (status, out, [])
      | Inr p \<Rightarrow>
          if \<not> wd_open D (wd_dev p) then Some (1, [], [])
          else case wd_setup D p of
            Inl r \<Rightarrow> Some r
          | Inr (out1, ops1) \<Rightarrow>
              map_option (\<lambda>(out2, ops2). (0, out1 @ wd_help @ out2, ops1 @ ops2 @ [WriteChar CHR ''V'', CloseDev]))
                (wd_loop input [] []))"


section \<open>Properties\<close>

lemma wd_loop_upto_x:
  "CHR ''x'' \<notin> set cs \<Longrightarrow> wd_loop (cs @ CHR ''x'' # rest) out ops =
    Some (out @ concat (map (\<lambda>c. fst (wd_command c)) cs) @ ''Goodbye !'' @ nl,
      ops @ concat (map (\<lambda>c. snd (wd_command c)) cs))"
proof (induction cs arbitrary: out ops)
  case Nil
  show ?case by (subst wd_loop.simps) (simp add: wd_getchar_def wd_command_def)
next
  case (Cons c cs)
  then show ?case
    by (subst wd_loop.simps) (auto simp: wd_getchar_def case_prod_beta Let_def)
qed

lemma wd_loop_no_x:
  assumes "CHR ''x'' \<notin> set input"
  shows "wd_loop input out ops = None"
proof (rule ccontr)
  assume "wd_loop input out ops \<noteq> None"
  then obtain y where "wd_loop input out ops = Some y" by blast
  then have "CHR ''x'' \<in> set input"
    by (rule wd_loop.raw_induct [where P = "\<lambda>input out ops y. CHR ''x'' \<in> set input", rotated])
      (force simp: wd_getchar_def Let_def case_prod_beta split: list.splits if_splits)
  then show False using assms by simp
qed

text \<open>Once the device is set up, the program ends exactly if an x is typed. Then it has kicked
  the watchdog once for every w (by writing) and every i (by the ioctl) typed before the first x,
  in that order, and its last two operations are writing the V that lets the driver stop the
  watchdog and closing the device; at the end of the input without an x it runs for ever.\<close>

lemma watchdog_session:
  assumes "wd_options prog (fst (getopt_long ''hd:i:'' wd_longopts args)) wd_opts0 = Inr p"
    and "wd_open D (wd_dev p)" and "wd_setup D p = Inr (out1, ops1)"
  shows "wd_main D (prog # args) input =
    (if CHR ''x'' \<in> set input then
       let cs = takeWhile (\<lambda>c. c \<noteq> CHR ''x'') input in
       Some (0, out1 @ wd_help @ concat (map (\<lambda>c. fst (wd_command c)) cs) @ ''Goodbye !'' @ nl,
         ops1 @ map (\<lambda>c. if c = CHR ''w'' then WriteChar c else KeepAlive)
           (filter (\<lambda>c. c = CHR ''w'' \<or> c = CHR ''i'') cs) @ [WriteChar CHR ''V'', CloseDev])
     else None)"
proof (cases "CHR ''x'' \<in> set input")
  case True
  define cs where "cs = takeWhile (\<lambda>c. c \<noteq> CHR ''x'') input"
  obtain ys rest where ys: "input = ys @ CHR ''x'' # rest" "CHR ''x'' \<notin> set ys"
    using split_list_first [OF True] by blast
  have "cs = ys" unfolding cs_def ys(1)
    by (rule takeWhile_append_stop) (use ys(2) in \<open>auto simp: list_all_iff\<close>)
  then have l: "wd_loop input [] [] =
      Some (concat (map (\<lambda>c. fst (wd_command c)) cs) @ ''Goodbye !'' @ nl, concat (map (\<lambda>c. snd (wd_command c)) cs))"
    using wd_loop_upto_x [OF ys(2), of rest "[]" "[]"] ys(1) by simp
  have "concat (map (\<lambda>c. snd (wd_command c)) xs) = map (\<lambda>c. if c = CHR ''w'' then WriteChar c else KeepAlive)
      (filter (\<lambda>c. c = CHR ''w'' \<or> c = CHR ''i'') xs)" for xs
    by (induction xs) (auto simp: wd_command_def)
  then show ?thesis using True l assms by (simp add: wd_main_def cs_def Let_def)
next
  case False
  then show ?thesis using assms wd_loop_no_x [OF False] by (simp add: wd_main_def)
qed

definition sound_driver :: wd_driver where
  "sound_driver = \<lparr>wd_open = (\<lambda>d. d = ''/dev/watchdog''), wd_settimeout = Some, wd_gettimeout = Some 10,
     wd_bootstatus = Some 0\<rparr>"

end
