(* ===== verification/SchedLatency.thy ===== *)
theory SchedLatency
  imports Getopt
begin

text \<open>
  The program that prints how long a process runs and waits on average
  (\<open>src/latency/latency.c\<close>), from the files of the process under \<open>/proc\<close>. The contents of these
  files over time are arguments, and \<open>fopen\<close> fails if the file is gone or the descriptors are
  used up. The averages are exact numbers; a line of output is a record of what it shows.
\<close>

section \<open>Reading the files\<close>

definition skip_number :: "cstr \<Rightarrow> cstr" where
  "skip_number ptr = dropWhile isblank (dropWhile isdigit ptr)"

text \<open>\<open>run_ticks\<close>, \<open>wait_ticks\<close> and \<open>nran\<close>, stored to unsigned numbers.\<close>

definition get_stats :: "cstr \<Rightarrow> u32 \<times> u32 \<times> u32" where
  "get_stats buf =
     (let ptr = dropWhile isblank buf; ptr2 = skip_number ptr; ptr3 = skip_number ptr2 in
      (of_int (atoi ptr), of_int (atoi ptr2), of_int (atoi ptr3)))"

text \<open>
  The text up to the first closing bracket. Without one, \<open>index\<close> gives NULL and the program writes
  to the address 1; a longer text than \<open>id\<close> holds runs over it. Both are None.
\<close>

definition get_id :: "cstr \<Rightarrow> cstr option" where
  "get_id buf =
     (case strchr buf CHR '')'' of None \<Rightarrow> None
      | Some t \<Rightarrow>
          let idt = take (length buf - length t + 1) buf in
          if length idt < 32 then Some idt else None)"


section \<open>The loop\<close>

record lat_line =
  l_run :: "u32 \<times> u32"
  l_wait :: "u32 \<times> u32"
  l_nran :: "u32 \<times> u32"
  l_avgrun :: rat
  l_avgwait :: rat

definition average :: "u32 \<Rightarrow> u32 \<Rightarrow> rat" where
  "average ticks n = (if n \<noteq> 0 then of_int (uint ticks) / of_int (uint n) else 0)"

definition lat_line_of :: "u32 \<times> u32 \<times> u32 \<Rightarrow> u32 \<times> u32 \<times> u32 \<Rightarrow> lat_line" where
  "lat_line_of old new =
     (case (old, new) of ((orun, owait, oran), (run, wait, nran)) \<Rightarrow>
        \<lparr>l_run = (run, run - orun), l_wait = (wait, wait - owait), l_nran = (nran, nran - oran),
         l_avgrun = average (run - orun) (nran - oran), l_avgwait = average (wait - owait) (nran - oran)\<rparr>)"

text \<open>
  \<open>schedstat k\<close> is the content of the file in round \<open>k\<close>, None if there is no such file, and the
  empty line if it cannot be read. \<open>fds\<close> descriptors are in use.
\<close>

record proc_sys =
  fd_limit :: nat
  schedstat :: "nat \<Rightarrow> cstr option"
  stat_line :: "cstr option"

definition fopen_stat :: "proc_sys \<Rightarrow> nat \<Rightarrow> nat \<Rightarrow> cstr option" where
  "fopen_stat S fds k = (if fds < fd_limit S then schedstat S k else None)"

text \<open>The lines printed; None if the loop never ends.\<close>

partial_function (option) stat_loop ::
  "proc_sys \<Rightarrow> nat \<Rightarrow> nat \<Rightarrow> u32 \<times> u32 \<times> u32 \<Rightarrow> lat_line list \<Rightarrow> lat_line list option" where
  "stat_loop S fds k old out =
     (case fopen_stat S fds k of
        None \<Rightarrow> Some out
      | Some buf \<Rightarrow>
          if buf = [] then Some out
          else
            let new = get_stats buf; out' = out @ [lat_line_of old new] in
            (case fopen_stat S fds (Suc k) of
               None \<Rightarrow> Some out'
             | Some _ \<Rightarrow> stat_loop S (Suc fds) (Suc k) new out'))"

declare stat_loop.simps [simp del]


section \<open>main\<close>

record lat_opts =
  lo_sleeptime :: u32
  lo_verbose :: u32

fun lat_options :: "optev list \<Rightarrow> lat_opts \<Rightarrow> lat_opts option" where
  "lat_options [] p = Some p"
| "lat_options ((code, optarg) # es) p =
     (if code = Opt CHR ''s'' then lat_options es (p\<lparr>lo_sleeptime := of_int (atoi optarg)\<rparr>)
      else if code = Opt CHR ''v'' then lat_options es (p\<lparr>lo_verbose := lo_verbose p + 1\<rparr>)
      else None)"

datatype lat_result =
    Usage
  | Corrupt                                        \<comment> \<open>\<open>get_id\<close> wrote where it must not\<close>
  | Report bool cstr "lat_line list" cstr          \<comment> \<open>verbose, id, lines, last line\<close>

definition latency_main :: "proc_sys \<Rightarrow> nat \<Rightarrow> cstr list \<Rightarrow> lat_result option" where
  "latency_main S fds args =
     (let (es, ops) = getopt ''s:v'' args in
      case lat_options es \<lparr>lo_sleeptime = 5, lo_verbose = 0\<rparr> of
        None \<Rightarrow> Some Usage
      | Some p \<Rightarrow>
          let pid = (case ops of [] \<Rightarrow> 0 | a # _ \<Rightarrow> of_int (atoi a)) :: u32 in
          if pid = 0 then Some Usage
          else
            let ids = (case (if fds < fd_limit S then stat_line S else None) of
                         None \<Rightarrow> Some [] | Some buf \<Rightarrow> if buf = [] then Some [] else get_id buf) in
            case ids of None \<Rightarrow> Some Corrupt
            | Some idt \<Rightarrow>
                map_option (\<lambda>out. Report (lo_verbose p \<noteq> 0) idt out
                    (if idt \<noteq> [] then ''Process '' @ idt @ '' has exited.'' @ nl
                     else ''Process '' @ fmt_d (sint pid) @ '' does not exist.'' @ nl))
                  (stat_loop S fds 0 (0, 0, 0) []))"


section \<open>Properties\<close>

lemma atoi_fmt_u_blank:
  assumes "n < 2 ^ 31" and "r = [] \<or> hd r = CHR '' '' \<or> hd r = CHR 0x0A"
  shows "atoi (fmt_u n @ r) = int n"
proof -
  have "r = [] \<or> 36 \<le> digit_val (hd r)" using assms(2) by (auto simp: digit_val_def)
  then show ?thesis
    using scan_number_fmt_base [of 10 r n] assms(1) by (simp add: atoi_def strtol_def fmt_u_def)
qed

lemma digits_fmt_u: "list_all isdigit (fmt_u n)"
proof -
  have "isdigit c" if "digit_val c < 10" for c
    using that by (auto simp: digit_val_def isdigit_def Let_def split: if_splits)
  then show ?thesis using fmt_base_digits(1) [of 10] by (auto simp: list_all_iff fmt_u_def)
qed

lemma skip_number_fmt_u:
  assumes "r = [] \<or> \<not> isblank (hd r)"
  shows "skip_number (fmt_u n @ '' '' @ r) = r"
proof -
  have "dropWhile isdigit (fmt_u n @ '' '' @ r) = '' '' @ r"
    by (rule dropWhile_append_stop [OF digits_fmt_u]) (simp add: isdigit_def)
  then show ?thesis using assms by (cases r) (simp_all add: skip_number_def isblank_def)
qed

lemma fmt_u_no_blank: "\<not> isblank (hd (fmt_u n @ r))"
proof -
  have "hd (fmt_u n @ r) \<in> set (fmt_u n)" by (simp add: fmt_u_def)
  then have "isdigit (hd (fmt_u n @ r))" using digits_fmt_u [of n] by (simp add: list_all_iff)
  then show ?thesis by (auto simp: isdigit_def isblank_def)
qed

lemma dropWhile_hd_stop: "xs = [] \<or> \<not> P (hd xs) \<Longrightarrow> dropWhile P xs = xs"
  by (cases xs) auto

lemma get_stats_line:
  assumes "run < 2 ^ 31" and "wait < 2 ^ 31" and "nran < 2 ^ 31"
  shows "get_stats (fmt_u run @ '' '' @ fmt_u wait @ '' '' @ fmt_u nran @ nl) =
    (of_nat run, of_nat wait, of_nat nran)"
proof -
  let ?c = "fmt_u nran @ nl" and ?b = "fmt_u wait @ '' '' @ fmt_u nran @ nl"
  have "dropWhile isblank (fmt_u run @ '' '' @ ?b) = fmt_u run @ '' '' @ ?b"
    using fmt_u_no_blank by (intro dropWhile_hd_stop) blast
  moreover have "skip_number (fmt_u run @ '' '' @ ?b) = ?b" "skip_number ?b = ?c"
    using fmt_u_no_blank by (intro skip_number_fmt_u; blast)+
  moreover have "atoi (fmt_u run @ '' '' @ ?b) = int run" "atoi ?b = int wait" "atoi ?c = int nran"
    using assms by (intro atoi_fmt_u_blank; simp)+
  ultimately show ?thesis by (simp add: get_stats_def Let_def)
qed

text \<open>What the rounds print, from the contents of the file.\<close>

fun stat_lines :: "u32 \<times> u32 \<times> u32 \<Rightarrow> cstr list \<Rightarrow> lat_line list" where
  "stat_lines old [] = []"
| "stat_lines old (buf # bufs) = lat_line_of old (get_stats buf) # stat_lines (get_stats buf) bufs"

lemma stat_loop_rounds:
  assumes "\<And>j. k \<le> j \<Longrightarrow> j < k + n \<Longrightarrow> schedstat S j = Some (b j) \<and> b j \<noteq> []"
    and "0 < n" and "fds + n \<le> fd_limit S" and "fds + n = fd_limit S \<or> schedstat S (k + n) = None"
  shows "stat_loop S fds k old out = Some (out @ stat_lines old (map b [k..<k + n]))"
  using assms
proof (induction n arbitrary: fds k old out)
  case (Suc n)
  have k: "[k..<k + Suc n] = k # [Suc k..<Suc k + n]" by (simp add: upt_conv_Cons del: upt_Suc)
  have open1: "fopen_stat S fds k = Some (b k)" "b k \<noteq> []"
    using Suc.prems(1) [of k] Suc.prems(3) by (simp_all add: fopen_stat_def)
  show ?case
  proof (cases n)
    case 0
    show ?thesis
    proof (cases "schedstat S (Suc k)")
      case None
      then show ?thesis using open1 0
        by (subst stat_loop.simps) (simp add: fopen_stat_def)
    next
      case (Some c)
      then have "Suc fds = fd_limit S" using Suc.prems(4) 0 by simp
      then have "stat_loop S (Suc fds) (Suc k) (get_stats (b k)) (out @ [lat_line_of old (get_stats (b k))]) =
          Some (out @ [lat_line_of old (get_stats (b k))])"
        by (subst stat_loop.simps) (simp add: fopen_stat_def)
      moreover have "fopen_stat S fds (Suc k) = Some c" using Some Suc.prems(3) by (simp add: fopen_stat_def)
      ultimately show ?thesis using open1 0 by (subst stat_loop.simps) (simp add: Let_def)
    qed
  next
    case (Suc m)
    have "fopen_stat S fds (Suc k) = Some (b (Suc k))"
      using Suc.prems Suc by (simp add: fopen_stat_def)
    moreover have "stat_loop S (Suc fds) (Suc k) (get_stats (b k)) (out @ [lat_line_of old (get_stats (b k))]) =
        Some ((out @ [lat_line_of old (get_stats (b k))]) @ stat_lines (get_stats (b k)) (map b [Suc k..<Suc k + n]))"
      using Suc.prems Suc by (intro Suc.IH) auto
    ultimately show ?thesis using open1 unfolding k by (subst stat_loop.simps) (simp add: Let_def del: upt_Suc)
  qed
qed simp


lemma getopt_pid: "getopt ''s:v'' [fmt_u pid] = ([], [fmt_u pid])"
proof -
  have "hd (fmt_u pid) \<in> set (fmt_u pid)" by (simp add: fmt_u_def)
  then have "isdigit (hd (fmt_u pid))" using digits_fmt_u [of pid] by (simp add: list_all_iff)
  then have "hd (fmt_u pid) \<noteq> CHR ''-''" by (auto simp: isdigit_def)
  then have "\<not> is_option (fmt_u pid)" "fmt_u pid \<noteq> ''--''" by (auto simp: is_option_def)
  then show ?thesis by (simp add: getopt_def)
qed

lemma of_nat_pid: "0 < pid \<Longrightarrow> pid < 2 ^ 31 \<Longrightarrow> (of_nat pid :: u32) \<noteq> 0"
  by (simp add: word_unat_eq_iff unat_of_nat)


definition busy_proc :: proc_sys where
  "busy_proc = \<lparr>fd_limit = 5, schedstat = (\<lambda>k. Some (fmt_u (10 * k + 10) @ '' '' @ fmt_u k @ '' '' @ fmt_u (2 * k + 4) @ nl)),
     stat_line = Some ''7 (init) S 0''\<rparr>"


end
