(* ===== verification/SpiTest.thy ===== *)
theory SpiTest
  imports Getopt
begin

text \<open>
  The SPI tests: the loop-back test (\<open>src/spi_test/spi-test-loopback.c\<close>) and the analog-digital
  converter (\<open>src/spi_adc/LTC2422.c\<close> and \<open>spi-adc-test.c\<close>). The driver \<open>spidev\<close> and the file
  system are arguments; the voltages are exact numbers.
\<close>

unbundle bit_operations_syntax

section \<open>The loop-back test: options\<close>

abbreviation SPI_ARRAY_SIZE :: nat where "SPI_ARRAY_SIZE \<equiv> 1024"

datatype spi_flag =
  SPI_LOOP | SPI_CPHA | SPI_CPOL | SPI_LSB_FIRST | SPI_CS_HIGH | SPI_3WIRE | SPI_NO_CS | SPI_READY

record spi_cfg =
  device :: cstr
  spi_mode :: u8
  bits :: u8
  speed :: u32
  spi_delay :: u16
  verbose :: bool
  fsize :: nat
  tx :: "u8 list"
  rfilename :: cstr

definition spi_cfg0 :: spi_cfg where
  "spi_cfg0 = \<lparr>device = ''/dev/spidev0.0'', spi_mode = 0, bits = 8, speed = 500000, spi_delay = 0,
     verbose = False, fsize = SPI_ARRAY_SIZE, tx = map of_nat [0..<SPI_ARRAY_SIZE],
     rfilename = ''spi_read_loopback_data.bin''\<rparr>"

text \<open>
  The numbers of the flags; the files there are; whether the device opens; what setting and
  reading back mode, bits and speed gives; what a transfer returns; whether the result file can be
  created and how many bytes it takes.
\<close>

record spi_sys =
  flag_value :: "spi_flag \<Rightarrow> u8"
  spi_files :: "cstr \<Rightarrow> u8 list option"
  spi_open :: "cstr \<Rightarrow> bool"
  set_mode :: "u8 \<Rightarrow> u8 option"
  set_bits :: "u8 \<Rightarrow> u8 option"
  set_speed :: "u32 \<Rightarrow> u32 option"
  spi_transfer :: "spi_cfg \<Rightarrow> u8 list \<Rightarrow> u8 list option"
  can_save :: "cstr \<Rightarrow> bool"
  saves :: "u8 list \<Rightarrow> nat"

definition spi_longopts :: "longopt list" where
  "spi_longopts = map (\<lambda>(n, a, c). \<lparr>lo_name = n, lo_arg = a, lo_val = Opt c\<rparr>)
     [(''device'', True, CHR ''D''), (''speed'', True, CHR ''s''), (''delay'', True, CHR ''d''),
      (''bpw'', True, CHR ''b''), (''wfile'', True, CHR ''w''), (''rfile'', True, CHR ''r''),
      (''loop'', False, CHR ''l''), (''cpha'', False, CHR ''H''), (''cpol'', False, CHR ''O''),
      (''lsb'', False, CHR ''L''), (''cs-high'', False, CHR ''C''), (''3wire'', False, CHR ''3''),
      (''no-cs'', False, CHR ''N''), (''ready'', False, CHR ''R''), (''verbose'', False, CHR ''v''),
      (''help'', False, CHR ''h'')]"

definition mode_flag :: "char \<Rightarrow> spi_flag option" where
  "mode_flag = map_of [(CHR ''l'', SPI_LOOP), (CHR ''H'', SPI_CPHA), (CHR ''O'', SPI_CPOL),
     (CHR ''L'', SPI_LSB_FIRST), (CHR ''C'', SPI_CS_HIGH), (CHR ''3'', SPI_3WIRE),
     (CHR ''N'', SPI_NO_CS), (CHR ''R'', SPI_READY)]"

text \<open>The option w: the first bytes of the file, as many as there is room for.\<close>

definition wfile_option :: "spi_sys \<Rightarrow> cstr \<Rightarrow> cstr \<times> spi_cfg \<Rightarrow> cstr \<times> spi_cfg" where
  "wfile_option S name tp =
     (let (t, p) = tp in
      case spi_files S name of None \<Rightarrow> (t, p)
      | Some c \<Rightarrow>
          let t1 = (if verbose p then t @ ''Filesize to write is '' @ fmt_u (length c) @ '' bytes'' @ nl else t);
              n = min (length c) SPI_ARRAY_SIZE
          in (t1, p\<lparr>fsize := n, tx := take n c @ drop n (tx p)\<rparr>))"

text \<open>None for the usage message, which exits with 1.\<close>

definition spi_option :: "spi_sys \<Rightarrow> optev \<Rightarrow> cstr \<times> spi_cfg \<Rightarrow> (cstr \<times> spi_cfg) option" where
  "spi_option S e tp =
     (let (code, optarg) = e; (t, p) = tp in
      case code of OptN n \<Rightarrow> None
      | Opt c \<Rightarrow>
          if c = CHR ''D'' then Some (t, p\<lparr>device := optarg\<rparr>)
          else if c = CHR ''s'' then Some (t, p\<lparr>speed := of_int (atoi optarg)\<rparr>)
          else if c = CHR ''d'' then Some (t, p\<lparr>spi_delay := of_int (atoi optarg)\<rparr>)
          else if c = CHR ''r'' then Some (t, p\<lparr>rfilename := optarg\<rparr>)
          else if c = CHR ''w'' then Some (wfile_option S optarg tp)
          else if c = CHR ''b'' then Some (t, p\<lparr>bits := of_int (atoi optarg)\<rparr>)
          else if c = CHR ''v'' then Some (t, p\<lparr>verbose := True\<rparr>)
          else map_option (\<lambda>f. (t, p\<lparr>spi_mode := spi_mode p OR flag_value S f\<rparr>)) (mode_flag c))"

fun spi_options :: "spi_sys \<Rightarrow> optev list \<Rightarrow> cstr \<times> spi_cfg \<Rightarrow> (cstr \<times> spi_cfg) option" where
  "spi_options S [] tp = Some tp"
| "spi_options S (e # es) tp = (case spi_option S e tp of None \<Rightarrow> None | Some tq \<Rightarrow> spi_options S es tq)"

section \<open>The loop-back test: transfer and main\<close>

definition hex_dump :: "u8 list \<Rightarrow> cstr" where
  "hex_dump bs = concat (map (\<lambda>i. (if i mod 6 = 0 then nl else []) @ fmt_X 2 (unat (bs ! i)) @ '' '')
     [0..<length bs]) @ nl"

text \<open>How the program ends: by \<open>abort\<close>, by writing to a file that did not open, or by an exit with
  the result file.\<close>

datatype spi_end = SpiUsage | SpiAbort cstr | SpiCrash cstr | SpiExit int cstr "u8 list"

definition transfer :: "spi_sys \<Rightarrow> cstr \<Rightarrow> spi_cfg \<Rightarrow> spi_end" where
  "transfer S t p =
     (case spi_transfer S p (take (fsize p) (tx p)) of
        None \<Rightarrow> SpiAbort t
      | Some rx \<Rightarrow>
          let t1 = (if verbose p then t @ hex_dump rx else t) in
          if \<not> can_save S (rfilename p) then SpiCrash t1
          else
            let ret = saves S rx in
            if ret \<noteq> fsize p
            then SpiExit (int ret) (t1 @ ''File Read Error - only '' @ fmt_u ret @ '' instead of '' @
                   fmt_u (fsize p) @ '' bytes read'') (take ret rx)
            else SpiExit 0 t1 rx)"

definition spi_main :: "spi_sys \<Rightarrow> cstr list \<Rightarrow> spi_end" where
  "spi_main S args =
     (case spi_options S (fst (getopt_long ''D:s:d:b:w:r:vlHOLC3NRh'' spi_longopts args)) ([], spi_cfg0) of
        None \<Rightarrow> SpiUsage
      | Some (t, p) \<Rightarrow>
          let t1 = (if verbose p then t @ hex_dump (take (fsize p) (tx p)) else t) in
          if \<not> spi_open S (device p) then SpiAbort t1
          else case set_mode S (spi_mode p) of None \<Rightarrow> SpiAbort t1
          | Some m \<Rightarrow>
              (case set_bits S (bits p) of None \<Rightarrow> SpiAbort t1
               | Some b \<Rightarrow>
                   (case set_speed S (speed p) of None \<Rightarrow> SpiAbort t1
                    | Some hz \<Rightarrow>
                        transfer S
                          (t1 @ ''spi mode: '' @ fmt_u (unat m) @ nl @ ''bits per word: '' @ fmt_u (unat b) @ nl @
                           ''max speed: '' @ fmt_d (sint hz) @ '' Hz ('' @ fmt_d (sint (hz div 1000)) @ '' KHz)'' @ nl)
                          (p\<lparr>spi_mode := m, bits := b, speed := hz\<rparr>))))"


section \<open>The converter\<close>

abbreviation SPI_DATA_CHANNEL_MASK :: u32 where "SPI_DATA_CHANNEL_MASK \<equiv> push_bit 22 1"

text \<open>
  The two bytes a transfer of 16 bits gives, None if the device does not open or the transfer
  fails. The result is status, channel and code; after a failure the latter two are not set.
\<close>

definition LTC2422_read :: "(u8 \<times> u8) option \<Rightarrow> (u8 \<times> u32) option" where
  "LTC2422_read tr =
     (case tr of None \<Rightarrow> None
      | Some (b0, b1) \<Rightarrow>
          let v = push_bit 16 (ucast b1) OR push_bit 8 (ucast b0) in
          Some (if v AND SPI_DATA_CHANNEL_MASK \<noteq> 0 then 1 else 0, v))"

definition LTC2422_voltage :: "u32 \<Rightarrow> rat \<Rightarrow> rat" where
  "LTC2422_voltage adc_code lsb =
     (if adc_code AND 0x200000 \<noteq> 0 then of_nat (unat (adc_code AND 0xFFFFF)) * lsb
      else - 1 * of_nat (unat (adc_code AND 0xFFFFF)) * lsb)"

definition LTC2422_cal_voltage :: "rat \<Rightarrow> rat" where
  "LTC2422_cal_voltage ref = ref / 1048575"

definition LTC2422_lsb :: rat where "LTC2422_lsb = 47683761 / 10 ^ 13"

text \<open>
  Three reads in a row; the first is thrown away. What is printed: the two codes as they are, and
  the two voltages. A failed read keeps channel and code of the one before (the first leaves them
  unset, as are the elements of the array before they are written: \<open>junk\<close>).
\<close>

record adc_shown =
  raw_A :: u32
  raw_B :: u32
  volt_A :: rat
  volt_B :: rat

definition adc_step :: "(u8 \<times> u8) option \<Rightarrow> u8 \<times> u32 \<Rightarrow> u8 \<times> u32" where
  "adc_step tr old = (case LTC2422_read tr of None \<Rightarrow> old | Some n \<Rightarrow> n)"

definition spi_read_adc ::
  "(u8 \<times> u8) option \<Rightarrow> (u8 \<times> u8) option \<Rightarrow> (u8 \<times> u8) option \<Rightarrow> u8 \<times> u32 \<Rightarrow> u32 list \<Rightarrow> (int \<times> adc_shown) option" where
  "spi_read_adc r1 r2 r3 unset junk =
     (let s1 = adc_step r1 unset; s2 = adc_step r2 s1; s3 = adc_step r3 s2 in
      if 2 \<le> unat (fst s2) \<or> 2 \<le> unat (fst s3) then None
      else
        let a = (junk[unat (fst s2) := snd s2])[unat (fst s3) := snd s3] in
        Some (if LTC2422_read r3 = None then 1 else 0,
          \<lparr>raw_A = a ! 0, raw_B = a ! 1,
           volt_A = LTC2422_voltage (a ! 1) LTC2422_lsb, volt_B = LTC2422_voltage (a ! 0) LTC2422_lsb\<rparr>))"


text \<open>The rounds the program does: one, or with the option c any number; None for the usage
  message. \<open>reads\<close> gives the transfers in their order.\<close>

definition adc_longopts :: "longopt list" where
  "adc_longopts =
     [\<lparr>lo_name = ''continuous'', lo_arg = False, lo_val = Opt CHR ''c''\<rparr>,
      \<lparr>lo_name = ''help'', lo_arg = False, lo_val = Opt CHR ''h''\<rparr>]"

fun adc_options :: "optev list \<Rightarrow> bool \<Rightarrow> bool option" where
  "adc_options [] continuous_poll = Some continuous_poll"
| "adc_options ((code, optarg) # es) continuous_poll =
     (if code = Opt CHR ''c'' then adc_options es True else None)"

definition adc_rounds ::
  "(nat \<Rightarrow> (u8 \<times> u8) option) \<Rightarrow> u8 \<times> u32 \<Rightarrow> u32 list \<Rightarrow> cstr list \<Rightarrow> nat \<Rightarrow> (int \<times> adc_shown) option list option" where
  "adc_rounds reads unset junk args n =
     map_option (\<lambda>continuous_poll.
         map (\<lambda>k. spi_read_adc (reads (3 * k)) (reads (3 * k + 1)) (reads (3 * k + 2)) unset junk)
           [0..<if continuous_poll then n else 1])
       (adc_options (fst (getopt_long '':ch'' adc_longopts args)) False)"


section \<open>Properties of the loop-back test\<close>

text \<open>A device that sends back what it gets, and a file system with room.\<close>

definition loops_back :: "spi_sys \<Rightarrow> bool" where
  "loops_back S \<longleftrightarrow>
     (\<forall>p bs. spi_transfer S p bs = (if bs = [] then None else Some bs)) \<and> (\<forall>d. spi_open S d) \<and>
     (\<forall>m. set_mode S m \<noteq> None) \<and> (\<forall>b. set_bits S b \<noteq> None) \<and> (\<forall>hz. set_speed S hz \<noteq> None) \<and>
     (\<forall>f. can_save S f) \<and> (\<forall>bs. saves S bs = length bs)"

lemma spi_main_loops_back:
  assumes "loops_back S" and "fsize p \<le> length (tx p)"
    and "spi_options S (fst (getopt_long ''D:s:d:b:w:r:vlHOLC3NRh'' spi_longopts args)) ([], spi_cfg0) = Some (t, p)"
  shows "\<exists>out. spi_main S args =
    (if fsize p = 0 then SpiAbort out else SpiExit 0 out (take (fsize p) (tx p)))"
proof -
  obtain m b hz where "set_mode S (spi_mode p) = Some m" "set_bits S (bits p) = Some b" "set_speed S (speed p) = Some hz"
    using assms(1) unfolding loops_back_def by (metis option.exhaust)
  then show ?thesis using assms by (auto simp: spi_main_def transfer_def loops_back_def Let_def)
qed

lemma wfile_args:
  "fst (getopt_long ''D:s:d:b:w:r:vlHOLC3NRh'' spi_longopts [''-l'', ''-w'', name]) =
     [(Opt CHR ''l'', []), (Opt CHR ''w'', name)]"
  by (simp add: clib_simps spi_longopts_def)

text \<open>C26: With a device that loops back, the test run on a file saves exactly the first bytes of
  that file, at most 1024, and exits with 0; an empty file makes it abort, since a transfer of no
  bytes counts as failed.\<close>

theorem spi_loopback_copies:
  assumes "loops_back S" and "spi_files S name = Some content"
  shows "\<exists>out. spi_main S [''-l'', ''-w'', name] =
    (if content = [] then SpiAbort out else SpiExit 0 out (take 1024 content))"
proof -
  let ?n = "min (length content) 1024"
  define p where "p = spi_cfg0\<lparr>spi_mode := 0 OR flag_value S SPI_LOOP, fsize := ?n,
    tx := take ?n content @ drop ?n (tx spi_cfg0)\<rparr>"
  have "spi_options S (fst (getopt_long ''D:s:d:b:w:r:vlHOLC3NRh'' spi_longopts [''-l'', ''-w'', name]))
      ([], spi_cfg0) = Some ([], p)"
    using assms(2) unfolding wfile_args
    by (simp add: spi_option_def mode_flag_def wfile_option_def spi_cfg0_def p_def Let_def)
  moreover have "fsize p \<le> length (tx p)" "take (fsize p) (tx p) = take 1024 content" "fsize p = 0 \<longleftrightarrow> content = []"
    by (auto simp: p_def spi_cfg0_def min_def)
  ultimately obtain out where "spi_main S [''-l'', ''-w'', name] =
      (if content = [] then SpiAbort out else SpiExit 0 out (take 1024 content))"
    using spi_main_loops_back [OF assms(1), of p "[''-l'', ''-w'', name]" "[]"] by auto
  then show ?thesis by blast
qed


section \<open>Properties of the converter\<close>

text \<open>
  A conversion as the chip sends it, 24 bits: !EOC, channel, sign, range and 20 bits of data. The
  transfer of 16 bits puts the first byte second.
\<close>

definition sent_word :: "u32 \<Rightarrow> (u8 \<times> u8) option" where
  "sent_word w = Some (ucast (drop_bit 8 w), ucast (drop_bit 16 w))"

definition word_channel :: "u32 \<Rightarrow> nat" where "word_channel w = of_bool (bit w 22)"

lemma read_code:
  assumes "take_bit 24 w = (w :: u32)"
  shows "push_bit 16 (ucast (ucast (drop_bit 16 w) :: u8)) OR push_bit 8 (ucast (ucast (drop_bit 8 w) :: u8)) =
    (w AND NOT (mask 8) :: u32)"
proof (rule bit_word_eqI)
  fix n assume "n < LENGTH(32)"
  have "\<not> bit w n" if "24 \<le> n"
    using that assms by (metis bit_take_bit_iff leD)
  then show "bit (push_bit 16 (ucast (ucast (drop_bit 16 w) :: u8)) OR push_bit 8 (ucast (ucast (drop_bit 8 w) :: u8)) :: u32) n =
      bit (w AND NOT (mask 8)) n"
    using \<open>n < LENGTH(32)\<close> by (cases "24 \<le> n") (auto simp: bit_simps)
qed


lemma and_bit_iff: "(w AND 2 ^ n \<noteq> 0) \<longleftrightarrow> bit (w :: u32) n" if "n < 32"
  using that by (auto simp: and_exp_eq_0_iff_not_bit)

lemma LTC2422_read_word:
  assumes "take_bit 24 w = w"
  shows "LTC2422_read (sent_word w) = Some (of_nat (word_channel w), w AND NOT (mask 8))"
proof -
  have "(w AND NOT (mask 8)) AND SPI_DATA_CHANNEL_MASK \<noteq> 0 \<longleftrightarrow> bit w 22"
    using and_bit_iff [of 22 "w AND NOT (mask 8)"]
    by (simp add: push_bit_eq_mult bit_and_iff bit_not_iff bit_mask_iff)
  then show ?thesis
    by (simp add: LTC2422_read_def sent_word_def read_code [OF assms] word_channel_def Let_def)
qed

text \<open>The voltage of a whole conversion and of the part that is read.\<close>

lemma voltage_data:
  "LTC2422_voltage w lsb = (if bit w 21 then 1 else - 1) * of_nat (unat w mod 2 ^ 20) * lsb"
proof -
  have "unat (w AND 0xFFFFF) = unat w mod 2 ^ 20"
  proof -
    have "(0xFFFFF :: u32) = mask 20" by (simp add: mask_eq_exp_minus_1)
    then have "w AND 0xFFFFF = take_bit 20 w" by (simp only: take_bit_eq_mask)
    then show ?thesis by (simp only: unsigned_take_bit_eq) (simp add: take_bit_eq_mod)
  qed
  moreover have "w AND 0x200000 \<noteq> 0 \<longleftrightarrow> bit w 21" using and_bit_iff [of 21 w] by simp
  ultimately show ?thesis by (simp add: LTC2422_voltage_def)
qed

lemma unat_cut: "unat (w AND NOT (mask 8)) mod 2 ^ 20 = unat (w :: u32) mod 2 ^ 20 - unat w mod 2 ^ 8"
proof -
  have "unat (w AND NOT (mask 8)) = unat w - unat w mod 2 ^ 8"
    using and_not_mask_nat [of w 8] by (simp add: mask_eq_exp_minus_1)
  moreover have "(n - n mod 256) mod 1048576 = n mod 1048576 - n mod 256" for n :: nat
    using mod_mult2_eq [of n 256 4096] mult_mod_right [of 256 "n div 256" 4096]
    by (simp add: minus_mod_eq_mult_div)
  ultimately show ?thesis by simp
qed

lemma voltage_cut:
  assumes "0 \<le> lsb"
  shows "\<bar>LTC2422_voltage (w AND NOT (mask 8)) lsb - LTC2422_voltage w lsb\<bar> \<le> 255 * lsb"
proof -
  let ?n = "unat w mod 2 ^ 20" and ?r = "unat w mod 2 ^ 8"
  have r: "?r \<le> ?n" "?r \<le> 255"
    using mod_less_eq_dividend [of "?n" "2 ^ 8"] by (simp_all add: mod_mod_cancel)
  have s: "bit (w AND NOT (mask 8)) 21 = bit w 21" by (simp add: bit_and_iff bit_not_iff bit_mask_iff)
  have "rat_of_nat (?n - ?r) = rat_of_nat ?n - rat_of_nat ?r" using r(1) by (rule of_nat_diff)
  then have "\<bar>LTC2422_voltage (w AND NOT (mask 8)) lsb - LTC2422_voltage w lsb\<bar> = rat_of_nat ?r * lsb"
    using assms unfolding voltage_data unat_cut s by (simp add: algebra_simps)
  also have "\<dots> \<le> 255 * lsb" using r(2) assms by (intro mult_right_mono) auto
  finally show ?thesis .
qed

text \<open>When the chip sends a conversion of each channel after the stale one, the test exits with
  0 and shows as A the voltage of channel 1 and as B that of channel 0, each within 255 steps of
  the conversion, because only 16 of its 24 bits are read; the raw codes carry the labels the
  other way round.\<close>

lemma adc_shows_both_channels:
  assumes "take_bit 24 wa = wa" and "take_bit 24 wb = wb" and "word_channel wa = 1" and "word_channel wb = 0"
    and "length junk = 2" and "(r2, r3) = (sent_word wa, sent_word wb) \<or> (r2, r3) = (sent_word wb, sent_word wa)"
  shows "\<exists>s. spi_read_adc r1 r2 r3 unset junk = Some (0, s) \<and>
    \<bar>volt_A s - LTC2422_voltage wa LTC2422_lsb\<bar> \<le> 255 * LTC2422_lsb \<and>
    \<bar>volt_B s - LTC2422_voltage wb LTC2422_lsb\<bar> \<le> 255 * LTC2422_lsb \<and>
    raw_A s = wb AND NOT (mask 8) \<and> raw_B s = wa AND NOT (mask 8)"
proof -
  obtain x y where junk: "junk = [x, y]" using assms(5) by (auto simp: numeral_2_eq_2 length_Suc_conv)
  have lsb: "0 \<le> LTC2422_lsb" by (simp add: LTC2422_lsb_def)
  let ?s = "\<lparr>raw_A = wb AND NOT (mask 8), raw_B = wa AND NOT (mask 8),
    volt_A = LTC2422_voltage (wa AND NOT (mask 8)) LTC2422_lsb,
    volt_B = LTC2422_voltage (wb AND NOT (mask 8)) LTC2422_lsb\<rparr>"
  have "spi_read_adc r1 r2 r3 unset junk = Some (0, ?s)"
    using assms(6) LTC2422_read_word [OF assms(1)] LTC2422_read_word [OF assms(2)] assms(3,4)
    by (auto simp: spi_read_adc_def adc_step_def junk)
  then show ?thesis using voltage_cut [OF lsb] by (intro exI [of _ ?s]) simp
qed


section \<open>Witnesses\<close>

definition loop_sys :: spi_sys where
  "loop_sys = \<lparr>flag_value = (\<lambda>_. 0x20), spi_files = (\<lambda>n. if n = ''f'' then Some [1, 2, 3] else None),
     spi_open = (\<lambda>_. True), set_mode = Some, set_bits = Some, set_speed = Some,
     spi_transfer = (\<lambda>p bs. if bs = [] then None else Some bs), can_save = (\<lambda>_. True), saves = length\<rparr>"

theorem spi_loopback_copies_witness:
  "\<exists>out. spi_main loop_sys [''-l'', ''-w'', ''f''] = SpiExit 0 out [1, 2, 3]"
  using spi_loopback_copies [of loop_sys "''f''" "[1, 2, 3]"] by (simp add: loops_back_def loop_sys_def)

end
