(* ===== verification/NetTests.thy ===== *)
theory NetTests
  imports CLib
begin

text \<open>
  The small programs of the network test suite (\<open>src/ethernet_test/test-suite\<close>): senders and
  receivers of raw frames (\<open>rawsend.c\<close>, \<open>rawrecv.c\<close>) and of multicast datagrams (\<open>sendmc.c\<close>,
  \<open>recvmc.c\<close>), and the ones that print the state of a link (\<open>chk.cpp\<close>, \<open>linkadv.cpp\<close>,
  \<open>linkspd.cpp\<close>, \<open>linkduplex.cpp\<close>). The kernel is an argument: what sockets and \<open>ioctl\<close> answer,
  what is read, and the seconds the clock shows at each call. Messages on stderr are left out. A
  program gives None if it never ends or crashes, as it does for an argument that is not there.
  The kernel reads 15 characters of the name of an interface.
\<close>

unbundle bit_operations_syntax

section \<open>Time\<close>

text \<open>
  \<open>getseconds() - starttime < secs\<close>, where the seconds are unsigned with 64 bits and an \<open>int\<close>
  is extended to that width: a negative number of seconds becomes a huge one.
\<close>

definition time_left :: "u64 \<Rightarrow> u64 \<Rightarrow> int \<Rightarrow> bool" where
  "time_left now start secs \<longleftrightarrow> now - start < of_int secs"

text \<open>The start kept in an \<open>int\<close>.\<close>

definition int_start :: "u64 \<Rightarrow> u64" where
  "int_start now = of_int (to_int32 (uint now))"

section \<open>Sending\<close>

text \<open>
  The loop of both senders: \<open>sends k\<close> says if call \<open>k\<close> is taken, \<open>clock (Suc k)\<close> is the time
  after it. The result is the status and the number of messages sent; None if the loop never ends.
\<close>

partial_function (option) send_for ::
  "(nat \<Rightarrow> bool) \<Rightarrow> (nat \<Rightarrow> u64) \<Rightarrow> u64 \<Rightarrow> int \<Rightarrow> nat \<Rightarrow> (int \<times> nat) option" where
  "send_for sends clock start secs k =
     (if \<not> sends k then Some (1, k)
      else if time_left (clock (Suc k)) start secs then send_for sends clock start secs (Suc k)
      else Some (0, Suc k))"

declare send_for.simps [simp del]

record if_sys =
  if_socket :: bool
  if_flags :: "cstr \<Rightarrow> u16 option"
  if_setflags :: "cstr \<Rightarrow> u16 \<Rightarrow> bool"
  if_index :: "cstr \<Rightarrow> int option"
  if_bind :: "int \<Rightarrow> bool"
  if_nonblock :: "cstr option"    \<comment> \<open>None, or the text of the error\<close>

definition IFF_PROMISC :: u16 where "IFF_PROMISC = 0x100"

definition promisc_flags :: "bool \<Rightarrow> u16 \<Rightarrow> u16" where
  "promisc_flags promisc flags =
     (if promisc then flags OR IFF_PROMISC else flags AND NOT IFF_PROMISC)"

text \<open>rawsend: the index of the interface, or None for -1, and the output.\<close>

definition raw_initialize :: "if_sys \<Rightarrow> cstr \<Rightarrow> bool \<Rightarrow> int option \<times> cstr" where
  "raw_initialize N device promisc =
     (case if_flags N (take 15 device) of None \<Rightarrow> (None, [])
      | Some flags \<Rightarrow>
          if \<not> if_setflags N (take 15 device) (promisc_flags promisc flags) then (None, [])
          else (if_index N (take 15 device), ''Initialized device '' @ device @ nl))"

definition raw_header :: "u8 list" where
  "raw_header = [0, 0xFF, 0xEE, 0xDD, 0xCC, 0xBB, 4, 4, 4, 4, 4, 4, 0x08, 0x70]"

text \<open>The frame sent: 512 bytes of an array of 2048 that is 0 behind the header.\<close>

definition raw_frame :: "u8 list" where
  "raw_frame = take 512 (raw_header @ replicate (2048 - 14) 0)"

text \<open>Status, output and the frames sent.\<close>

definition rawsend ::
  "if_sys \<Rightarrow> (nat \<Rightarrow> bool) \<Rightarrow> (nat \<Rightarrow> u64) \<Rightarrow> cstr list \<Rightarrow> (int \<times> cstr \<times> u8 list list) option" where
  "rawsend N sends clock argv =
     (if \<not> if_socket N then Some (1, ''Couldn'' @ [CHR 0x27] @ ''t create packet socket :('' @ nl, [])
      else if length argv < 2 then None
      else case raw_initialize N (argv ! 1) True of (idx, out) \<Rightarrow>
        (case idx of None \<Rightarrow> Some (1, out @ ''Couldn'' @ [CHR 0x27] @ ''t find adapter.'' @ nl, [])
         | Some ethIndex \<Rightarrow>
             if ethIndex < 0 then Some (1, out @ ''Couldn'' @ [CHR 0x27] @ ''t find adapter.'' @ nl, [])
             else if length argv < 3 then None
             else if \<not> if_bind N ethIndex then Some (1, out @ ''Couldn'' @ [CHR 0x27] @ ''t bind socket.'' @ nl, [])
             else map_option (\<lambda>(status, n). (status,
                      out @ (if status = 0 then [] else ''Error in sending packet.'' @ nl), replicate n raw_frame))
                    (send_for sends clock (int_start (clock 0)) (atoi (argv ! 2)) 0)))"

text \<open>sendmc: status, output and the sizes of the datagrams sent.\<close>

record mc_sys =
  mc_socket :: bool
  mc_options :: bool        \<comment> \<open>all of the setsockopt calls\<close>
  mc_bind :: "u16 \<Rightarrow> bool"
  mc_malloc :: "int \<Rightarrow> bool"

definition sendmc ::
  "mc_sys \<Rightarrow> (nat \<Rightarrow> bool) \<Rightarrow> (nat \<Rightarrow> u64) \<Rightarrow> cstr list \<Rightarrow> (int \<times> cstr \<times> int list) option" where
  "sendmc N sends clock argv =
     (if length argv < 6 then
        Some (1, ''Need at least 6 arguments - '' @ argv ! 0 @ '' <localIP> <mcastIP> <portnu> <seconds> <msgsize>'' @ nl, [])
      else if \<not> mc_socket N \<or> \<not> mc_options N then Some (1, [], [])
      else if \<not> mc_malloc N (atoi (argv ! 5) + 16) then Some (1, ''databuf allocation failed!'' @ nl, [])
      else map_option (\<lambda>(status, n). (status, [], replicate n (atoi (argv ! 5))))
             (send_for sends clock (clock 0) (atoi (argv ! 4)) 0))"


section \<open>Receiving\<close>

text \<open>What a call of \<open>read\<close> gives.\<close>

datatype read_result = Bytes "u8 list" | WouldBlock | ReadError

text \<open>The number of bytes after the correction for EWOULDBLOCK.\<close>

definition bytesread :: "nat \<Rightarrow> read_result \<Rightarrow> int" where
  "bytesread cap r = (case r of Bytes bs \<Rightarrow> int (min cap (length bs)) | WouldBlock \<Rightarrow> 0 | ReadError \<Rightarrow> - 1)"

text \<open>The buffer keeps what an earlier call put there.\<close>

definition fill_buffer :: "nat \<Rightarrow> read_result \<Rightarrow> u8 list \<Rightarrow> u8 list" where
  "fill_buffer cap r buf =
     (case r of Bytes bs \<Rightarrow> take cap bs @ drop (min cap (length bs)) buf | _ \<Rightarrow> buf)"

definition from_rawsend :: "u8 list \<Rightarrow> bool" where
  "from_rawsend recvbuf \<longleftrightarrow>
     recvbuf ! 0 = 0x00 \<and> recvbuf ! 1 = 0xFF \<and> recvbuf ! 2 = 0xEE \<and> recvbuf ! 3 = 0xDD \<and>
     recvbuf ! 4 = 0xCC \<and> recvbuf ! 5 = 0xBB"

text \<open>rawrecv: one turn of the loop on the buffer and the total, which wraps as an \<open>int\<close>.\<close>

definition raw_turn :: "read_result \<Rightarrow> u8 list \<times> int \<Rightarrow> u8 list \<times> int" where
  "raw_turn r st =
     (let (buf, totbytes) = st; n = bytesread 2048 r; buf' = fill_buffer 2048 r buf;
          t = (if from_rawsend buf' then to_int32 (totbytes + n) else totbytes)
      in (buf', to_int32 (t + n)))"

text \<open>recvmc: the same without the comparison, with a buffer of 1024 bytes.\<close>

definition mc_turn :: "read_result \<Rightarrow> u8 list \<times> int \<Rightarrow> u8 list \<times> int" where
  "mc_turn r st =
     (let (buf, totbytes) = st in (fill_buffer 1024 r buf, to_int32 (totbytes + bytesread 1024 r)))"

text \<open>The loop of both receivers; None if it never ends.\<close>

partial_function (option) recv_for ::
  "(read_result \<Rightarrow> u8 list \<times> int \<Rightarrow> u8 list \<times> int) \<Rightarrow> (nat \<Rightarrow> read_result) \<Rightarrow> (nat \<Rightarrow> u64) \<Rightarrow> u64 \<Rightarrow> int \<Rightarrow>
     nat \<Rightarrow> u8 list \<times> int \<Rightarrow> int option" where
  "recv_for turn reads clock start secs k st =
     (let st' = turn (reads k) st in
      if reads k \<noteq> ReadError \<and> time_left (clock (Suc k)) start secs
      then recv_for turn reads clock start secs (Suc k) st'
      else Some (snd st'))"

declare recv_for.simps [simp del]

definition total_line :: "int \<Rightarrow> cstr" where
  "total_line totbytes = (if totbytes \<noteq> 0 then fmt_d totbytes @ ''bytes'' @ nl else ''none'' @ nl)"

text \<open>
  rawrecv: what is printed before the exit with 1, or None if the interface is set up. The name
  is copied into the 32 bytes of a \<open>struct ifreq\<close> without a check of its length.
\<close>

definition raw_init :: "if_sys \<Rightarrow> cstr \<Rightarrow> int \<Rightarrow> cstr option" where
  "raw_init N device promis =
     (if \<not> if_socket N then Some (''ERROR: Could not open socket, Got #?'' @ nl)
      else case if_flags N (take 15 device) of None \<Rightarrow> Some []
      | Some flags \<Rightarrow>
          if \<not> if_setflags N (take 15 device) (promisc_flags (promis \<noteq> 0) flags) then Some []
          else if if_index N (take 15 device) = None then Some [] else None)"

definition rawrecv ::
  "if_sys \<Rightarrow> (nat \<Rightarrow> read_result) \<Rightarrow> (nat \<Rightarrow> u64) \<Rightarrow> cstr list \<Rightarrow> (int \<times> cstr) option" where
  "rawrecv N reads clock argv =
     (if length argv < 3 \<or> (if_socket N \<and> 32 \<le> length (argv ! 1)) then None
      else case raw_init N (argv ! 1) (atoi (argv ! 2)) of Some msg \<Rightarrow> Some (1, msg)
      | None \<Rightarrow>
          if length argv < 4 then None
          else case if_nonblock N of
            Some e \<Rightarrow> Some (1, ''ioctl to set non-blocking mode failed '' @ e @ nl)
          | None \<Rightarrow> map_option (\<lambda>t. (0, total_line t))
             (recv_for raw_turn reads clock (int_start (clock 0)) (atoi (argv ! 3)) 0 (replicate 4096 0, 0)))"

definition recvmc ::
  "mc_sys \<Rightarrow> (nat \<Rightarrow> read_result) \<Rightarrow> (nat \<Rightarrow> u64) \<Rightarrow> cstr list \<Rightarrow> (int \<times> cstr) option" where
  "recvmc N reads clock argv =
     (if length argv < 5 then
        Some (1, ''Need at least 5 arguments - '' @ argv ! 0 @ '' <localIP> <mcastIP> <portnu> <seconds>'' @ nl)
      else if \<not> mc_socket N \<or> \<not> mc_options N \<or> \<not> mc_bind N (of_int (atoi (argv ! 3))) then Some (1, [])
      else map_option (\<lambda>t. (0, total_line t))
             (recv_for mc_turn reads clock (int_start (clock 0)) (atoi (argv ! 4)) 0 (replicate 1024 0, 0)))"



section \<open>State of a link\<close>

text \<open>What the kernel knows of the interface named on the command line.\<close>

record link_sys =
  lk_socket :: bool
  lk_flags :: "u16 option"
  lk_speed :: "nat option"          \<comment> \<open>ETHTOOL\_GSET and its fields\<close>
  lk_duplex :: nat
  lk_adv :: u32
  lk_lpadv :: u32
  lk_supported :: u32
  lk_mtu :: "int option"
  lk_addr :: "cstr option"

definition IFF_UP :: u16 where "IFF_UP = 0x1"
definition IFF_RUNNING :: u16 where "IFF_RUNNING = 0x40"

definition linkstatus :: "link_sys \<Rightarrow> int" where
  "linkstatus L =
     (case lk_flags L of None \<Rightarrow> - 1
      | Some f \<Rightarrow> if f AND IFF_UP \<noteq> 0 \<and> f AND IFF_RUNNING \<noteq> 0 then 1 else 0)"

definition linkspeed :: "link_sys \<Rightarrow> int" where
  "linkspeed L =
     (case lk_speed L of None \<Rightarrow> - 1
      | Some s \<Rightarrow> if s \<in> {10, 100, 1000, 2500, 10000} then int s else - 1)"

definition link_duplex :: "link_sys \<Rightarrow> int" where
  "link_duplex L =
     (case lk_speed L of None \<Rightarrow> - 1
      | Some _ \<Rightarrow> if lk_duplex L = 1 then 1 else if lk_duplex L = 0 then 0 else - 1)"

definition linkadv :: "link_sys \<Rightarrow> u32" where
  "linkadv L = (case lk_speed L of None \<Rightarrow> - 1 | Some _ \<Rightarrow> lk_adv L)"

definition linklpadv :: "link_sys \<Rightarrow> u32" where
  "linklpadv L = (case lk_speed L of None \<Rightarrow> - 1 | Some _ \<Rightarrow> lk_lpadv L)"

definition linksupported :: "link_sys \<Rightarrow> u32" where
  "linksupported L = (case lk_speed L of None \<Rightarrow> - 1 | Some _ \<Rightarrow> lk_supported L)"

text \<open>The functions that print on the way: result and output. The address is never returned.\<close>

definition chk_linkstatus :: "link_sys \<Rightarrow> int \<times> cstr" where
  "chk_linkstatus L = (linkstatus L,
     case lk_flags L of None \<Rightarrow> []
     | Some f \<Rightarrow> ''linkstatus data '' @ fmt_u (unat (f AND IFF_UP)) @ '' '' @ fmt_u (unat (f AND IFF_RUNNING)) @ nl)"

definition link_mtu :: "link_sys \<Rightarrow> int \<times> cstr" where
  "link_mtu L = (case lk_mtu L of None \<Rightarrow> (- 1, []) | Some m \<Rightarrow> (m, fmt_d m @ nl))"

definition ipv4addr :: "link_sys \<Rightarrow> cstr \<times> cstr" where
  "ipv4addr L = (''(none)'', case lk_addr L of None \<Rightarrow> [] | Some a \<Rightarrow> a @ nl)"

text \<open>The programs: status and output.\<close>

definition linkspd_main :: "link_sys \<Rightarrow> int \<times> cstr" where
  "linkspd_main L =
     (if \<not> lk_socket L then (1, ''error'' @ nl)
      else (0, fmt_d (if linkstatus L \<noteq> 0 then linkspeed L else - 1) @ ''Mbps'' @ nl))"

definition linkduplex_main :: "link_sys \<Rightarrow> int \<times> cstr" where
  "linkduplex_main L =
     (if \<not> lk_socket L then (1, ''error'' @ nl)
      else (0, fmt_d (if linkstatus L \<noteq> 0 then link_duplex L else - 1) @ ''d'' @ nl))"

definition linkadv_main :: "link_sys \<Rightarrow> int \<times> cstr" where
  "linkadv_main L =
     (if \<not> lk_socket L then (1, ''error'' @ nl)
      else
        let hex = \<lambda>v. fmt_base 16 (unat (if linkstatus L \<noteq> 0 then v else - 1 :: u32)) in
        (0, hex (linkadv L) @ '' '' @ hex (linklpadv L) @ '' '' @ hex (linksupported L) @ nl))"

definition chk_main :: "link_sys \<Rightarrow> int \<times> cstr" where
  "chk_main L =
     (if \<not> lk_socket L then (1, ''error'' @ nl)
      else
        (0, ''linkspeed  '' @ fmt_d (linkspeed L) @ nl @ ''duplex     '' @ fmt_d (link_duplex L) @ nl @
            snd (chk_linkstatus L) @ ''linkstatus '' @ fmt_d (fst (chk_linkstatus L)) @ nl @
            snd (link_mtu L) @ ''mtu'' @ tab @ ''   '' @ fmt_d (fst (link_mtu L)) @ nl @
            snd (ipv4addr L) @ ''ipaddr     '' @ fst (ipv4addr L) @ nl))"


section \<open>linkspeed\<close>

text \<open>
  The program \<open>linkspeed.c\<close> on eth0: \<open>Inl\<close> is the error number of a failed \<open>ioctl\<close>. After no way
  to the registers was found the socket is closed, so that the \<open>ioctl\<close> after it fails whatever
  the number in the uninitialised variable is.
\<close>

record ls_sys =
  ls_arp_socket :: bool
  ls_glink :: "int + u32"
  ls_miiphy :: bool
  ls_devprivate :: bool
  ls_miireg :: "u32 \<Rightarrow> u16 option"
  ls_inet_socket :: bool
  ls_flags :: "int + u16"
  ls_ip_socket :: bool
  ls_gset :: "u16 option"

definition SIOCDEVPRIVATE :: u32 where "SIOCDEVPRIVATE = 0x89F0"

definition ioctl_fail :: "int \<Rightarrow> cstr" where
  "ioctl_fail errno = ''ioctl fail -1, '' @ fmt_d errno @ nl"

definition mii_ctl :: "ls_sys \<Rightarrow> u32 option" where
  "mii_ctl L = (if ls_miiphy L then Some 0x8948 else if ls_devprivate L then Some (SIOCDEVPRIVATE + 1) else None)"

definition ls_linkstatus :: "ls_sys \<Rightarrow> int option \<times> cstr" where
  "ls_linkstatus L =
     (if \<not> ls_arp_socket L then (Some 1, ''error'' @ nl)
      else case ls_glink L of
        Inr d \<Rightarrow> (None, ''linkstatus data '' @ fmt_d (sint d) @ nl)
      | Inl errno \<Rightarrow> (None, ioctl_fail errno @
          (case mii_ctl L of None \<Rightarrow> ''couldnt detect mii interface!'' @ nl
           | Some ctl \<Rightarrow> (case ls_miireg L ctl of None \<Rightarrow> []
               | Some d3 \<Rightarrow> ''state '' @ (if d3 AND 4 = 0 then ''dis'' else ''conn'') @ nl)) @
          ''linkstatus data 0'' @ nl))"

definition ls_linkcheck :: "ls_sys \<Rightarrow> int option \<times> cstr" where
  "ls_linkcheck L =
     (if \<not> ls_inet_socket L then (Some 1, ''error'' @ nl)
      else
        let (msg, flags) = (case ls_flags L of Inl errno \<Rightarrow> (ioctl_fail errno, 0) | Inr f \<Rightarrow> ([], f)) in
        (None, msg @ ''linkstatus data '' @ fmt_u (unat (flags AND IFF_UP)) @ '' '' @
           fmt_u (unat (flags AND IFF_RUNNING)) @ nl))"

definition ls_speed :: "ls_sys \<Rightarrow> int \<times> cstr" where
  "ls_speed L =
     (if \<not> ls_ip_socket L then (1, [])
      else case ls_gset L of None \<Rightarrow> (1, [])
      | Some speed \<Rightarrow>
          (0, if unat speed \<in> {10, 100, 1000, 2500, 10000} then fmt_u (unat speed) @ nl
              else ''Speed returned is '' @ fmt_u (unat speed) @ nl))"

definition linkspeed_main :: "ls_sys \<Rightarrow> int \<times> cstr" where
  "linkspeed_main L =
     (case ls_linkstatus L of (Some status, out) \<Rightarrow> (status, out)
      | (None, out) \<Rightarrow> (case ls_linkcheck L of (Some status, out') \<Rightarrow> (status, out @ out')
          | (None, out') \<Rightarrow> (case ls_speed L of (status, out'') \<Rightarrow> (status, out @ out' @ out''))))"


section \<open>Loops that end\<close>

text \<open>A clock that lets a loop do exactly \<open>n\<close> turns.\<close>

definition lasts :: "(nat \<Rightarrow> u64) \<Rightarrow> u64 \<Rightarrow> int \<Rightarrow> nat \<Rightarrow> bool" where
  "lasts clock start secs n \<longleftrightarrow>
     0 < n \<and> (\<forall>k. 0 < k \<and> k < n \<longrightarrow> time_left (clock k) start secs) \<and> \<not> time_left (clock n) start secs"

lemma send_for_lasts:
  assumes "lasts clock start secs n" and "\<forall>k<n. sends k"
  shows "send_for sends clock start secs 0 = Some (0, n)"
proof -
  have "k < n \<Longrightarrow> send_for sends clock start secs k = Some (0, n)" if "k \<le> n" for k
    using that
  proof (induction rule: inc_induct)
    case (step k)
    then show ?case
      using assms by (subst send_for.simps) (cases "Suc k = n"; auto simp: lasts_def)
  qed simp
  then show ?thesis using assms(1) by (simp add: lasts_def)
qed

lemma recv_for_lasts:
  assumes "lasts clock start secs n" and "\<forall>k<n. reads k \<noteq> ReadError"
  shows "recv_for turn reads clock start secs 0 st = Some (snd (fold turn (map reads [0..<n]) st))"
proof -
  have "k < n \<Longrightarrow> recv_for turn reads clock start secs k st = Some (snd (fold turn (map reads [k..<n]) st))"
    if "k \<le> n" for k st
    using that
  proof (induction arbitrary: st rule: inc_induct)
    case (step k)
    have "[k..<n] = k # [Suc k..<n]" using step by (simp add: upt_conv_Cons)
    then show ?case
      using assms step
      by (subst recv_for.simps) (cases "Suc k = n"; auto simp: lasts_def Let_def)
  qed simp
  then show ?thesis using assms(1) by (simp add: lasts_def)
qed

section \<open>Totals\<close>

lemma to_int32_add: "to_int32 (to_int32 a + b) = to_int32 (a + b)"
  by (simp add: to_int32_def) (simp add: mod_simps algebra_simps)


text \<open>The messages among what was read.\<close>

definition arrived :: "read_result list \<Rightarrow> u8 list list" where
  "arrived rs = concat (map (\<lambda>r. case r of Bytes bs \<Rightarrow> [bs] | _ \<Rightarrow> []) rs)"

definition proper_frame :: "read_result \<Rightarrow> bool" where
  "proper_frame r = (case r of Bytes bs \<Rightarrow> 14 \<le> length bs \<and> length bs \<le> 2048 | WouldBlock \<Rightarrow> True | ReadError \<Rightarrow> False)"

definition total_bytes :: "u8 list list \<Rightarrow> int" where
  "total_bytes bss = int (sum_list (map length bss))"

lemma from_rawsend_append: "6 \<le> length bs \<Longrightarrow> from_rawsend (bs @ r) = from_rawsend bs"
  by (auto simp: from_rawsend_def nth_append)

lemma raw_turn_frame:
  assumes "proper_frame r"
  shows "snd (raw_turn r (buf, to_int32 t)) =
    to_int32 (t + total_bytes (arrived [r]) + total_bytes (filter from_rawsend (arrived [r])))"
proof (cases r)
  case (Bytes bs)
  then have "from_rawsend (fill_buffer 2048 r buf) = from_rawsend bs" "bytesread 2048 r = int (length bs)"
    using assms by (simp_all add: fill_buffer_def bytesread_def proper_frame_def from_rawsend_append)
  then show ?thesis
    using Bytes by (simp add: raw_turn_def Let_def to_int32_add arrived_def total_bytes_def)
qed (use assms to_int32_add [of t 0] in \<open>simp_all add: raw_turn_def bytesread_def to_int32_add Let_def arrived_def total_bytes_def proper_frame_def\<close>)

lemma fold_raw_turn:
  "list_all proper_frame rs \<Longrightarrow> snd (fold raw_turn rs (buf, to_int32 t)) =
    to_int32 (t + total_bytes (arrived rs) + total_bytes (filter from_rawsend (arrived rs)))"
proof (induction rs arbitrary: buf t)
  case Nil
  then show ?case by (simp add: arrived_def total_bytes_def)
next
  case (Cons r rs)
  let ?t = "t + total_bytes (arrived [r]) + total_bytes (filter from_rawsend (arrived [r]))"
  obtain buf' where "raw_turn r (buf, to_int32 t) = (buf', to_int32 ?t)"
    using raw_turn_frame [of r buf t] Cons.prems by (metis list.pred_inject(2) prod.collapse)
  moreover have "arrived (r # rs) = arrived [r] @ arrived rs" by (simp add: arrived_def)
  ultimately show ?case
    using Cons.IH [of buf' ?t] Cons.prems by (simp add: total_bytes_def algebra_simps)
qed

lemma raw_frame_shape: "length raw_frame = 512" "from_rawsend raw_frame"
  by (simp_all add: raw_frame_def raw_header_def from_rawsend_def)

text \<open>C27: Whatever arrives besides the frames of rawsend, rawrecv prints the bytes of everything that
  arrived and once more 512 for every frame that rawsend sent: those are counted twice, and the
  others are not left out.\<close>

theorem rawrecv_counts_twice:
  assumes sent: "rawsend NS sends sclock sargv = Some (0, out, frames)"
    and "4 \<le> length argv" and "length (argv ! 1) < 16"
    and "raw_init N (argv ! 1) (atoi (argv ! 2)) = None" and "if_nonblock N = None"
    and "lasts clock (int_start (clock 0)) (atoi (argv ! 3)) n"
    and frames: "list_all proper_frame (map reads [0..<n])"
    and heard: "filter from_rawsend (arrived (map reads [0..<n])) = frames"
  shows "rawrecv N reads clock argv =
    Some (0, total_line (to_int32 (total_bytes (arrived (map reads [0..<n])) + 512 * int (length frames))))"
proof -
  have "\<exists>m. frames = replicate m raw_frame"
    using sent by (auto simp: rawsend_def split: if_splits prod.splits option.splits)
  then have t: "total_bytes frames = 512 * int (length frames)"
    by (auto simp: total_bytes_def raw_frame_shape sum_list_replicate)
  have "\<forall>k<n. reads k \<noteq> ReadError"
    using frames by (auto simp: list_all_iff proper_frame_def split: read_result.splits)
  then have "recv_for raw_turn reads clock (int_start (clock 0)) (atoi (argv ! 3)) 0 (replicate 4096 0, 0) =
      Some (snd (fold raw_turn (map reads [0..<n]) (replicate 4096 0, to_int32 0)))"
    using recv_for_lasts [OF assms(6)] by (simp add: to_int32_id)
  then show ?thesis
    using assms(2-5) unfolding fold_raw_turn [OF frames] by (simp add: rawrecv_def heard t)
qed

text \<open>Multicast: the receiver prints the bytes of all datagrams, each cut to its buffer.\<close>

lemma fold_mc_turn:
  "list_all (\<lambda>r. r \<noteq> ReadError) rs \<Longrightarrow> snd (fold mc_turn rs (buf, to_int32 t)) =
    to_int32 (t + total_bytes (map (take 1024) (arrived rs)))"
proof (induction rs arbitrary: buf t)
  case (Cons r rs)
  then show ?case
    by (cases r) (auto simp: mc_turn_def bytesread_def to_int32_add arrived_def total_bytes_def algebra_simps min.commute)
qed (simp add: arrived_def total_bytes_def)

lemma recvmc_total:
  assumes "5 \<le> length argv" and "mc_socket N" and "mc_options N" and "mc_bind N (of_int (atoi (argv ! 3)))"
    and "lasts clock (int_start (clock 0)) (atoi (argv ! 4)) n" and "list_all (\<lambda>r. r \<noteq> ReadError) (map reads [0..<n])"
  shows "recvmc N reads clock argv =
    Some (0, total_line (to_int32 (total_bytes (map (take 1024) (arrived (map reads [0..<n]))))))"
proof -
  have "\<forall>k<n. reads k \<noteq> ReadError" using assms(6) by (simp add: list_all_iff)
  then have "recv_for mc_turn reads clock (int_start (clock 0)) (atoi (argv ! 4)) 0 (replicate 1024 0, 0) =
      Some (snd (fold mc_turn (map reads [0..<n]) (replicate 1024 0, to_int32 0)))"
    using recv_for_lasts [OF assms(5)] by (simp add: to_int32_id)
  then show ?thesis using assms(1-4) unfolding fold_mc_turn [OF assms(6)] by (simp add: recvmc_def)
qed


section \<open>Witness\<close>

definition ready_if :: if_sys where
  "ready_if = \<lparr>if_socket = True, if_flags = (\<lambda>_. Some 0x43), if_setflags = (\<lambda>_ _. True), if_index = (\<lambda>_. Some 2),
     if_bind = (\<lambda>_. True), if_nonblock = None\<rparr>"

theorem rawrecv_counts_twice_witness:
  "rawrecv ready_if (\<lambda>k. if k = 1 then Bytes raw_frame else if k = 2 then Bytes (replicate 60 7) else WouldBlock)
     (\<lambda>k. if k < 4 then 100 else 101) [''rawrecv'', ''eth0'', ''1'', ''1''] =
   Some (0, total_line 1084)"
proof -
  let ?reads = "\<lambda>k. if k = 1 then Bytes raw_frame else if k = 2 then Bytes (replicate 60 7) else WouldBlock"
  let ?clock = "\<lambda>k::nat. if k < 4 then 100 else 101 :: u64"
  have one: "atoi ''1'' = 1" by (simp add: clib_simps)
  have st: "int_start 100 = 100" by (simp add: int_start_def to_int32_def)
  have l: "lasts ?clock (int_start (?clock 0)) (atoi ([''rawrecv'', ''eth0'', ''1'', ''1''] ! 3)) 4"
    by (simp add: lasts_def time_left_def one st)
  have "rawsend ready_if (\<lambda>_. True) (\<lambda>k. if k < 1 then 100 else 101) [''rawsend'', ''eth0'', ''1''] =
      Some (0, ''Initialized device eth0'' @ nl, [raw_frame])"
    using send_for_lasts [of "\<lambda>k. if k < 1 then 100 else 101" 100 1 1 "\<lambda>_. True"]
    by (simp add: rawsend_def raw_initialize_def ready_if_def one st lasts_def time_left_def)
  moreover have r: "map ?reads [0..<4] = [WouldBlock, Bytes raw_frame, Bytes (replicate 60 7), WouldBlock]"
    by (simp add: upt_rec)
  moreover have "\<not> from_rawsend (replicate 60 7)" by (simp add: from_rawsend_def)
  ultimately show ?thesis
    using rawrecv_counts_twice [of ready_if "\<lambda>_. True" "\<lambda>k. if k < 1 then 100 else 101" "[''rawsend'', ''eth0'', ''1'']"
        "''Initialized device eth0'' @ nl" "[raw_frame]" "[''rawrecv'', ''eth0'', ''1'', ''1'']" ready_if ?clock 4 ?reads]
      l raw_frame_shape
    by (simp add: raw_init_def ready_if_def proper_frame_def arrived_def total_bytes_def to_int32_def)
qed

end
