(* ===== verification/NetOptions.thy ===== *)
theory NetOptions
  imports CLib
begin

text \<open>
  The traffic generator of the network test suite (\<open>src/ethernet_test/test-suite\<close>): addresses
  (\<open>ipaddr.h\<close>), sockets (\<open>socket.h\<close>) and the program itself (\<open>options.cpp\<close>), which reads from its
  arguments which senders and receivers to run and starts a thread for each of them. Arguments of
  the model are \<open>getaddrinfo\<close>, \<open>inet_ntop\<close>, what the calls on the sockets return and what the clock
  shows. The trace on stdout is left out; the totals that the threads print are the values they
  return. Doubles are exact, and a conversion that C++ leaves undefined is \<open>Undefined\<close>.
\<close>

datatype 'a run = Returns 'a | Exits int | Aborts | Undefined

primrec run_bind :: "'a run \<Rightarrow> ('a \<Rightarrow> 'b run) \<Rightarrow> 'b run" where
  "run_bind (Returns x) f = f x"
| "run_bind (Exits e) f = Exits e"
| "run_bind Aborts f = Aborts"
| "run_bind Undefined f = Undefined"


section \<open>Addresses\<close>

text \<open>Pieces up to a delimiter as \<open>std::getline\<close> takes them: nothing is left after a last delimiter.\<close>

function split_at :: "char \<Rightarrow> cstr \<Rightarrow> cstr list" where
  "split_at delim s =
     (if s = [] then []
      else takeWhile (\<lambda>c. c \<noteq> delim) s # split_at delim (drop 1 (dropWhile (\<lambda>c. c \<noteq> delim) s)))"
  by pat_completeness auto

termination
proof (relation "measure (\<lambda>(d, s). length s)")
  fix delim :: char and s :: cstr
  assume "s \<noteq> []"
  then have "length (drop 1 (dropWhile (\<lambda>c. c \<noteq> delim) s)) < length s"
    using length_dropWhile_le [of "\<lambda>c. c \<noteq> delim" s] by (cases s) (auto simp: less_Suc_eq_le)
  then show "((delim, drop 1 (dropWhile (\<lambda>c. c \<noteq> delim) s)), delim, s) \<in> measure (\<lambda>(d, s). length s)"
    by simp
qed simp

declare split_at.simps [simp del]

definition AF_UNSPEC :: nat where "AF_UNSPEC = 0"
definition AF_INET :: nat where "AF_INET = 2"
definition AF_INET6 :: nat where "AF_INET6 = 10"

record ip_address =
  ip_family :: nat
  ip_bytes :: "u8 list"
  ip_port :: u16

text \<open>\<open>getaddrinfo\<close>: the first address for a host, a service and a family.\<close>

type_synonym resolver = "cstr option \<Rightarrow> cstr \<Rightarrow> nat \<Rightarrow> ip_address option"

definition known_family :: "ip_address \<Rightarrow> bool" where
  "known_family ip \<longleftrightarrow> ip_family ip = AF_INET \<or> ip_family ip = AF_INET6"

definition getsockaddrlen :: "ip_address \<Rightarrow> nat run" where
  "getsockaddrlen ip =
     (if ip_family ip = AF_INET then Returns 16 else if ip_family ip = AF_INET6 then Returns 28 else Aborts)"

definition getport :: "ip_address \<Rightarrow> u16 run" where
  "getport ip = (if known_family ip then Returns (ip_port ip) else Aborts)"

definition setport :: "u16 \<Rightarrow> ip_address \<Rightarrow> ip_address run" where
  "setport portn ip = (if known_family ip then Returns (ip\<lparr>ip_port := portn\<rparr>) else Aborts)"

definition ip_tostring :: "(nat \<Rightarrow> u8 list \<Rightarrow> cstr) \<Rightarrow> ip_address \<Rightarrow> cstr run" where
  "ip_tostring ntop ip =
     run_bind (getport ip) (\<lambda>p. Returns (ntop (ip_family ip) (ip_bytes ip) @ ''@'' @ fmt_u (unat p)))"

text \<open>A host that is not found leaves an address of family 0.\<close>

definition ip_construct :: "resolver \<Rightarrow> cstr option \<Rightarrow> cstr \<Rightarrow> nat \<Rightarrow> ip_address run" where
  "ip_construct gai pip pport afhint =
     (case gai pip pport afhint of
        None \<Rightarrow> Returns \<lparr>ip_family = 0, ip_bytes = [], ip_port = 0\<rparr>
      | Some res \<Rightarrow> run_bind (setport (of_int (atoi pport)) res)
          (\<lambda>ip. run_bind (getport ip) (\<lambda>_. Returns ip)))"

definition ip_parse :: "resolver \<Rightarrow> cstr \<Rightarrow> ip_address run" where
  "ip_parse gai s =
     (case split_at CHR ''@'' s of
        [ipaddr, port] \<Rightarrow> ip_construct gai (Some ipaddr) port AF_UNSPEC
      | [ipaddr] \<Rightarrow> ip_construct gai (Some ipaddr) ''0'' AF_UNSPEC
      | _ \<Rightarrow> Aborts)"


section \<open>Arguments\<close>

text \<open>A worker as its constructor leaves it: None is a member that is not initialised.\<close>

record socket_worker =
  txrxType :: int
  bStats :: bool
  bUdp :: "bool option"
  bTouch :: bool
  bEcho :: bool
  bNoUdpChecksum :: bool
  bNoTcpDelay :: bool
  bForceIPv6 :: bool
  sw_priority :: "int option"
  sw_affinity :: "int option"
  sockbufsize :: int
  sw_seconds :: int
  messageSize :: "int option"
  vDestIP :: "ip_address list"
  vLocalIP :: "ip_address list"

definition new_socketWorker :: "int \<Rightarrow> int \<Rightarrow> int \<Rightarrow> socket_worker" where
  "new_socketWorker type secs bufsize =
     \<lparr>txrxType = type, bStats = False, bUdp = None, bTouch = False, bEcho = False, bNoUdpChecksum = False,
      bNoTcpDelay = False, bForceIPv6 = False, sw_priority = None, sw_affinity = None, sockbufsize = bufsize,
      sw_seconds = secs, messageSize = None, vDestIP = [], vLocalIP = []\<rparr>"

record gen_options =
  o_seconds :: int
  o_sockbufsize :: int
  vSockets :: "socket_worker list"

definition gen_options0 :: gen_options where
  "gen_options0 = \<lparr>o_seconds = 0, o_sockbufsize = 8192, vSockets = []\<rparr>"

text \<open>\<open>psocket\<close> points to the worker pushed last, if there is one.\<close>

definition on_psocket :: "(socket_worker \<Rightarrow> socket_worker) \<Rightarrow> gen_options \<Rightarrow> gen_options" where
  "on_psocket f o' =
     (if vSockets o' = [] then o' else o'\<lparr>vSockets := butlast (vSockets o') @ [f (last (vSockets o'))]\<rparr>)"

definition push_worker :: "int \<Rightarrow> gen_options \<Rightarrow> gen_options" where
  "push_worker type o' =
     o'\<lparr>vSockets := vSockets o' @ [new_socketWorker type (o_seconds o') (o_sockbufsize o')]\<rparr>"

text \<open>
  One argument: the second character is the option and the rest its value. An empty argument has
  no second character, and \<open>-\<close> alone has the 0 at its end.
\<close>

definition local_option :: "resolver \<Rightarrow> cstr \<Rightarrow> gen_options \<Rightarrow> gen_options run" where
  "local_option gai v o' =
     (if vSockets o' = [] then Returns o'
      else run_bind (ip_parse gai v) (\<lambda>ip. run_bind (getport ip)
        (\<lambda>_. Returns (on_psocket (\<lambda>w. w\<lparr>vLocalIP := vLocalIP w @ [ip]\<rparr>) o'))))"

definition dest_option :: "resolver \<Rightarrow> cstr \<Rightarrow> gen_options \<Rightarrow> gen_options run" where
  "dest_option gai v o' =
     (if vSockets o' = [] then Returns o'
      else run_bind (ip_parse gai v)
        (\<lambda>ip. Returns (on_psocket (\<lambda>w. w\<lparr>vDestIP := vDestIP w @ [ip]\<rparr>) o')))"

definition gen_option :: "resolver \<Rightarrow> char \<Rightarrow> cstr \<Rightarrow> gen_options \<Rightarrow> gen_options run" where
  "gen_option gai c v o' =
     (if c = CHR ''t'' then Returns (push_worker 0 o')
      else if c = CHR ''r'' then Returns (push_worker 1 o')
      else if c = CHR ''m'' then Returns (on_psocket (\<lambda>w. w\<lparr>messageSize := Some (atoi v)\<rparr>) o')
      else if c = CHR ''s'' then Returns (on_psocket (\<lambda>w. w\<lparr>bStats := True\<rparr>) o')
      else if c = CHR ''6'' then Returns (on_psocket (\<lambda>w. w\<lparr>bForceIPv6 := True\<rparr>) o')
      else if c = CHR ''l'' then local_option gai v o'
      else if c = CHR ''b'' then Returns (o'\<lparr>o_sockbufsize := atoi v\<rparr>)
      else if c = CHR ''i'' then dest_option gai v o'
      else if c = CHR ''a'' then Returns (on_psocket (\<lambda>w. w\<lparr>sw_affinity := Some (atoi v)\<rparr>) o')
      else if c = CHR ''x'' then Returns (on_psocket (\<lambda>w. w\<lparr>sw_priority := Some (atoi v)\<rparr>) o')
      else if c = CHR ''T'' then Returns (on_psocket (\<lambda>w. w\<lparr>bTouch := True\<rparr>) o')
      else if c = CHR ''e'' then Returns (on_psocket (\<lambda>w. w\<lparr>bEcho := True\<rparr>) o')
      else if c = CHR ''R'' then Returns o'
      else if c = CHR ''u'' then Returns (on_psocket (\<lambda>w. w\<lparr>bNoUdpChecksum := True\<rparr>) o')
      else if c = CHR ''n'' then Returns (on_psocket (\<lambda>w. w\<lparr>bNoTcpDelay := True\<rparr>) o')
      else if c = CHR ''S'' then Returns (o'\<lparr>o_seconds := atoi v\<rparr>)
      else Exits 1)"

fun gen_args :: "resolver \<Rightarrow> cstr list \<Rightarrow> gen_options \<Rightarrow> gen_options run" where
  "gen_args gai [] o' = Returns o'"
| "gen_args gai ([] # as) o' = Undefined"
| "gen_args gai ([c] # as) o' = Exits 1"
| "gen_args gai ((d # c # v) # as) o' = run_bind (gen_option gai c v o') (gen_args gai as)"

text \<open>The workers whose threads \<open>main\<close> starts: \<open>create i\<close> says if \<open>pthread_create\<close> works.\<close>

definition gen_main :: "resolver \<Rightarrow> (nat \<Rightarrow> bool) \<Rightarrow> cstr list \<Rightarrow> socket_worker list run" where
  "gen_main gai create argv =
     run_bind (gen_args gai (tl argv) gen_options0) (\<lambda>o'.
       if \<not> list_all (\<lambda>w. list_all known_family (vLocalIP w)) (vSockets o') then Aborts
       else if \<not> list_all create [0..<length (vSockets o')] then Aborts
       else Returns (vSockets o'))"


section \<open>Workers\<close>

text \<open>
  What the calls of one worker return: \<open>sk_send k\<close> and \<open>sk_recv k\<close> is the result of call \<open>k\<close>,
  \<open>sk_clock\<close> the microseconds at the start, after each of these calls and at the end.
\<close>

record sock_sys =
  sk_new :: "int \<Rightarrow> bool"
  sk_socket :: int
  sk_reuse :: int
  sk_bind :: "ip_address \<Rightarrow> int"
  sk_connect :: "ip_address \<Rightarrow> int"
  sk_listen :: int
  sk_nodelay :: int
  sk_accept :: int
  sk_peer :: ip_address
  sk_send :: "nat \<Rightarrow> int"
  sk_recv :: "nat \<Rightarrow> int"
  sk_clock :: "nat \<Rightarrow> u64"

definition mbps :: "u64 \<Rightarrow> u64 \<Rightarrow> u32 run" where
  "mbps bytes usecs =
     (if usecs = 0 then Undefined
      else let q = unat (bytes * 8) div unat usecs in
        if q < 2 ^ 32 then Returns (of_nat q) else Undefined)"

definition usecs_of :: "socket_worker \<Rightarrow> u64" where
  "usecs_of w = of_int (sw_seconds w) * 1000000"

definition gen_report :: "u64 \<Rightarrow> u64 \<Rightarrow> (u64 \<times> u32) run" where
  "gen_report tot usecs = run_bind (mbps tot usecs) (\<lambda>r. Returns (tot, r))"

definition sock_bind :: "sock_sys \<Rightarrow> ip_address \<Rightarrow> unit run" where
  "sock_bind S ip = run_bind (getsockaddrlen ip) (\<lambda>_. if 0 \<le> sk_bind S ip then Returns () else Aborts)"

definition sock_connect :: "sock_sys \<Rightarrow> ip_address \<Rightarrow> unit run" where
  "sock_connect S ip = run_bind (getsockaddrlen ip) (\<lambda>_. if sk_connect S ip = 0 then Returns () else Aborts)"

text \<open>The constructor of a socket only refuses the descriptor 0, and then \<open>ReuseAddress\<close>.\<close>

definition sock_open :: "sock_sys \<Rightarrow> unit run" where
  "sock_open S = (if sk_socket S = 0 then Aborts else if sk_reuse S \<noteq> 0 then Exits 1 else Returns ())"

definition sock_nodelay :: "sock_sys \<Rightarrow> socket_worker \<Rightarrow> unit run" where
  "sock_nodelay S w = (if bNoTcpDelay w \<and> sk_nodelay S \<noteq> 0 then Exits 1 else Returns ())"

definition sock_listen :: "sock_sys \<Rightarrow> unit run" where
  "sock_listen S = (if sk_listen S = 0 then Returns () else Aborts)"

definition sock_accept :: "sock_sys \<Rightarrow> unit run" where
  "sock_accept S = (if 0 < sk_accept S \<and> known_family (sk_peer S) then Returns () else Aborts)"

text \<open>The loops; None if they never end. The receiver also gives the number of its calls.\<close>

partial_function (option) tcp_send_loop ::
  "sock_sys \<Rightarrow> int \<Rightarrow> u64 \<Rightarrow> nat \<Rightarrow> u64 \<Rightarrow> u64 run option" where
  "tcp_send_loop S msg usecs k tot =
     (if sk_send S k < 0 then Some Aborts
      else if sk_clock S (Suc k) - sk_clock S 0 < usecs then tcp_send_loop S msg usecs (Suc k) (tot + of_int msg)
      else Some (Returns (tot + of_int msg)))"

partial_function (option) tcp_recv_loop :: "sock_sys \<Rightarrow> u64 \<Rightarrow> nat \<Rightarrow> u64 \<Rightarrow> (u64 \<times> nat) option" where
  "tcp_recv_loop S usecs k tot =
     (if (usecs = 0 \<or> sk_clock S (Suc k) - sk_clock S 0 < usecs) \<and> 0 < sk_recv S k
      then tcp_recv_loop S usecs (Suc k) (tot + of_int (sk_recv S k))
      else Some (tot + of_int (sk_recv S k), Suc k))"

declare tcp_send_loop.simps [simp del] tcp_recv_loop.simps [simp del]

definition new_buffer :: "sock_sys \<Rightarrow> socket_worker \<Rightarrow> int run" where
  "new_buffer S w =
     (case messageSize w of None \<Rightarrow> Undefined
      | Some m \<Rightarrow> if m < 0 \<or> \<not> sk_new S m then Aborts else Returns m)"

definition only_address :: "ip_address list \<Rightarrow> ip_address run" where
  "only_address ips = (case ips of [ip] \<Rightarrow> Returns ip | _ \<Rightarrow> Exits 1)"

text \<open>What happens before the first byte is sent or received: the size of a message.\<close>

definition sender_setup :: "sock_sys \<Rightarrow> socket_worker \<Rightarrow> int run" where
  "sender_setup S w =
     run_bind (new_buffer S w) (\<lambda>m.
     run_bind (only_address (vLocalIP w)) (\<lambda>localif.
     run_bind (getport localif) (\<lambda>_.
     run_bind (only_address (vDestIP w)) (\<lambda>pserver.
     run_bind (sock_open S) (\<lambda>_.
     run_bind (sock_bind S localif) (\<lambda>_.
     run_bind (sock_connect S pserver) (\<lambda>_.
     run_bind (sock_nodelay S w) (\<lambda>_. Returns m))))))))"

definition receiver_setup :: "resolver \<Rightarrow> sock_sys \<Rightarrow> socket_worker \<Rightarrow> int run" where
  "receiver_setup gai S w =
     run_bind (new_buffer S w) (\<lambda>m.
     run_bind (sock_open S) (\<lambda>_.
     run_bind (only_address (vLocalIP w)) (\<lambda>pserver.
     run_bind (sock_bind S pserver) (\<lambda>_.
     run_bind (sock_listen S) (\<lambda>_.
     run_bind (sock_nodelay S w) (\<lambda>_.
     run_bind (ip_construct gai None ''0'' AF_UNSPEC) (\<lambda>_.
     run_bind (sock_accept S) (\<lambda>_. Returns m))))))))"

primrec run_loop :: "'a run \<Rightarrow> ('a \<Rightarrow> 'b run option) \<Rightarrow> 'b run option" where
  "run_loop (Returns x) f = f x"
| "run_loop (Exits e) f = Some (Exits e)"
| "run_loop Aborts f = Some Aborts"
| "run_loop Undefined f = Some Undefined"

definition sender :: "sock_sys \<Rightarrow> socket_worker \<Rightarrow> (u64 \<times> u32) run option" where
  "sender S w =
     run_loop (sender_setup S w) (\<lambda>m.
       map_option (\<lambda>r. run_bind r (\<lambda>tot. gen_report tot (usecs_of w))) (tcp_send_loop S m (usecs_of w) 0 0))"

definition receiver :: "resolver \<Rightarrow> sock_sys \<Rightarrow> socket_worker \<Rightarrow> (u64 \<times> u32) run option" where
  "receiver gai S w =
     run_loop (receiver_setup gai S w) (\<lambda>_.
       map_option (\<lambda>(tot, n). gen_report tot (sk_clock S (Suc n) - sk_clock S 0)) (tcp_recv_loop S (usecs_of w) 0 0))"

text \<open>None of the values of a worker of neither type.\<close>

definition worker :: "resolver \<Rightarrow> sock_sys \<Rightarrow> socket_worker \<Rightarrow> (u64 \<times> u32) option run option" where
  "worker gai S w =
     (if \<not> list_all known_family (vLocalIP w) then Some Aborts
      else if txrxType w = 0 then map_option (\<lambda>r. run_bind r (\<lambda>x. Returns (Some x))) (sender S w)
      else if txrxType w = 1 then map_option (\<lambda>r. run_bind r (\<lambda>x. Returns (Some x))) (receiver gai S w)
      else Some (Returns None))"

primrec returned :: "'a run \<Rightarrow> bool" where
  "returned (Returns x) = True"
| "returned (Exits e) = False"
| "returned Aborts = False"
| "returned Undefined = False"

text \<open>The thread: \<open>S n\<close> is what turn \<open>n\<close> meets. It starts again if no time was given.\<close>

partial_function (option) socketWorkerThread ::
  "resolver \<Rightarrow> (nat \<Rightarrow> sock_sys) \<Rightarrow> socket_worker \<Rightarrow> nat \<Rightarrow> (u64 \<times> u32) option run option" where
  "socketWorkerThread gai S w n =
     Option.bind (worker gai (S n) w) (\<lambda>r.
       if returned r \<and> sw_seconds w = 0 then socketWorkerThread gai S w (Suc n) else Some r)"

declare socketWorkerThread.simps [simp del]



section \<open>Lemmas\<close>

lemma run_bind_Returns [simp]: "run_bind r f = Returns y \<longleftrightarrow> (\<exists>x. r = Returns x \<and> f x = Returns y)"
  by (cases r) auto

lemma run_loop_Returns [simp]: "run_loop r f = Some (Returns y) \<longleftrightarrow> (\<exists>x. r = Returns x \<and> f x = Some (Returns y))"
  by (cases r) auto

lemma split_at_one: "CHR ''@'' \<notin> set a \<Longrightarrow> a \<noteq> [] \<Longrightarrow> split_at CHR ''@'' a = [a]"
proof -
  assume "CHR ''@'' \<notin> set a" "a \<noteq> []"
  moreover from this have e: "takeWhile (\<lambda>c. c \<noteq> CHR ''@'') a = a" "dropWhile (\<lambda>c. c \<noteq> CHR ''@'') a = []"
    by (auto simp: dropWhile_eq_Nil_conv)
  ultimately show ?thesis unfolding split_at.simps [of _ a] e by (simp add: split_at.simps)
qed

lemma split_at_two:
  assumes "CHR ''@'' \<notin> set a" and "CHR ''@'' \<notin> set p" and "p \<noteq> []"
  shows "split_at CHR ''@'' (a @ ''@'' @ p) = [a, p]"
proof -
  have "takeWhile (\<lambda>c. c \<noteq> CHR ''@'') (a @ ''@'' @ p) = a" "dropWhile (\<lambda>c. c \<noteq> CHR ''@'') (a @ ''@'' @ p) = ''@'' @ p"
    using assms(1) by (induction a) auto
  then show ?thesis using split_at_one [OF assms(2,3)] by (subst split_at.simps) simp
qed

text \<open>The addresses that a worker is bound to are of a known family.\<close>

definition options_ok :: "gen_options \<Rightarrow> bool" where
  "options_ok o' \<longleftrightarrow>
     list_all (\<lambda>w. (txrxType w = 0 \<or> txrxType w = 1) \<and> list_all known_family (vLocalIP w)) (vSockets o')"

lemma options_ok_on_psocket:
  "options_ok o' \<Longrightarrow> (\<And>w. txrxType (f w) = txrxType w) \<Longrightarrow>
   (\<And>w. list_all known_family (vLocalIP w) \<Longrightarrow> list_all known_family (vLocalIP (f w))) \<Longrightarrow>
   options_ok (on_psocket f o')"
  by (cases "vSockets o'" rule: rev_cases) (auto simp: options_ok_def on_psocket_def)

lemma options_ok_gen_option:
  "options_ok o' \<Longrightarrow> gen_option gai c v o' = Returns o'' \<Longrightarrow> options_ok o''"
  unfolding gen_option_def local_option_def dest_option_def
  by (auto simp: getport_def push_worker_def new_socketWorker_def options_ok_on_psocket
      split: if_splits) (auto simp: options_ok_def)

lemma options_ok_gen_args: "gen_args gai as o' = Returns o'' \<Longrightarrow> options_ok o' \<Longrightarrow> options_ok o''"
  by (induction gai as o' rule: gen_args.induct) (auto dest: options_ok_gen_option)


text \<open>The program never gets to the threads with an address it cannot print.\<close>

lemma gen_main_local_known:
  assumes "gen_args gai (tl argv) gen_options0 = Returns o'" and "list_all create [0..<length (vSockets o')]"
  shows "gen_main gai create argv = Returns (vSockets o')"
proof -
  have "options_ok o'" using options_ok_gen_args [OF assms(1)] by (simp add: options_ok_def gen_options0_def)
  then show ?thesis using assms by (auto simp: gen_main_def options_ok_def list_all_iff)
qed

text \<open>The port is the number the text begins with, whatever the resolver made of it.\<close>

lemma ip_parse_port:
  assumes "CHR ''@'' \<notin> set a" and "CHR ''@'' \<notin> set p" and "p \<noteq> []"
    and "gai (Some a) p AF_UNSPEC = Some res" and "known_family res"
  shows "ip_parse gai (a @ ''@'' @ p) = Returns (res\<lparr>ip_port := of_int (atoi p)\<rparr>)"
  using assms split_at_two [OF assms(1-3)]
  by (simp add: ip_parse_def ip_construct_def setport_def getport_def known_family_def)

lemma tcp_send_loop_turns:
  assumes "\<forall>k. k0 < k \<and> k < n \<longrightarrow> sk_clock S k - sk_clock S 0 < usecs" and "\<not> sk_clock S n - sk_clock S 0 < usecs"
    and "\<forall>k<n. 0 \<le> sk_send S k" and "k0 < n"
  shows "tcp_send_loop S m usecs k0 tot = Some (Returns (tot + of_nat (n - k0) * of_int m))"
  using assms
proof (induction "n - k0" arbitrary: k0 tot)
  case (Suc d)
  show ?case
  proof (cases "Suc k0 = n")
    case False
    then have "tcp_send_loop S m usecs (Suc k0) (tot + of_int m) =
        Some (Returns (tot + of_int m + of_nat (n - Suc k0) * of_int m))"
      using Suc by auto
    moreover have "n - k0 = Suc (n - Suc k0)" using Suc.prems by simp
    ultimately show ?thesis
      using Suc.prems False by (subst tcp_send_loop.simps) (auto simp: algebra_simps not_less)
  qed (use Suc.prems in \<open>subst tcp_send_loop.simps, auto simp: not_less\<close>)
qed simp

lemma tcp_recv_loop_turns:
  assumes "usecs = 0 \<or> (\<forall>k. 0 < k \<and> k \<le> n \<longrightarrow> sk_clock S k - sk_clock S 0 < usecs)"
    and "\<forall>k<n. 0 < sk_recv S k" and "sk_recv S n = 0" and "k0 \<le> n"
  shows "tcp_recv_loop S usecs k0 tot = Some (tot + (\<Sum>k=k0..<n. of_int (sk_recv S k)), Suc n)"
  using assms(4)
proof (induction "n - k0" arbitrary: k0 tot)
  case 0
  then show ?case using assms(3) by (subst tcp_recv_loop.simps) simp
next
  case (Suc d)
  then have "tcp_recv_loop S usecs (Suc k0) (tot + of_int (sk_recv S k0)) =
      Some (tot + of_int (sk_recv S k0) + (\<Sum>k=Suc k0..<n. of_int (sk_recv S k)), Suc n)"
    by auto
  then show ?case
    using assms(1,2) Suc.hyps(2) Suc.prems
    by (subst tcp_recv_loop.simps) (auto simp: sum.atLeast_Suc_lessThan algebra_simps)
qed

text \<open>Without a number of seconds a thread only ends with the program.\<close>

lemma socketWorkerThread_again:
  assumes "sw_seconds w = 0"
  shows "socketWorkerThread gai S w n \<noteq> Some (Returns x)"
proof
  assume *: "socketWorkerThread gai S w n = Some (Returns x)"
  have "sw_seconds w = 0 \<longrightarrow> \<not> returned (Returns x :: (u64 \<times> u32) option run)"
    by (rule socketWorkerThread.raw_induct [where P="\<lambda>gai S w n r. sw_seconds w = 0 \<longrightarrow> \<not> returned r", OF _ *])
      (auto simp: bind_eq_Some_conv split: if_splits)
  then show False using assms by simp
qed


section \<open>Properties\<close>


text \<open>C29: Where the connection delivers all bytes that the calls of send accepted, the total of the
  sender exceeds the total of the receiver by exactly the bytes that the calls did not accept: the
  sender counts whole messages and not what was sent.\<close>

theorem stream_totals:
  assumes "sender S w = Some (Returns (sent, rate))" and "sender_setup S w = Returns m"
    and "0 < n" and "\<forall>k. 0 < k \<and> k < n \<longrightarrow> sk_clock S k - sk_clock S 0 < usecs_of w"
    and "\<not> sk_clock S n - sk_clock S 0 < usecs_of w" and "\<forall>k<n. 0 \<le> sk_send S k"
    and "receiver gai R v = Some (Returns (got, rate'))"
    and "usecs_of v = 0 \<or> (\<forall>k. 0 < k \<and> k \<le> n' \<longrightarrow> sk_clock R k - sk_clock R 0 < usecs_of v)"
    and "\<forall>k<n'. 0 < sk_recv R k" and "sk_recv R n' = 0"
    and "(\<Sum>k=0..<n'. sk_recv R k) = (\<Sum>k=0..<n. sk_send S k)"
  shows "sent = got + of_int (\<Sum>k=0..<n. m - sk_send S k)"
proof -
  have "sent = of_nat n * of_int m"
    using assms(1,2) tcp_send_loop_turns [of 0 n S "usecs_of w" m 0] assms(3-6) by (auto simp: sender_def gen_report_def)
  moreover have "got = of_int (\<Sum>k=0..<n'. sk_recv R k)"
    using assms(7) tcp_recv_loop_turns [OF assms(8-10), of 0 0] by (auto simp: receiver_def gen_report_def)
  ultimately show ?thesis using assms(11) by (simp add: sum_subtractf)
qed



section \<open>Witnesses\<close>

definition host1 :: ip_address where
  "host1 = \<lparr>ip_family = AF_INET, ip_bytes = [10, 0, 0, 1], ip_port = 0\<rparr>"


definition link_sock :: sock_sys where
  "link_sock = \<lparr>sk_new = (\<lambda>_. True), sk_socket = 3, sk_reuse = 0, sk_bind = (\<lambda>_. 0), sk_connect = (\<lambda>_. 0), sk_listen = 0,
     sk_nodelay = 0, sk_accept = 4, sk_peer = host1, sk_send = (\<lambda>k. if k = 0 then 100 else 60),
     sk_recv = (\<lambda>k. if k = 0 then 160 else 0), sk_clock = (\<lambda>k. of_nat k * 500000)\<rparr>"

definition link_worker :: "int \<Rightarrow> socket_worker" where
  "link_worker type = (new_socketWorker type (if type = 0 then 1 else 0) 8192)
     \<lparr>messageSize := Some 100, vLocalIP := [host1], vDestIP := [host1]\<rparr>"

lemmas link_simps = sender_setup_def receiver_setup_def new_buffer_def only_address_def getport_def sock_open_def
  sock_bind_def sock_connect_def sock_nodelay_def sock_listen_def sock_accept_def ip_construct_def getsockaddrlen_def
  usecs_of_def gen_report_def mbps_def link_worker_def new_socketWorker_def known_family_def host1_def link_sock_def

theorem stream_totals_witness:
  "sender link_sock (link_worker 0) = Some (Returns (200, 0)) \<and>
   receiver (\<lambda>_ _ _. None) link_sock (link_worker 1) = Some (Returns (160, 0)) \<and> (200 :: u64) = 160 + 40"
proof -
  have k: "k = 1" if "0 < k" "k < 2" for k :: nat using that by linarith
  have c: "\<forall>k. 0 < k \<and> k < 2 \<longrightarrow> sk_clock link_sock k - sk_clock link_sock 0 < 1000000"
    by (auto dest: k simp: link_sock_def)
  have s: "sender link_sock (link_worker 0) = Some (Returns (200, 0))"
    using tcp_send_loop_turns [of 0 2 link_sock "1000000" 100 0] c
    by (simp add: sender_def link_simps)
  have r: "receiver (\<lambda>_ _ _. None) link_sock (link_worker 1) = Some (Returns (160, 0))"
    using tcp_recv_loop_turns [of 0 1 link_sock 0 0]
    by (simp add: receiver_def link_simps)
  have "sender_setup link_sock (link_worker 0) = Returns 100"
    by (simp add: link_simps)
  then have "(200 :: u64) = 160 + of_int (\<Sum>k=0..<2. 100 - sk_send link_sock k)"
    using stream_totals [OF s _ _ _ _ _ r, of 100 2 1] c
    by (simp add: link_worker_def new_socketWorker_def usecs_of_def link_sock_def numeral_2_eq_2)
  then show ?thesis using s r by (simp add: link_sock_def numeral_2_eq_2)
qed

end
