(* ===== verification/Inet.thy ===== *)
theory Inet
  imports CLib Bytes
begin

text \<open>
  Addresses and structures in network byte order: fields of a structure kept as bytes, numbers
  with their most significant byte first, \<open>inet_pton\<close> and \<open>inet_ntop\<close> for addresses of version 4,
  addresses of an Ethernet card as \<open>sscanf\<close> reads them with \<open>%2x\<close>, and \<open>strtoll\<close>. Each way of
  printing is undone by its way of scanning.
\<close>

section \<open>Fields of a structure\<close>

definition put_field :: "nat \<Rightarrow> u8 list \<Rightarrow> (nat \<Rightarrow> u8) \<Rightarrow> nat \<Rightarrow> u8" where
  "put_field off bs p = (\<lambda>k. if off \<le> k \<and> k < off + length bs then bs ! (k - off) else p k)"

definition get_field :: "nat \<Rightarrow> nat \<Rightarrow> (nat \<Rightarrow> u8) \<Rightarrow> u8 list" where
  "get_field off n p = map (\<lambda>k. p (off + k)) [0..<n]"

lemma length_get_field [simp]: "length (get_field off n p) = n"
  by (simp add: get_field_def)

lemma get_put_field: "length bs = n \<Longrightarrow> get_field off n (put_field off bs p) = bs"
  by (auto simp: get_field_def put_field_def intro: nth_equalityI)

lemma get_put_other:
  "off + n \<le> off' \<or> off' + length bs \<le> off \<Longrightarrow> get_field off n (put_field off' bs p) = get_field off n p"
  by (auto simp: get_field_def put_field_def)

section \<open>Byte order\<close>

definition be_bytes :: "nat \<Rightarrow> int \<Rightarrow> u8 list" where
  "be_bytes n v = rev (le_bytes n v)"

definition le_value :: "u8 list \<Rightarrow> nat" where
  "le_value bs = (\<Sum>k<length bs. unat (bs ! k) * 2 ^ (8 * k))"

definition be_value :: "u8 list \<Rightarrow> nat" where
  "be_value bs = le_value (rev bs)"

text \<open>Numbers at an offset of a structure.\<close>

definition u32_at :: "(nat \<Rightarrow> u8) \<Rightarrow> nat \<Rightarrow> nat" where "u32_at p off = le_value (get_field off 4 p)"
definition be16_at :: "(nat \<Rightarrow> u8) \<Rightarrow> nat \<Rightarrow> nat" where "be16_at p off = be_value (get_field off 2 p)"
definition be32_at :: "(nat \<Rightarrow> u8) \<Rightarrow> nat \<Rightarrow> nat" where "be32_at p off = be_value (get_field off 4 p)"

lemma length_be_bytes [simp]: "length (be_bytes n v) = n"
  by (simp add: be_bytes_def)

lemma le_value_le_bytes: "int (le_value (le_bytes n v)) = v mod 2 ^ (8 * n)"
proof (induction n)
  case 0
  then show ?case by (simp add: le_value_def)
next
  case (Suc n)
  have "le_value (le_bytes (Suc n) v) = le_value (le_bytes n v) + unat (of_int (v div 2 ^ (8 * n)) :: u8) * 2 ^ (8 * n)"
    by (simp add: le_value_def le_bytes_def nth_append)
  then have "int (le_value (le_bytes (Suc n) v)) = v mod 2 ^ (8 * n) + (v div 2 ^ (8 * n)) mod 256 * 2 ^ (8 * n)"
    using Suc by (simp add: unsigned_of_int take_bit_eq_mod)
  also have "\<dots> = v mod (2 ^ (8 * n) * 256)"
    using zmod_zmult2_eq [of 256 v "2 ^ (8 * n)"] by simp
  also have "2 ^ (8 * n) * 256 = (2 :: int) ^ (8 * Suc n)" by (simp add: power_add)
  finally show ?case .
qed

lemma be_value_be_bytes: "int (be_value (be_bytes n v)) = v mod 2 ^ (8 * n)"
  by (simp add: be_value_def be_bytes_def le_value_le_bytes)

lemma get_field_zero: "get_field off n (\<lambda>_. 0) = replicate n 0"
  by (simp add: get_field_def map_replicate_const)

lemma get_field_take: "n \<le> m \<Longrightarrow> get_field off n p = take n (get_field off m p)"
  by (simp add: get_field_def take_map)

lemma get_field_drop: "i \<le> m \<Longrightarrow> get_field (off + i) (m - i) p = drop i (get_field off m p)"
  by (rule nth_equalityI) (auto simp: get_field_def add.assoc)

lemma take_le_bytes: "m \<le> n \<Longrightarrow> take m (le_bytes n v) = le_bytes m v"
  by (simp add: le_bytes_def take_map)

lemma drop_be_bytes: "drop m (be_bytes n v) = be_bytes (n - m) v"
  by (cases "m \<le> n") (simp_all add: be_bytes_def drop_rev take_le_bytes, simp add: le_bytes_def)

lemma be_value_bytes: "be_value (be_bytes n v) = nat (v mod 2 ^ (8 * n))"
  using be_value_be_bytes [of n v] by linarith

lemma le_value_bytes: "le_value (le_bytes n v) = nat (v mod 2 ^ (8 * n))"
  using le_value_le_bytes [of n v] by linarith

lemma uint_mod_length: "uint (w :: 'a::len word) mod 2 ^ LENGTH('a) = uint w"
  using uint_lt2p [of w] by (simp add: mod_pos_pos_trivial)

lemma word_bytes_value:
  fixes w :: "'a::len word"
  assumes "LENGTH('a) = 8 * n"
  shows "le_value (le_bytes n (uint w)) = unat w" and "be_value (be_bytes n (uint w)) = unat w"
  using uint_mod_length [of w] by (simp_all add: le_value_bytes be_value_bytes assms nat_uint_eq)

lemma unat_mod_32: "nat (uint w mod 4294967296) = unat w mod 4294967296"
  by (simp add: nat_mod_distrib nat_uint_eq)

lemma be_value_zeros: "be_value (replicate n 0) = 0"
  by (simp add: be_value_def le_value_def)

lemma be_value_ones: "be_value (replicate 2 (- 1)) = 65535"
proof -
  have "(- 1 :: u8) = 255" by simp
  then have "unat (- 1 :: u8) = 255" by (simp only:) simp
  then have "be_value (replicate (Suc (Suc 0)) (- 1)) = 65535" by (simp add: be_value_def le_value_def)
  then show ?thesis by (simp add: numeral_2_eq_2)
qed

lemma le_value_Cons: "le_value (b # bs) = unat b + 256 * le_value bs"
  by (simp add: le_value_def sum.lessThan_Suc_shift sum_distrib_left power_add mult_ac del: sum.lessThan_Suc)

lemma le_value_append: "le_value (xs @ ys) = le_value xs + le_value ys * 2 ^ (8 * length xs)"
  by (induction xs) (simp_all add: le_value_Cons le_value_def [of "[]"] power_add algebra_simps)

lemma be_value_append: "be_value (xs @ ys) = be_value xs * 2 ^ (8 * length ys) + be_value ys"
  by (simp add: be_value_def le_value_append)

lemma get_field_append: "get_field off (m + n) p = get_field off m p @ get_field (off + m) n p"
  by (rule nth_equalityI) (auto simp: get_field_def nth_append)

lemma le_value_less: "le_value bs < 2 ^ (8 * length bs)"
proof (induction bs)
  case (Cons b bs)
  then show ?case using unat_mod_le [of b] by (simp add: le_value_Cons power_add)
qed (simp add: le_value_def)

lemma be_value_less: "be_value bs < 2 ^ (8 * length bs)"
  using le_value_less [of "rev bs"] by (simp add: be_value_def)

lemma unat_not_byte: "unat (NOT b :: u8) + unat b = 255"
proof -
  have "NOT b = - 1 - b" by (simp add: not_eq_complement)
  moreover have "unat (- 1 - b) = unat (- 1 :: u8) - unat b" by (rule unat_sub) simp
  moreover have "(- 1 :: u8) = 255" by simp
  then have "unat (- 1 :: u8) = 255" by (simp only:) simp
  ultimately show ?thesis using unat_mod_le [of b] by simp
qed

lemma le_value_not: "le_value (map (\<lambda>b. NOT b) bs) + le_value bs + 1 = 2 ^ (8 * length bs)"
proof (induction bs)
  case (Cons b bs)
  then have "256 * (le_value (map (\<lambda>b. NOT b) bs) + le_value bs + 1) = 256 * 2 ^ (8 * length bs)" by simp
  then show ?case using unat_not_byte [of b] by (simp add: le_value_Cons power_add)
qed (simp add: le_value_def)

lemma be_value_not: "be_value (map (\<lambda>b. NOT b) bs) + be_value bs + 1 = 2 ^ (8 * length bs)"
  using le_value_not [of "rev bs"] by (simp add: be_value_def rev_map)

lemma of_nat_be_not:
  assumes "LENGTH('a) = 8 * length bs"
  shows "(of_nat (be_value (map (\<lambda>b. NOT b) bs)) :: 'a::len word) = NOT (of_nat (be_value bs))"
proof -
  define x where "x = be_value (map (\<lambda>b. NOT b) bs)"
  have "of_nat (x + be_value bs + 1) = (0 :: 'a word)"
    unfolding x_def be_value_not by (simp flip: assms)
  then show ?thesis unfolding x_def [symmetric] by (simp add: not_eq_complement eq_neg_iff_add_eq_0 algebra_simps)
qed

lemma sint_uint_32: "sint (l :: u32) = to_int32 (uint l)"
  by (simp add: sint_uint to_int32_def signed_take_bit_eq_take_bit_shift take_bit_eq_mod)


section \<open>Addresses of version 4\<close>

definition inet_ntop4 :: "u8 list \<Rightarrow> cstr" where
  "inet_ntop4 bs =
     fmt_u (unat (bs ! 0)) @ ''.'' @ fmt_u (unat (bs ! 1)) @ ''.'' @ fmt_u (unat (bs ! 2)) @ ''.'' @ fmt_u (unat (bs ! 3))"

text \<open>The numbers that are complete and the one that is being read.\<close>

fun pton4_loop :: "cstr \<Rightarrow> nat list \<Rightarrow> nat option \<Rightarrow> nat list option" where
  "pton4_loop [] ds cur =
     (case cur of Some n \<Rightarrow> if length ds = 3 then Some (ds @ [n]) else None | None \<Rightarrow> None)"
| "pton4_loop (c # s) ds cur =
     (if isdigit c
      then (case cur of
              None \<Rightarrow> pton4_loop s ds (Some (digit_val c))
            | Some n \<Rightarrow> if n = 0 \<or> 255 < n * 10 + digit_val c then None
                        else pton4_loop s ds (Some (n * 10 + digit_val c)))
      else if c = CHR ''.''
      then (case cur of
              Some n \<Rightarrow> if length ds = 3 then None else pton4_loop s (ds @ [n]) None
            | None \<Rightarrow> None)
      else None)"

definition inet_pton4 :: "cstr \<Rightarrow> u8 list option" where
  "inet_pton4 s = map_option (map of_nat) (pton4_loop s [] None)"

lemma pton4_loop_length: "pton4_loop s ds cur = Some ns \<Longrightarrow> length ns = 4"
  by (induction s ds cur rule: pton4_loop.induct) (auto split: if_splits option.splits)

lemma inet_pton4_length: "inet_pton4 s = Some bs \<Longrightarrow> length bs = 4"
  using pton4_loop_length by (auto simp: inet_pton4_def)

lemma digit_char_isdigit: "d < 10 \<Longrightarrow> isdigit (digit_char d)"
  using of_char_digit_char [of d] by (simp add: isdigit_def)

lemma fmt_u_cases:
  "n < 10 \<Longrightarrow> fmt_u n = [digit_char n]"
  "10 \<le> n \<Longrightarrow> n < 100 \<Longrightarrow> fmt_u n = [digit_char (n div 10), digit_char (n mod 10)]"
  "100 \<le> n \<Longrightarrow> n < 1000 \<Longrightarrow> fmt_u n = [digit_char (n div 100), digit_char (n div 10 mod 10), digit_char (n mod 10)]"
proof -
  show "n < 10 \<Longrightarrow> fmt_u n = [digit_char n]"
    by (simp add: fmt_u_def fmt_base_def digits_of.simps)
  show "10 \<le> n \<Longrightarrow> n < 100 \<Longrightarrow> fmt_u n = [digit_char (n div 10), digit_char (n mod 10)]"
    by (simp add: fmt_u_def fmt_base_def digits_of.simps [of 10 n] digits_of.simps [of 10 "n div 10"] div_less_iff_less_mult)
  assume n: "100 \<le> n" "n < 1000"
  then have "\<not> n < 10" "\<not> n div 10 < 10" "n div 10 div 10 < 10" "n div 10 div 10 = n div 100"
    by (simp_all add: div_less_iff_less_mult not_less le_div_geq div_mult2_eq [symmetric] less_eq_div_iff_mult_less_eq)
  then show "fmt_u n = [digit_char (n div 100), digit_char (n div 10 mod 10), digit_char (n mod 10)]"
    by (simp add: fmt_u_def fmt_base_def digits_of.simps [of 10 n] digits_of.simps [of 10 "n div 10"]
        digits_of.simps [of 10 "n div 100"])
qed

lemma pton4_number:
  assumes "n < 256"
  shows "pton4_loop (fmt_u n @ r) ds None = pton4_loop r ds (Some n)"
proof -
  have d: "isdigit (digit_char d)" "digit_val (digit_char d) = d" if "d < 10" for d
    using that by (simp_all add: digit_char_isdigit)
  consider "n < 10" | "10 \<le> n" "n < 100" | "100 \<le> n" "n < 1000" using assms by linarith
  then show ?thesis
  proof cases
    case 3
    have "n div 100 < 10" "n div 10 mod 10 < 10" "n mod 10 < 10" using 3 by (auto simp: div_less_iff_less_mult)
    moreover have "n div 100 * 10 + n div 10 mod 10 = n div 10"
      using div_mult_mod_eq [of "n div 10" 10] by (simp add: div_mult2_eq [symmetric])
    moreover have "n div 10 \<noteq> 0" "n div 100 \<noteq> 0" "n div 10 \<le> 255" using 3 assms by auto
    ultimately show ?thesis using 3 assms by (simp add: fmt_u_cases d)
  next
    case 2
    then have "n div 10 \<noteq> 0" "n div 10 < 10" by auto
    then show ?thesis using 2 assms by (simp add: fmt_u_cases d)
  qed (use assms in \<open>simp add: fmt_u_cases d\<close>)
qed

lemma inet_pton4_ntop4:
  assumes "length bs = 4"
  shows "inet_pton4 (inet_ntop4 bs) = Some bs"
proof -
  obtain a b c d where bs: "bs = [a, b, c, d]" using assms by (auto simp: eval_nat_numeral length_Suc_conv)
  have lt: "unat x < 256" for x :: u8 using unat_mod_le [of x] by simp
  have dot: "\<not> isdigit CHR ''.''" by (simp add: isdigit_def)
  have e: "pton4_loop (fmt_u (unat x) @ r) ds None = pton4_loop r ds (Some (unat x))" for x :: u8 and r ds
    using lt by (rule pton4_number)
  have e0: "pton4_loop (fmt_u (unat x)) ds None = pton4_loop [] ds (Some (unat x))" for x :: u8 and ds
    using e [of x "[]"] by simp
  show ?thesis by (simp add: bs inet_ntop4_def inet_pton4_def e e0 dot)
qed

section \<open>Addresses of a card\<close>

text \<open>
  \<open>%2x\<close>: white space, then at most two characters: a sign, a prefix \<open>0x\<close> and digits. The value
  and the rest; None without a digit.
\<close>

definition scan_2x :: "cstr \<Rightarrow> (u32 \<times> cstr) option" where
  "scan_2x s0 =
     (let s = dropWhile isspace s0;
          (neg, s1) = scan_sign s;
          w = 2 - (length s - length s1);
          (zero, s2, w2) =
            (if s1 \<noteq> [] \<and> hd s1 = CHR ''0''
             then if 2 \<le> w \<and> 2 \<le> length s1 \<and> (s1 ! 1 = CHR ''x'' \<or> s1 ! 1 = CHR ''X'')
                  then (True, drop 2 s1, w - 2) else (True, drop 1 s1, w - 1)
             else (False, s1, w));
          ds = takeWhile isxdigit (take w2 s2);
          v = of_nat (digits_value 16 (map digit_val ds))
      in if ds = [] \<and> \<not> zero then None else Some (if neg then - v else v, drop (length ds) s2))"

fun scan_mac :: "nat \<Rightarrow> cstr \<Rightarrow> u32 list" where
  "scan_mac 0 s = []"
| "scan_mac (Suc n) s =
     (case scan_2x s of None \<Rightarrow> []
      | Some (v, r) \<Rightarrow> v # (case r of c # r' \<Rightarrow> if c = CHR '':'' then scan_mac n r' else [] | [] \<Rightarrow> []))"

definition mac_colons :: "u8 list \<Rightarrow> cstr" where
  "mac_colons bs = concat (map (\<lambda>k. (if k = 0 then [] else '':'') @ fmt_X 2 (unat (bs ! k))) [0..<length bs])"

section \<open>strtoll\<close>

text \<open>The value, the rest and the range error.\<close>

definition strtoll :: "nat \<Rightarrow> cstr \<Rightarrow> int \<times> cstr \<times> bool" where
  "strtoll base s =
     (case scan_number base s of None \<Rightarrow> (0, s, False)
      | Some (neg, v, r) \<Rightarrow>
          if neg then if 2 ^ 63 < v then (- (2 ^ 63), r, True) else (- int v, r, False)
          else if 2 ^ 63 - 1 < v then (2 ^ 63 - 1, r, True) else (int v, r, False))"


section \<open>Scanning what was printed\<close>

definition hex_upper :: "nat \<Rightarrow> char" where
  "hex_upper d = toupper_hex (digit_char d)"

lemma hex_upper_nth:
  assumes "d < 16"
  shows "hex_upper d = ''0123456789ABCDEF'' ! d"
proof -
  have "map hex_upper [0..<16] = ''0123456789ABCDEF''" by code_simp
  then show ?thesis using assms by (metis add_0 diff_zero length_upt nth_map nth_upt)
qed

lemma hex_digits_facts:
  "list_all (\<lambda>(c, d). isxdigit c \<and> digit_val c = d) (zip ''0123456789ABCDEF'' [0..<16])"
  "list_all (\<lambda>(c, d). \<not> isspace c) (zip ''0123456789ABCDEF'' [0..<16])"
  "list_all (\<lambda>(c, d). c \<noteq> CHR ''x'' \<and> c \<noteq> CHR ''X'' \<and> c \<noteq> CHR ''-'' \<and> c \<noteq> CHR ''+'' \<and> (c = CHR ''0'' \<longleftrightarrow> d = (0 :: nat)))
     (zip ''0123456789ABCDEF'' [0..<16])"
  by code_simp+

lemma hex_upper_facts:
  assumes "d < 16"
  shows "isxdigit (hex_upper d)" "digit_val (hex_upper d) = d" "\<not> isspace (hex_upper d)"
    "hex_upper d \<noteq> CHR ''x''" "hex_upper d \<noteq> CHR ''X''" "hex_upper d \<noteq> CHR ''-''" "hex_upper d \<noteq> CHR ''+''"
    "hex_upper d = CHR ''0'' \<longleftrightarrow> d = 0"
proof -
  have m: "(hex_upper d, d) \<in> set (zip ''0123456789ABCDEF'' [0..<16])"
    using assms by (auto simp: set_zip hex_upper_nth intro!: exI [of _ d])
  note all = list_all_iff [THEN iffD1, THEN bspec]
  show "isxdigit (hex_upper d)" "digit_val (hex_upper d) = d" "\<not> isspace (hex_upper d)"
    "hex_upper d \<noteq> CHR ''x''" "hex_upper d \<noteq> CHR ''X''" "hex_upper d \<noteq> CHR ''-''" "hex_upper d \<noteq> CHR ''+''"
    "hex_upper d = CHR ''0'' \<longleftrightarrow> d = 0"
    using all [OF hex_digits_facts(1) m] all [OF hex_digits_facts(2) m] all [OF hex_digits_facts(3) m]
    unfolding prod.case by blast+
qed

lemma fmt_X_2:
  assumes "n < 256"
  shows "fmt_X 2 n = [hex_upper (n div 16), hex_upper (n mod 16)]"
proof -
  have "digit_char 0 = CHR ''0''" by (simp add: digit_char_nth)
  moreover have "n div 16 < 16" using assms by (simp add: div_less_iff_less_mult)
  ultimately show ?thesis
    by (cases "n < 16") (simp_all add: fmt_X_def fmt_0x_def pad0_def fmt_base_def digits_of.simps [of 16 n]
        digits_of.simps [of 16 "n div 16"] hex_upper_def)
qed

lemma scan_2x_digits:
  assumes "a = hex_upper m" and "b = hex_upper n" and "m < 16" and "n < 16"
  shows "scan_2x (a # b # r) = Some (of_nat (m * 16 + n), r)"
  using hex_upper_facts [OF assms(3)] hex_upper_facts [OF assms(4)]
  unfolding assms(1,2) [symmetric]
  by (simp add: scan_2x_def scan_sign_def digits_value_def Let_def)

lemma scan_2x_fmt_X: "n < 256 \<Longrightarrow> scan_2x (fmt_X 2 n @ r) = Some (of_nat n, r)"
  using scan_2x_digits [OF refl refl, of "n div 16" "n mod 16" r]
  by (simp add: fmt_X_2 div_less_iff_less_mult del: of_nat_add)

lemma scan_mac_colons:
  assumes "length bs = 6"
  shows "scan_mac 6 (mac_colons bs) = map ucast bs"
proof -
  obtain a b c d e f where bs: "bs = [a, b, c, d, e, f]" using assms by (auto simp: eval_nat_numeral length_Suc_conv)
  have s: "scan_2x (fmt_X 2 (unat x) @ r) = Some (ucast x, r)" for x :: u8 and r
    using scan_2x_fmt_X [of "unat x" r] unat_mod_le [of x] by simp
  have s0: "scan_2x (fmt_X 2 (unat x)) = Some (ucast x, [])" for x :: u8 using s [of x "[]"] by simp
  have "[0..<length bs] = [0, 1, 2, 3, 4, 5]" by (simp add: bs upt_rec)
  then have "mac_colons bs = fmt_X 2 (unat a) @ '':'' @ fmt_X 2 (unat b) @ '':'' @ fmt_X 2 (unat c) @ '':'' @
      fmt_X 2 (unat d) @ '':'' @ fmt_X 2 (unat e) @ '':'' @ fmt_X 2 (unat f)"
    by (simp add: mac_colons_def bs)
  moreover have "scan_mac 6 t = scan_mac (Suc (Suc (Suc (Suc (Suc (Suc 0)))))) t" for t by (simp add: eval_nat_numeral)
  ultimately show ?thesis by (simp add: bs s s0)
qed

end
