(* ===== verification/RuleManager.thy ===== *)
theory RuleManager
  imports CLib
begin

text \<open>
  The rule manager of ethtool (\<open>src/ethernet_test/ethtool/rxclass.c\<close>) over the bitmaps of
  \<open>internal.h\<close>: it asks the driver which locations of the table of receive rules are in use and
  picks one for a new rule. The bitmap is a list of words, and None is an access outside it. The
  locale \<open>bitset\<close> is the interface of a bitmap. What the driver answers is an argument.
\<close>

unbundle bit_operations_syntax

section \<open>Bitmaps\<close>

definition BITS_TO_LONGS :: "u32 \<Rightarrow> u32" where
  "BITS_TO_LONGS nr = (nr + 32 - 1) div 32"

definition set_bit_at :: "u32 \<Rightarrow> ul list \<Rightarrow> ul list option" where
  "set_bit_at nr addr =
     (let i = unat (nr div 32) in
      if i < length addr then Some (addr[i := addr ! i OR push_bit (unat (nr mod 32)) 1]) else None)"

definition clear_bit_at :: "u32 \<Rightarrow> ul list \<Rightarrow> ul list option" where
  "clear_bit_at nr addr =
     (let i = unat (nr div 32) in
      if i < length addr then Some (addr[i := addr ! i AND NOT (push_bit (unat (nr mod 32)) 1)]) else None)"

definition test_bit_at :: "u32 \<Rightarrow> ul list \<Rightarrow> bool option" where
  "test_bit_at nr addr =
     (let i = unat (nr div 32) in
      if i < length addr then Some (push_bit (unat (nr mod 32)) 1 AND addr ! i \<noteq> 0) else None)"

section \<open>The rule manager\<close>

record rmgr_ctrl =
  driver_select :: bool
  rm_slot :: "ul list"
  n_rules :: u32
  rm_size :: u32

definition rmgr0 :: rmgr_ctrl where
  "rmgr0 = \<lparr>driver_select = False, rm_slot = [], n_rules = 0, rm_size = 0\<rparr>"

definition rmgr_ins :: "rmgr_ctrl \<Rightarrow> u32 \<Rightarrow> (int \<times> rmgr_ctrl) option" where
  "rmgr_ins rmgr loc =
     (if rm_size rmgr \<le> loc then Some (- 1, rmgr)
      else map_option (\<lambda>s. (0, rmgr\<lparr>rm_slot := s\<rparr>)) (set_bit_at loc (rm_slot rmgr)))"

text \<open>
  The loop over full words. The last argument is the number of the word plus 1, so that 0 stands
  for the number after it went below 0.
\<close>

fun skip_full :: "u32 \<Rightarrow> ul list \<Rightarrow> u32 \<Rightarrow> nat \<Rightarrow> u32 option" where
  "skip_full sz slot loc 0 = (if loc < sz then None else Some loc)"
| "skip_full sz slot loc (Suc slot_num) =
     (if loc < sz
      then if slot_num < length slot
           then if NOT (slot ! slot_num) = 0 then skip_full sz slot (loc - 32) slot_num else Some loc
           else None
      else Some loc)"

text \<open>The loop over single bits.\<close>

function last_clear :: "u32 \<Rightarrow> ul list \<Rightarrow> u32 \<Rightarrow> u32 option" where
  "last_clear sz slot loc =
     (if loc < sz
      then case test_bit_at loc slot of None \<Rightarrow> None
           | Some b \<Rightarrow> if b then last_clear sz slot (loc - 1) else Some loc
      else Some loc)"
  by pat_completeness auto

termination
proof (relation "measure (\<lambda>(sz, slot, loc). if loc < sz then Suc (unat loc) else 0)")
  fix sz :: u32 and slot :: "ul list" and loc :: u32
  assume l: "loc < sz"
  have "\<not> (- 1 :: u32) < sz" by (metis word_not_simps(3))
  then have "unat (loc - 1) < unat loc \<or> \<not> loc - 1 < sz"
    using l by (cases "loc = 0") (simp_all add: unat_minus_one unat_gt_0)
  then show "((sz, slot, loc - 1), sz, slot, loc) \<in> measure (\<lambda>(sz, slot, loc). if loc < sz then Suc (unat loc) else 0)"
    using l by auto
qed simp

declare last_clear.simps [simp del]

text \<open>The result, the manager and the location of the rule.\<close>

definition last_word_full :: "rmgr_ctrl \<Rightarrow> nat \<Rightarrow> bool option" where
  "last_word_full rmgr slot_num =
     (if slot_num < length (rm_slot rmgr)
      then Some (NOT (rm_slot rmgr ! slot_num OR push_bit (unat (rm_size rmgr mod 32)) (NOT 1)) = 0)
      else None)"

definition rmgr_find_empty_slot :: "rmgr_ctrl \<Rightarrow> u32 \<Rightarrow> (int \<times> rmgr_ctrl \<times> u32) option" where
  "rmgr_find_empty_slot rmgr location =
     (if driver_select rmgr then Some (0, rmgr, location)
      else
        let sz = rm_size rmgr; loc = sz - 1; slot_num = unat (loc div 32) in
        case last_word_full rmgr slot_num of None \<Rightarrow> None
        | Some full \<Rightarrow>
            let (loc, k) = (if full then (loc - (1 + loc mod 32), slot_num) else (loc, Suc slot_num)) in
            case skip_full sz (rm_slot rmgr) loc k of None \<Rightarrow> None
            | Some loc \<Rightarrow>
                case last_clear sz (rm_slot rmgr) loc of None \<Rightarrow> None
                | Some loc \<Rightarrow>
                    if loc < sz then map_option (\<lambda>(err, r). (err, r, loc)) (rmgr_ins rmgr loc)
                    else Some (- 1, rmgr, location))"

section \<open>What the driver answers\<close>

text \<open>
  The requests for the number of rules (the number and the value of \<open>data\<close>), for their locations
  (\<open>data\<close> and the locations), and if memory can be had. None is a failed \<open>ioctl\<close>.
\<close>

definition RX_CLS_LOC_SPECIAL :: u32 where "RX_CLS_LOC_SPECIAL = 0x80000000"
definition RX_CLS_LOC_ANY :: u32 where "RX_CLS_LOC_ANY = 0xFFFFFFFF"

record rx_driver =
  rx_count :: "(u32 \<times> u64) option"
  rx_locs :: "u32 \<Rightarrow> (u64 \<times> u32 list) option"
  rx_calloc :: "u32 \<Rightarrow> bool"

text \<open>The array of locations has as many entries as rules were counted and is 0 where the driver wrote nothing.\<close>

definition rule_locs :: "u32 \<Rightarrow> u32 list \<Rightarrow> u32 list" where
  "rule_locs n locs = take (unat n) (locs @ replicate (unat n) 0)"

fun rmgr_ins_all :: "u32 list \<Rightarrow> rmgr_ctrl \<Rightarrow> (int \<times> rmgr_ctrl) option" where
  "rmgr_ins_all [] rmgr = Some (0, rmgr)"
| "rmgr_ins_all (l # ls) rmgr =
     (case rmgr_ins rmgr l of None \<Rightarrow> None
      | Some (err, r) \<Rightarrow> if err < 0 then Some (err, r) else rmgr_ins_all ls r)"

definition rmgr_init :: "rx_driver \<Rightarrow> (int \<times> rmgr_ctrl) option" where
  "rmgr_init D =
     (case rx_count D of None \<Rightarrow> Some (- 1, rmgr0)
      | Some (count, data) \<Rightarrow>
          let rmgr = rmgr0\<lparr>n_rules := count, driver_select := (data AND ucast RX_CLS_LOC_SPECIAL \<noteq> 0)\<rparr> in
          if driver_select rmgr then Some (0, rmgr)
          else if \<not> rx_calloc D (192 + count * 4) then Some (- 1, rmgr)
          else case rx_locs D count of None \<Rightarrow> Some (- 1, rmgr)
          | Some (data', locs) \<Rightarrow>
              let rmgr = rmgr\<lparr>rm_size := ucast data'\<rparr> in
              if rm_size rmgr = 0 \<or> rm_size rmgr < n_rules rmgr then Some (- 1, rmgr)
              else let words = unat (BITS_TO_LONGS (rm_size rmgr)) in
                if \<not> rx_calloc D (of_nat words * 4) then Some (- 1, rmgr)
                else rmgr_ins_all (rule_locs count locs) (rmgr\<lparr>rm_slot := replicate words 0\<rparr>))"

text \<open>The result and the location of the rule.\<close>

definition rmgr_set_location :: "rx_driver \<Rightarrow> u32 \<Rightarrow> (int \<times> u32) option" where
  "rmgr_set_location D location =
     (case rmgr_init D of None \<Rightarrow> None
      | Some (err, rmgr) \<Rightarrow>
          if err < 0 then Some (err, location)
          else map_option (\<lambda>(err, r, loc). (err, loc)) (rmgr_find_empty_slot rmgr location))"

text \<open>
  Inserting a rule: \<open>ins loc\<close> is what the driver makes of the location sent to it, None if it
  refuses the rule. The value is the result, the output and the location sent, if one was.
\<close>

definition rxclass_rule_ins :: "rx_driver \<Rightarrow> (u32 \<Rightarrow> u32 option) \<Rightarrow> u32 \<Rightarrow> (int \<times> cstr \<times> u32 option) option" where
  "rxclass_rule_ins D ins loc =
     (let special = loc AND RX_CLS_LOC_SPECIAL \<noteq> 0 in
      case (if special then rmgr_set_location D loc else Some (0, loc)) of None \<Rightarrow> None
      | Some (err, l) \<Rightarrow>
          if err < 0 then Some (err, [], None)
          else Some (0,
            case ins l of None \<Rightarrow> []
            | Some l' \<Rightarrow> if special then ''Added rule with ID '' @ fmt_d (sint l') @ nl else [],
            Some l))"



section \<open>A bitmap is a set\<close>

text \<open>The interface of a bitmap: testing after setting and clearing, at indices there is room for.\<close>

locale bitset =
  fixes tst :: "'i \<Rightarrow> 's \<Rightarrow> bool option"
    and st :: "'i \<Rightarrow> 's \<Rightarrow> 's option"
    and cl :: "'i \<Rightarrow> 's \<Rightarrow> 's option"
  assumes st_room: "st i s = None \<longleftrightarrow> tst i s = None"
    and cl_room: "cl i s = None \<longleftrightarrow> tst i s = None"
    and tst_st: "st i s = Some t \<Longrightarrow> tst j t = (if j = i then Some True else tst j s)"
    and tst_cl: "cl i s = Some t \<Longrightarrow> tst j t = (if j = i then Some False else tst j s)"
begin

definition elems :: "'s \<Rightarrow> 'i set" where
  "elems s = {i. tst i s = Some True}"

lemma elems_st: "st i s = Some t \<Longrightarrow> elems t = insert i (elems s)"
  by (auto simp: elems_def tst_st)

lemma elems_cl: "cl i s = Some t \<Longrightarrow> elems t = elems s - {i}"
  by (auto simp: elems_def tst_cl)

lemma room_st: "st i s = Some t \<Longrightarrow> tst j t = None \<longleftrightarrow> tst j s = None"
  using st_room [of i s] by (auto simp: tst_st)

lemma st_Some: "tst i s \<noteq> None \<Longrightarrow> \<exists>t. st i s = Some t"
  using st_room [of i s] by (cases "st i s") auto

end

lemma test_bit_at_bit:
  "test_bit_at nr addr =
     (if unat nr div 32 < length addr then Some (bit (addr ! (unat nr div 32)) (unat nr mod 32)) else None)"
proof -
  have "(push_bit n 1 AND w \<noteq> 0) = bit w n" for n and w :: ul
    by (metis and_exp_eq_0_iff_not_bit and.commute push_bit_of_1)
  then show ?thesis by (simp add: test_bit_at_def Let_def unat_div unat_mod)
qed

lemma bits_of_index: "(i :: u32) = j \<longleftrightarrow> unat i div 32 = unat j div 32 \<and> unat i mod 32 = unat j mod 32"
  by (metis div_mult_mod_eq word_unat_eq_iff)

lemma bit_at_update:
  "set_bit_at i s = Some t \<Longrightarrow> test_bit_at j t = (if j = i then Some True else test_bit_at j s)"
  "clear_bit_at i s = Some t \<Longrightarrow> test_bit_at j t = (if j = i then Some False else test_bit_at j s)"
  using bits_of_index [of j i]
  by (auto simp: set_bit_at_def clear_bit_at_def test_bit_at_bit unat_div unat_mod Let_def nth_list_update
      bit_or_iff bit_and_iff bit_not_iff bit_exp_iff split: if_splits)

interpretation bm32: bitset test_bit_at set_bit_at clear_bit_at
  by unfold_locales
    (auto simp: bit_at_update, auto simp: set_bit_at_def clear_bit_at_def test_bit_at_bit unat_div Let_def)


section \<open>The locations in use\<close>

definition slot_used :: "ul list \<Rightarrow> nat \<Rightarrow> bool" where
  "slot_used slot l \<longleftrightarrow> l div 32 < length slot \<and> bit (slot ! (l div 32)) (l mod 32)"

text \<open>A bitmap that fits the size of the table, with no bit set behind it.\<close>

definition rmgr_wf :: "rmgr_ctrl \<Rightarrow> bool" where
  "rmgr_wf rmgr \<longleftrightarrow>
     0 < rm_size rmgr \<and> length (rm_slot rmgr) = (unat (rm_size rmgr) + 31) div 32 \<and>
     {l. slot_used (rm_slot rmgr) l} \<subseteq> {..<unat (rm_size rmgr)}"

lemma test_bit_at_of_nat:
  "l < 2 ^ 32 \<Longrightarrow> l < 32 * length slot \<Longrightarrow> test_bit_at (of_nat l) slot = Some (slot_used slot l)"
  by (simp add: test_bit_at_bit slot_used_def unat_of_nat less_mult_imp_div_less mult.commute)

lemma of_nat_less_sz: "n < unat (sz :: u32) \<Longrightarrow> of_nat n < sz"
  using unat_mod_le [of sz] by (simp add: word_less_nat_alt unat_of_nat)

lemma minus_one_not_less: "\<not> (- 1 :: u32) < sz"
  by (metis word_not_simps(3))

lemma last_clear_of_nat:
  "n \<le> unat sz \<Longrightarrow> unat sz \<le> 32 * length slot \<Longrightarrow>
   \<exists>m\<le>n. last_clear sz slot (of_nat n - 1) = Some (of_nat m - 1) \<and>
     (\<forall>l. m \<le> l \<and> l < n \<longrightarrow> slot_used slot l) \<and> (m = 0 \<or> \<not> slot_used slot (m - 1))"
proof (induction n)
  case 0
  then show ?case by (subst last_clear.simps) (simp add: minus_one_not_less)
next
  case (Suc n)
  have lt: "of_nat n < sz" using Suc.prems by (simp add: of_nat_less_sz)
  have t: "test_bit_at (of_nat n) slot = Some (slot_used slot n)"
    using Suc.prems unat_mod_le [of sz] by (intro test_bit_at_of_nat) auto
  show ?case
  proof (cases "slot_used slot n")
    case True
    then have e: "last_clear sz slot (of_nat (Suc n) - 1) = last_clear sz slot (of_nat n - 1)"
      using lt t by (subst last_clear.simps) simp
    obtain m where "m \<le> n" "last_clear sz slot (of_nat n - 1) = Some (of_nat m - 1)"
      "\<forall>l. m \<le> l \<and> l < n \<longrightarrow> slot_used slot l" "m = 0 \<or> \<not> slot_used slot (m - 1)"
      using Suc by auto
    then show ?thesis unfolding e using True by (intro exI [of _ m]) (auto simp: less_Suc_eq)
  next
    case False
    then have "last_clear sz slot (of_nat (Suc n) - 1) = Some (of_nat (Suc n) - 1)"
      using lt t by (subst last_clear.simps) simp
    then show ?thesis using False by (intro exI [of _ "Suc n"]) auto
  qed
qed

lemma full_word: "NOT w = 0 \<Longrightarrow> b < 32 \<Longrightarrow> bit w b" for w :: ul
proof -
  assume "NOT w = 0" "b < 32"
  then have "\<not> bit (NOT w) b" by simp
  then show ?thesis using \<open>b < 32\<close> by (simp add: bit_not_iff)
qed

lemma skip_full_of_nat:
  "32 * k \<le> unat sz \<Longrightarrow> k \<le> length slot \<Longrightarrow>
   \<exists>k'\<le>k. skip_full sz slot (of_nat (32 * k) - 1) k = Some (of_nat (32 * k') - 1) \<and>
     (\<forall>l. 32 * k' \<le> l \<and> l < 32 * k \<longrightarrow> slot_used slot l)"
proof (induction k)
  case 0
  then show ?case by (simp add: minus_one_not_less)
next
  case (Suc k)
  have lt: "of_nat (32 * Suc k) - 1 < sz"
    using Suc.prems of_nat_less_sz [of "32 * Suc k - 1" sz] by simp
  show ?case
  proof (cases "NOT (slot ! k) = 0")
    case True
    have "of_nat (32 * Suc k) - 1 - 32 = (of_nat (32 * k) - 1 :: u32)" by simp
    then have e: "skip_full sz slot (of_nat (32 * Suc k) - 1) (Suc k) = skip_full sz slot (of_nat (32 * k) - 1) k"
      using True lt Suc.prems by (simp del: of_nat_mult)
    obtain k' where "k' \<le> k" "skip_full sz slot (of_nat (32 * k) - 1) k = Some (of_nat (32 * k') - 1)"
      "\<forall>l. 32 * k' \<le> l \<and> l < 32 * k \<longrightarrow> slot_used slot l"
      using Suc by auto
    moreover have "slot_used slot l" if "32 * k \<le> l" "l < 32 * Suc k" for l
    proof -
      have "l div 32 = k" using that by (intro div_nat_eqI) auto
      then show ?thesis using Suc.prems full_word [OF True, of "l mod 32"] by (simp add: slot_used_def)
    qed
    ultimately show ?thesis unfolding e by (intro exI [of _ k']) (meson le_Suc_eq not_le)
  next
    case False
    then have "skip_full sz slot (of_nat (32 * Suc k) - 1) (Suc k) = Some (of_nat (32 * Suc k) - 1)"
      using lt Suc.prems by (simp del: of_nat_mult)
    then show ?thesis by (intro exI [of _ "Suc k"]) auto
  qed
qed


text \<open>
  The locations that are looked at: all, unless the size is a multiple of the length of a word
  and the first location of the last word is in use.
\<close>

definition slot_limit :: "nat \<Rightarrow> (nat \<Rightarrow> bool) \<Rightarrow> nat" where
  "slot_limit n used = (if n mod 32 = 0 \<and> used (n - 32) then n - 32 else n)"

definition free_locs :: "nat \<Rightarrow> (nat \<Rightarrow> bool) \<Rightarrow> nat list" where
  "free_locs n used = filter (\<lambda>l. \<not> used l) [0..<slot_limit n used]"

lemma not_or_0: "NOT (x OR push_bit r (NOT 1)) = 0 \<longleftrightarrow> (\<forall>b\<le>r. b < 32 \<longrightarrow> bit x b)" for x :: ul
proof -
  have "bit (NOT (x OR push_bit r (NOT 1))) b \<longleftrightarrow> b < 32 \<and> \<not> bit x b \<and> b \<le> r" for b
    by (subst bit_not_iff, subst bit_or_iff, subst bit_push_bit_iff, subst bit_not_iff) (auto simp: bit_1_iff)
  then show ?thesis by (metis bit_0_eq bit_eqI bot_apply bot_bool_def)
qed

lemma last_word_full_iff:
  assumes "rmgr_wf rmgr" and n: "n = unat (rm_size rmgr)"
  shows "last_word_full rmgr ((n - 1) div 32) = Some (n mod 32 = 0 \<and> slot_used (rm_slot rmgr) (n - 32))"
proof -
  have len: "length (rm_slot rmgr) = (n + 31) div 32" and pos: "0 < n"
    using assms by (auto simp: rmgr_wf_def n word_gt_0_no unat_gt_0 word_neq_0_conv)
  let ?j = "(n - 1) div 32" and ?x = "rm_slot rmgr ! ((n - 1) div 32)"
  have j: "?j < length (rm_slot rmgr)" using pos len by (simp add: div_less_iff_less_mult)
  have "(\<forall>b\<le>n mod 32. b < 32 \<longrightarrow> bit ?x b) \<longleftrightarrow> n mod 32 = 0 \<and> slot_used (rm_slot rmgr) (n - 32)"
  proof (cases "n mod 32 = 0")
    case True
    then obtain k where "n = 32 * Suc k" using pos by (metis mult_0_right mod_0_imp_dvd dvdE not0_implies_Suc less_irrefl)
    then have "?j = k" "(n - 32) div 32 = k" "(n - 32) mod 32 = 0" by auto
    then show ?thesis using True j by (auto simp: slot_used_def)
  next
    case False
    then have "?j = n div 32" by (metis Suc_pred' div_Suc pos mod_Suc neq0_conv)
    moreover have "\<not> slot_used (rm_slot rmgr) n" using assms by (auto simp: rmgr_wf_def)
    ultimately have "\<not> bit ?x (n mod 32)" using j by (auto simp: slot_used_def)
    then show ?thesis using False by auto
  qed
  moreover have "unat (rm_size rmgr mod 32) = n mod 32" by (simp add: n unat_mod)
  ultimately show ?thesis using j unfolding last_word_full_def not_or_0 by simp
qed

lemma last_filter_upt:
  assumes "m \<le> n" and "\<forall>l. m \<le> l \<and> l < n \<longrightarrow> P l" and "m = 0 \<or> \<not> P (m - 1)"
  shows "filter (\<lambda>l. \<not> P l) [0..<n] = (if m = 0 then [] else filter (\<lambda>l. \<not> P l) [0..<m - 1] @ [m - 1])"
proof -
  have "[0..<n] = [0..<m] @ [m..<n]" using assms(1) by (metis le0 le_add_diff_inverse upt_add_eq_append)
  moreover have "filter (\<lambda>l. \<not> P l) [m..<n] = []" using assms(2) by (auto simp: filter_empty_conv)
  moreover have "[0..<m] = [0..<m - 1] @ [m - 1]" if "m \<noteq> 0" using that by (cases m) auto
  ultimately show ?thesis using assms(3) by auto
qed

lemma skip_start:
  assumes wf: "rmgr_wf rmgr" and n: "n = unat (rm_size rmgr)" and sn: "sn = (n - 1) div 32"
    and full: "full = (n mod 32 = 0 \<and> slot_used (rm_slot rmgr) (n - 32))"
    and lk: "(loc, k) = (if full then (rm_size rmgr - 1 - (1 + (rm_size rmgr - 1) mod 32), sn)
      else (rm_size rmgr - 1, Suc sn))"
  shows "\<exists>q \<le> slot_limit n (slot_used (rm_slot rmgr)).
    skip_full (rm_size rmgr) (rm_slot rmgr) loc k = Some (of_nat q - 1) \<and>
    (\<forall>l. q \<le> l \<and> l < slot_limit n (slot_used (rm_slot rmgr)) \<longrightarrow> slot_used (rm_slot rmgr) l)"
proof -
  have len: "length (rm_slot rmgr) = (n + 31) div 32" and pos: "0 < n"
    using wf by (auto simp: rmgr_wf_def n word_gt_0_no unat_gt_0 word_neq_0_conv)
  have sz: "rm_size rmgr = of_nat n" by (simp add: n)
  show ?thesis
  proof (cases "n mod 32 = 0")
    case True
    then obtain k0 where k0: "n = 32 * Suc k0"
      using pos by (metis mult_0_right mod_0_imp_dvd dvdE not0_implies_Suc less_irrefl)
    then have l: "k0 < length (rm_slot rmgr)" "sn = k0" using len by (auto simp: sn)
    have "unat (rm_size rmgr - 1) = n - 1" using pos n by (simp add: unat_minus_one unat_gt_0)
    then have "(rm_size rmgr - 1) mod 32 = 31"
      using k0 by (simp add: word_unat_eq_iff unat_mod)
    then have "loc = of_nat (32 * k) - 1" "k = (if full then k0 else Suc k0)"
      using lk l k0 by (auto simp: sz split: if_splits)
    moreover have "slot_limit n (slot_used (rm_slot rmgr)) = 32 * k"
      using k0 full calculation by (auto simp: slot_limit_def)
    moreover have "32 * k \<le> unat (rm_size rmgr)" "k \<le> length (rm_slot rmgr)"
      using calculation(2) l k0 n by (auto split: if_splits)
    ultimately show ?thesis
      using skip_full_of_nat [of k "rm_size rmgr" "rm_slot rmgr"] by (metis mult_le_mono2)
  next
    case False
    have "sn = n div 32" using False by (metis Suc_pred' div_Suc pos sn)
    moreover have "\<not> slot_used (rm_slot rmgr) n" using wf by (auto simp: rmgr_wf_def n)
    moreover have "sn < length (rm_slot rmgr)" using pos len by (simp add: sn div_less_iff_less_mult)
    ultimately have "NOT (rm_slot rmgr ! sn) \<noteq> 0" using full_word [of "rm_slot rmgr ! sn" "n mod 32"]
      by (auto simp: slot_used_def)
    moreover have "rm_size rmgr - 1 < rm_size rmgr"
      using pos n by (simp add: word_less_nat_alt unat_minus_one unat_gt_0)
    ultimately have "skip_full (rm_size rmgr) (rm_slot rmgr) loc k = Some (of_nat n - 1)"
      using False lk full \<open>sn < length (rm_slot rmgr)\<close> by (simp add: sz)
    then show ?thesis using False by (intro exI [of _ n]) (auto simp: slot_limit_def)
  qed
qed

text \<open>Among the locations looked at, the search finds the last one that is free.\<close>

lemma find_empty_slot_last:
  assumes wf: "rmgr_wf rmgr" and "\<not> driver_select rmgr"
  shows "rmgr_find_empty_slot rmgr location =
    (let fs = free_locs (unat (rm_size rmgr)) (slot_used (rm_slot rmgr)) in
     if fs = [] then Some (- 1, rmgr, location)
     else map_option (\<lambda>s. (0, rmgr\<lparr>rm_slot := s\<rparr>, of_nat (last fs))) (set_bit_at (of_nat (last fs)) (rm_slot rmgr)))"
proof -
  define n where "n = unat (rm_size rmgr)"
  define lim where "lim = slot_limit n (slot_used (rm_slot rmgr))"
  have len: "length (rm_slot rmgr) = (n + 31) div 32" and pos: "0 < n"
    using wf by (auto simp: rmgr_wf_def n_def word_gt_0_no unat_gt_0 word_neq_0_conv)
  obtain loc k where lk: "(loc, k) = (if n mod 32 = 0 \<and> slot_used (rm_slot rmgr) (n - 32)
      then (rm_size rmgr - 1 - (1 + (rm_size rmgr - 1) mod 32), (n - 1) div 32)
      else (rm_size rmgr - 1, Suc ((n - 1) div 32)))"
    by (metis surj_pair)
  obtain q where q: "q \<le> lim" "skip_full (rm_size rmgr) (rm_slot rmgr) loc k = Some (of_nat q - 1)"
    "\<forall>l. q \<le> l \<and> l < lim \<longrightarrow> slot_used (rm_slot rmgr) l"
    using skip_start [OF wf n_def refl refl lk] by (auto simp: lim_def)
  have "lim \<le> n" "n \<le> 32 * length (rm_slot rmgr)" using len by (auto simp: lim_def slot_limit_def)
  then obtain m where m: "m \<le> q" "last_clear (rm_size rmgr) (rm_slot rmgr) (of_nat q - 1) = Some (of_nat m - 1)"
    "\<forall>l. m \<le> l \<and> l < q \<longrightarrow> slot_used (rm_slot rmgr) l" "m = 0 \<or> \<not> slot_used (rm_slot rmgr) (m - 1)"
    using last_clear_of_nat [of q "rm_size rmgr" "rm_slot rmgr"] q(1) n_def by auto
  have "\<forall>l. m \<le> l \<and> l < lim \<longrightarrow> slot_used (rm_slot rmgr) l" using m(3) q(3) by (meson not_le)
  then have fs: "free_locs n (slot_used (rm_slot rmgr)) =
      (if m = 0 then [] else filter (\<lambda>l. \<not> slot_used (rm_slot rmgr) l) [0..<m - 1] @ [m - 1])"
    unfolding free_locs_def lim_def [symmetric] using m(1,4) q(1) by (intro last_filter_upt) auto
  have sn: "unat ((rm_size rmgr - 1) div 32) = (n - 1) div 32"
    using pos n_def by (simp add: unat_div unat_minus_one unat_gt_0)
  have r: "rmgr_find_empty_slot rmgr location =
      (if of_nat m - 1 < rm_size rmgr then map_option (\<lambda>(err, r). (err, r, of_nat m - 1)) (rmgr_ins rmgr (of_nat m - 1))
       else Some (- 1, rmgr, location))"
    unfolding rmgr_find_empty_slot_def Let_def sn last_word_full_iff [OF wf n_def] option.case lk [symmetric]
    using assms(2) q(2) m(2) by simp
  show ?thesis
  proof (cases m)
    case 0
    then show ?thesis using r fs by (simp add: minus_one_not_less n_def)
  next
    case (Suc l)
    then have "of_nat l < rm_size rmgr" using m(1) q(1) \<open>lim \<le> n\<close> n_def by (intro of_nat_less_sz) auto
    moreover from this have "\<not> rm_size rmgr \<le> of_nat l" by simp
    ultimately show ?thesis using r fs Suc by (simp add: rmgr_ins_def n_def [symmetric] option.map_comp o_def)
  qed
qed


lemma slot_used_elems: "l < 2 ^ 32 \<Longrightarrow> slot_used slot l \<longleftrightarrow> of_nat l \<in> bm32.elems slot"
  by (simp add: bm32.elems_def test_bit_at_bit slot_used_def unat_of_nat)

lemma rmgr_ins_all_used:
  assumes "list_all (\<lambda>l. l < rm_size rmgr) ls" and "unat (rm_size rmgr) \<le> 32 * length (rm_slot rmgr)"
  shows "\<exists>s. rmgr_ins_all ls rmgr = Some (0, rmgr\<lparr>rm_slot := s\<rparr>) \<and> length s = length (rm_slot rmgr) \<and>
    bm32.elems s = set ls \<union> bm32.elems (rm_slot rmgr)"
  using assms
proof (induction ls arbitrary: rmgr)
  case (Cons l ls)
  have "unat l div 32 < length (rm_slot rmgr)"
    using Cons.prems by (simp add: word_less_nat_alt less_mult_imp_div_less mult.commute)
  then obtain t where t: "set_bit_at l (rm_slot rmgr) = Some t" "length t = length (rm_slot rmgr)"
    by (simp add: set_bit_at_def unat_div Let_def)
  then have "rmgr_ins rmgr l = Some (0, rmgr\<lparr>rm_slot := t\<rparr>)" using Cons.prems by (simp add: rmgr_ins_def not_le)
  moreover obtain s where "rmgr_ins_all ls (rmgr\<lparr>rm_slot := t\<rparr>) = Some (0, rmgr\<lparr>rm_slot := s\<rparr>)"
    "length s = length t" "bm32.elems s = set ls \<union> bm32.elems t"
    using Cons.IH [of "rmgr\<lparr>rm_slot := t\<rparr>"] Cons.prems t(2) by auto
  ultimately show ?case using t bm32.elems_st [OF t(1)] by auto
next
  case Nil
  then show ?case by (intro exI [of _ "rm_slot rmgr"]) simp
qed

lemma slot_used_zero: "\<not> slot_used (replicate k 0) l"
  by (simp add: slot_used_def)

lemma BITS_TO_LONGS_nat: "unat n + 31 < 2 ^ 32 \<Longrightarrow> unat (BITS_TO_LONGS n) = (unat n + 31) div 32"
proof -
  assume n: "unat n + 31 < 2 ^ 32"
  have "n + 32 - 1 = of_nat (unat n + 31)" by simp
  then show ?thesis using n by (simp add: BITS_TO_LONGS_def unat_div unat_of_nat del: of_nat_add)
qed

text \<open>A driver that cannot choose locations itself and reports a table of a size with these locations in use.\<close>

definition reports_table :: "rx_driver \<Rightarrow> u32 \<Rightarrow> u32 list \<Rightarrow> bool" where
  "reports_table D sz locs \<longleftrightarrow>
     (\<exists>data. rx_count D = Some (of_nat (length locs), data) \<and> data AND ucast RX_CLS_LOC_SPECIAL = 0) \<and>
     (\<exists>data. rx_locs D (of_nat (length locs)) = Some (data, locs) \<and> ucast data = sz) \<and>
     0 < sz \<and> length locs \<le> unat sz \<and> list_all (\<lambda>l. l < sz) locs"

lemma rmgr_init_wf:
  assumes D: "reports_table D sz locs" and "\<forall>n. rx_calloc D n" and "unat sz + 31 < 2 ^ 32"
  shows "\<exists>rmgr. rmgr_init D = Some (0, rmgr) \<and> rmgr_wf rmgr \<and> \<not> driver_select rmgr \<and> rm_size rmgr = sz \<and>
    (\<forall>l. slot_used (rm_slot rmgr) l \<longleftrightarrow> l \<in> unat ` set locs)"
proof -
  let ?n = "of_nat (length locs) :: u32" and ?w = "unat (BITS_TO_LONGS sz)"
  let ?r = "rmgr0\<lparr>n_rules := ?n, driver_select := False, rm_size := sz, rm_slot := replicate ?w 0\<rparr>"
  have u: "unat ?n = length locs" using D unat_mod_le [of sz] by (auto simp: reports_table_def unat_of_nat)
  have w: "?w = (unat sz + 31) div 32" using assms(3) by (rule BITS_TO_LONGS_nat)
  have locs: "rule_locs ?n locs = locs" by (simp add: rule_locs_def u)
  have z: "bm32.elems (replicate ?w 0) = {}" by (simp add: bm32.elems_def test_bit_at_bit)
  have l: "list_all (\<lambda>l. l < rm_size ?r) locs" "unat (rm_size ?r) \<le> 32 * length (rm_slot ?r)"
    using D w by (simp_all add: reports_table_def)
  obtain s where s: "rmgr_ins_all locs ?r = Some (0, ?r\<lparr>rm_slot := s\<rparr>)" "length s = ?w" "bm32.elems s = set locs"
    using rmgr_ins_all_used [of ?r locs] l z by auto
  have "\<not> sz < ?n" using D u by (auto simp: reports_table_def word_less_nat_alt)
  then have i: "rmgr_init D = Some (0, ?r\<lparr>rm_slot := s\<rparr>)"
    using D s(1) assms(2) locs by (auto simp: reports_table_def rmgr_init_def Let_def rmgr0_def)
  have used: "slot_used s l \<longleftrightarrow> l \<in> unat ` set locs" for l
  proof (cases "l < 2 ^ 32")
    case True
    then show ?thesis unfolding slot_used_elems [OF True] s(3) by (auto simp: unat_of_nat image_iff intro!: bexI)
  next
    case False
    then have "\<not> l div 32 < length s" using w s(2) assms(3) by (simp add: div_less_iff_less_mult)
    moreover have "l \<notin> unat ` set locs" using False unat_mod_le [where 'a=32] by force
    ultimately show ?thesis by (simp add: slot_used_def)
  qed
  then have "rmgr_wf (?r\<lparr>rm_slot := s\<rparr>)"
    using D w s(2) by (auto simp: rmgr_wf_def reports_table_def list_all_iff word_less_nat_alt)
  then show ?thesis using i used by (intro exI [of _ "?r\<lparr>rm_slot := s\<rparr>"]) simp
qed



section \<open>Properties\<close>

text \<open>C30: A rule without a location gets the last free location of the driver's table; but if the
  size of the table is a multiple of 32 and the first location of its last word is in use, the
  whole word is passed over, and the rule is refused when there is nothing free before it.\<close>

theorem rule_ins_picks_last_free:
  assumes "reports_table D sz locs" and "\<forall>n. rx_calloc D n" and "unat sz + 31 < 2 ^ 32"
    and "loc AND RX_CLS_LOC_SPECIAL \<noteq> 0"
  shows "rxclass_rule_ins D ins loc =
    (let fs = free_locs (unat sz) (\<lambda>l. l \<in> unat ` set locs) in
     if fs = [] then Some (- 1, [], None)
     else let l = of_nat (last fs) in
       Some (0, case ins l of None \<Rightarrow> [] | Some l' \<Rightarrow> ''Added rule with ID '' @ fmt_d (sint l') @ nl, Some l))"
proof -
  obtain rmgr where r: "rmgr_init D = Some (0, rmgr)" "rmgr_wf rmgr" "\<not> driver_select rmgr" "rm_size rmgr = sz"
    "\<forall>l. slot_used (rm_slot rmgr) l \<longleftrightarrow> l \<in> unat ` set locs"
    using rmgr_init_wf [OF assms(1-3)] by blast
  then have u: "slot_used (rm_slot rmgr) = (\<lambda>l. l \<in> unat ` set locs)" by (simp add: fun_eq_iff)
  let ?fs = "free_locs (unat sz) (\<lambda>l. l \<in> unat ` set locs)"
  have "\<exists>s. set_bit_at (of_nat (last ?fs)) (rm_slot rmgr) = Some s" if "?fs \<noteq> []"
  proof -
    have "last ?fs < unat sz" using last_in_set [OF that] by (auto simp: free_locs_def slot_limit_def split: if_splits)
    then show ?thesis
      using r(2,4) unat_mod_le [of sz]
      by (auto simp: rmgr_wf_def set_bit_at_def unat_div unat_of_nat Let_def div_less_iff_less_mult)
  qed
  then show ?thesis
    using find_empty_slot_last [OF r(2,3), of loc, unfolded u r(4)] assms(4)
    by (cases "?fs = []") (auto simp: rxclass_rule_ins_def rmgr_set_location_def r(1) Let_def split: option.split)
qed


section \<open>Witness\<close>

definition table_of :: "u32 \<Rightarrow> u32 list \<Rightarrow> rx_driver" where
  "table_of sz locs = \<lparr>rx_count = Some (of_nat (length locs), ucast sz), rx_locs = (\<lambda>_. Some (ucast sz, locs)),
     rx_calloc = (\<lambda>_. True)\<rparr>"

theorem rule_ins_picks_last_free_witness:
  "rxclass_rule_ins (table_of 40 [39, 38]) (\<lambda>l. Some l) RX_CLS_LOC_ANY = Some (0, ''Added rule with ID 37'' @ nl, Some 37) \<and>
   rxclass_rule_ins (table_of 32 [0]) (\<lambda>l. Some l) RX_CLS_LOC_ANY = Some (- 1, [], None)"
proof -
  have t: "reports_table (table_of 40 [39, 38]) 40 [39, 38]" "reports_table (table_of 32 [0]) 32 [0]"
    by (simp_all add: reports_table_def table_of_def RX_CLS_LOC_SPECIAL_def)
  have c: "\<forall>n. rx_calloc (table_of sz locs) n" for sz locs by (simp add: table_of_def)
  have s: "RX_CLS_LOC_ANY AND RX_CLS_LOC_SPECIAL \<noteq> 0" by (simp add: RX_CLS_LOC_ANY_def RX_CLS_LOC_SPECIAL_def)
  have f: "free_locs 40 (\<lambda>l. l = 39 \<or> l = 38) = [0..<38]" "free_locs 32 (\<lambda>l. l = 0) = []"
    by (simp_all add: free_locs_def slot_limit_def upt_rec)
  have "last [0..<38] = 37" by (simp add: upt_rec)
  moreover have "fmt_d 37 = ''37''" by (simp add: fmt_d_def fmt_u_def fmt_base_def digits_of.simps digit_char_nth)
  ultimately show ?thesis
    using rule_ins_picks_last_free [OF t(1) c _ s, of "\<lambda>l. Some l"] rule_ins_picks_last_free [OF t(2) c _ s, of "\<lambda>l. Some l"] f
    by simp
qed

end
