(* ===== verification/RuleOptions.thy ===== *)
theory RuleOptions
  imports Inet RuleManager
begin

text \<open>
  Receive rules of ethtool as text (\<open>src/ethernet_test/ethtool/rxclass.c\<close>): reading a rule from the
  command line and printing one. A rule is the bytes of a \<open>struct ethtool_rx_flow_spec\<close> on the
  target: the type at 0, the header fields at 4, the extended ones at 64, the masks of both at 76
  and 136, the ring at 152 and the location at 160. Tables of options give the place of each field
  as the source does. Messages on stderr are left out.
\<close>

unbundle bit_operations_syntax

section \<open>Tables of options\<close>

type_synonym flow_spec = "nat \<Rightarrow> u8"

datatype rule_opt_type =
  OPT_NONE | OPT_S32 | OPT_U8 | OPT_U16 | OPT_U32 | OPT_U64 | OPT_BE16 | OPT_BE32 | OPT_BE64 | OPT_IP4 | OPT_MAC

abbreviation NFC_FLAG_RING :: u32 where "NFC_FLAG_RING \<equiv> 0x001"
abbreviation NFC_FLAG_LOC :: u32 where "NFC_FLAG_LOC \<equiv> 0x002"
abbreviation NFC_FLAG_SADDR :: u32 where "NFC_FLAG_SADDR \<equiv> 0x004"
abbreviation NFC_FLAG_DADDR :: u32 where "NFC_FLAG_DADDR \<equiv> 0x008"
abbreviation NFC_FLAG_SPORT :: u32 where "NFC_FLAG_SPORT \<equiv> 0x010"
abbreviation NFC_FLAG_DPORT :: u32 where "NFC_FLAG_DPORT \<equiv> 0x020"
abbreviation NFC_FLAG_SPI :: u32 where "NFC_FLAG_SPI \<equiv> 0x030"
abbreviation NFC_FLAG_TOS :: u32 where "NFC_FLAG_TOS \<equiv> 0x040"
abbreviation NFC_FLAG_PROTO :: u32 where "NFC_FLAG_PROTO \<equiv> 0x080"
abbreviation NTUPLE_FLAG_VLAN :: u32 where "NTUPLE_FLAG_VLAN \<equiv> 0x100"
abbreviation NTUPLE_FLAG_UDEF :: u32 where "NTUPLE_FLAG_UDEF \<equiv> 0x200"
abbreviation NTUPLE_FLAG_VETH :: u32 where "NTUPLE_FLAG_VETH \<equiv> 0x400"

text \<open>Name, type, flag, offset and offset of the mask, which is None where the source has -1.\<close>

type_synonym rule_opt = "cstr \<times> rule_opt_type \<times> u32 \<times> nat \<times> nat option"

definition rule_ext :: "rule_opt list" where
  "rule_ext =
     [(''action'', OPT_U64, NFC_FLAG_RING, 152, None),
      (''loc'', OPT_U32, NFC_FLAG_LOC, 160, None),
      (''vlan-etype'', OPT_BE16, NTUPLE_FLAG_VETH, 64, Some 136),
      (''vlan'', OPT_BE16, NTUPLE_FLAG_VLAN, 66, Some 138),
      (''user-def'', OPT_BE64, NTUPLE_FLAG_UDEF, 68, Some 140)]"

definition rule_nfc_tcp_ip4 :: "rule_opt list" where
  "rule_nfc_tcp_ip4 =
     [(''src-ip'', OPT_IP4, NFC_FLAG_SADDR, 4, Some 76),
      (''dst-ip'', OPT_IP4, NFC_FLAG_DADDR, 8, Some 80),
      (''tos'', OPT_U8, NFC_FLAG_TOS, 16, Some 88),
      (''src-port'', OPT_BE16, NFC_FLAG_SPORT, 12, Some 84),
      (''dst-port'', OPT_BE16, NFC_FLAG_DPORT, 14, Some 86)] @ rule_ext"

definition rule_nfc_esp_ip4 :: "rule_opt list" where
  "rule_nfc_esp_ip4 =
     [(''src-ip'', OPT_IP4, NFC_FLAG_SADDR, 4, Some 76),
      (''dst-ip'', OPT_IP4, NFC_FLAG_DADDR, 8, Some 80),
      (''tos'', OPT_U8, NFC_FLAG_TOS, 16, Some 88),
      (''spi'', OPT_BE32, NFC_FLAG_SPI, 12, Some 84)] @ rule_ext"

definition rule_nfc_usr_ip4 :: "rule_opt list" where
  "rule_nfc_usr_ip4 =
     [(''src-ip'', OPT_IP4, NFC_FLAG_SADDR, 4, Some 76),
      (''dst-ip'', OPT_IP4, NFC_FLAG_DADDR, 8, Some 80),
      (''tos'', OPT_U8, NFC_FLAG_TOS, 16, Some 88),
      (''l4proto'', OPT_U8, NFC_FLAG_PROTO, 18, Some 90),
      (''l4data'', OPT_BE32, NFC_FLAG_SPI, 12, Some 84),
      (''spi'', OPT_BE32, NFC_FLAG_SPI, 12, Some 84),
      (''src-port'', OPT_BE16, NFC_FLAG_SPORT, 12, Some 84),
      (''dst-port'', OPT_BE16, NFC_FLAG_DPORT, 14, Some 86)] @ rule_ext"

definition rule_nfc_ether :: "rule_opt list" where
  "rule_nfc_ether =
     [(''src'', OPT_MAC, NFC_FLAG_SADDR, 10, Some 82),
      (''dst'', OPT_MAC, NFC_FLAG_DADDR, 4, Some 76),
      (''proto'', OPT_BE16, NFC_FLAG_PROTO, 16, Some 88)] @ rule_ext"


section \<open>Values\<close>

definition rxclass_get_long :: "cstr \<Rightarrow> nat \<Rightarrow> int option" where
  "rxclass_get_long str sz =
     (let mx = 2 ^ (sz - 1) - 1; (val, endp, err) = strtoll 0 str in
      if endp \<noteq> [] \<or> err \<or> mx < val \<or> val < - mx - 1 then None else Some val)"

definition rxclass_get_ulong :: "cstr \<Rightarrow> nat \<Rightarrow> u64 option" where
  "rxclass_get_ulong str sz =
     (let (val, endp, err) = strtou 0 str in
      if endp \<noteq> [] \<or> err \<or> mask sz < val then None else Some val)"

definition rxclass_get_ether :: "cstr \<Rightarrow> u8 list option" where
  "rxclass_get_ether str =
     (if strchr str CHR '':'' = None then None
      else let buf = scan_mac 6 str in if length buf \<noteq> 6 then None else Some (map ucast buf))"

text \<open>The bytes that a value is stored as.\<close>

fun opt_bytes :: "rule_opt_type \<Rightarrow> cstr \<Rightarrow> u8 list option" where
  "opt_bytes OPT_S32 str = map_option (le_bytes 4) (rxclass_get_long str 32)"
| "opt_bytes OPT_U8 str = map_option (\<lambda>v. le_bytes 1 (uint v)) (rxclass_get_ulong str 8)"
| "opt_bytes OPT_U16 str = map_option (\<lambda>v. le_bytes 2 (uint v)) (rxclass_get_ulong str 16)"
| "opt_bytes OPT_U32 str = map_option (\<lambda>v. le_bytes 4 (uint v)) (rxclass_get_ulong str 32)"
| "opt_bytes OPT_U64 str = map_option (\<lambda>v. le_bytes 8 (uint v)) (rxclass_get_ulong str 64)"
| "opt_bytes OPT_BE16 str = map_option (\<lambda>v. be_bytes 2 (uint v)) (rxclass_get_ulong str 16)"
| "opt_bytes OPT_BE32 str = map_option (\<lambda>v. be_bytes 4 (uint v)) (rxclass_get_ulong str 32)"
| "opt_bytes OPT_BE64 str = map_option (\<lambda>v. be_bytes 8 (uint v)) (rxclass_get_ulong str 64)"
| "opt_bytes OPT_IP4 str = inet_pton4 str"
| "opt_bytes OPT_MAC str = rxclass_get_ether str"
| "opt_bytes OPT_NONE str = None"

definition put_mask :: "nat option \<Rightarrow> u8 list \<Rightarrow> flow_spec \<Rightarrow> flow_spec" where
  "put_mask moff bs p = (case moff of None \<Rightarrow> p | Some off \<Rightarrow> put_field off bs p)"

definition rxclass_get_val :: "cstr \<Rightarrow> rule_opt \<Rightarrow> flow_spec \<times> u32 \<Rightarrow> (flow_spec \<times> u32) option" where
  "rxclass_get_val str opt st =
     (let (p, flags) = st; (name, type, flag, off, moff) = opt in
      if flags AND flag \<noteq> 0 then None
      else map_option (\<lambda>bs. (put_mask moff (replicate (length bs) 0xFF) (put_field off bs p), flags OR flag))
             (opt_bytes type str))"

definition rxclass_get_mask :: "cstr \<Rightarrow> rule_opt \<Rightarrow> flow_spec \<Rightarrow> flow_spec option" where
  "rxclass_get_mask str opt p =
     (let (name, type, flag, off, moff) = opt in
      if moff = None then None
      else map_option (\<lambda>bs. put_mask moff (map (\<lambda>b. NOT b) bs) p) (opt_bytes type str))"


section \<open>The command line\<close>

definition flow_types :: "(cstr \<times> nat \<times> rule_opt list) list" where
  "flow_types =
     [(''tcp4'', 0x01, rule_nfc_tcp_ip4), (''udp4'', 0x02, rule_nfc_tcp_ip4), (''sctp4'', 0x03, rule_nfc_tcp_ip4),
      (''ah4'', 0x09, rule_nfc_esp_ip4), (''esp4'', 0x0A, rule_nfc_esp_ip4), (''ip4'', 0x0D, rule_nfc_usr_ip4),
      (''ether'', 0x12, rule_nfc_ether)]"

text \<open>
  The loop over the arguments. An option without a value at the end is passed over; a value may be
  followed by a mask. \<open>Inl\<close> is a failure with what is printed on stdout.
\<close>

fun rule_args :: "rule_opt list \<Rightarrow> cstr list \<Rightarrow> flow_spec \<times> u32 \<Rightarrow> cstr + (flow_spec \<times> u32)" where
  "rule_args opts [] st = Inr st"
| "rule_args opts [a] st =
     (if find (\<lambda>opt. fst opt = a) opts = None then Inl (''Add rule, unrecognized option['' @ a @ '']'' @ nl) else Inr st)"
| "rule_args opts [a, v] st =
     (case find (\<lambda>opt. fst opt = a) opts of
        None \<Rightarrow> Inl (''Add rule, unrecognized option['' @ a @ '']'' @ nl)
      | Some opt \<Rightarrow> (case rxclass_get_val v opt st of None \<Rightarrow> Inl [] | Some st' \<Rightarrow> Inr st'))"
| "rule_args opts (a # v # m # as) st =
     (case find (\<lambda>opt. fst opt = a) opts of
        None \<Rightarrow> Inl (''Add rule, unrecognized option['' @ a @ '']'' @ nl)
      | Some opt \<Rightarrow>
          (case rxclass_get_val v opt st of None \<Rightarrow> Inl []
           | Some (p, flags) \<Rightarrow>
               if m = ''m'' \<or> m = fst opt @ ''-mask''
               then (case as of [] \<Rightarrow> Inl []
                     | w # as' \<Rightarrow> (case rxclass_get_mask w opt p of None \<Rightarrow> Inl []
                                   | Some p' \<Rightarrow> rule_args opts as' (p', flags)))
               else rule_args opts (m # as) (p, flags)))"

definition FLOW_EXT :: nat where "FLOW_EXT = 0x80000000"

definition empty_spec :: "nat \<Rightarrow> flow_spec" where
  "empty_spec flow_type =
     put_field 160 (le_bytes 4 (uint RX_CLS_LOC_ANY)) (put_field 0 (le_bytes 4 (int flow_type)) (\<lambda>_. 0))"

definition finish_spec :: "nat \<Rightarrow> flow_spec \<times> u32 \<Rightarrow> flow_spec" where
  "finish_spec flow_type st =
     (let (p, flags) = st;
          p1 = (if flow_type = 0x0D then put_field 17 [1] p else p)
      in if flags AND (NTUPLE_FLAG_VLAN OR NTUPLE_FLAG_UDEF OR NTUPLE_FLAG_VETH) \<noteq> 0
         then put_field 0 (le_bytes 4 (int (flow_type + FLOW_EXT))) p1 else p1)"

definition rxclass_parse_ruleopts :: "cstr list \<Rightarrow> cstr + flow_spec" where
  "rxclass_parse_ruleopts args =
     (case args of [] \<Rightarrow> Inl []
      | t # as \<Rightarrow>
          (case map_of flow_types t of None \<Rightarrow> Inl []
           | Some (flow_type, opts) \<Rightarrow>
               (case rule_args opts as (empty_spec flow_type, 0) of Inl out \<Rightarrow> Inl out
                | Inr st \<Rightarrow> Inr (finish_spec flow_type st))))"


section \<open>Printing a rule\<close>

definition hx :: "nat \<Rightarrow> cstr" where "hx n = ''0x'' @ fmt_base 16 n"


definition invert_flow_mask :: "flow_spec \<Rightarrow> flow_spec" where
  "invert_flow_mask p = (\<lambda>k. if 76 \<le> k \<and> k < 136 then p k XOR 0xFF else p k)"

definition ipv4_rule_text :: "flow_spec \<Rightarrow> cstr" where
  "ipv4_rule_text p =
     tab @ ''Src IP addr: '' @ inet_ntop4 (get_field 4 4 p) @ '' mask: '' @ inet_ntop4 (get_field 76 4 p) @ nl @
     tab @ ''Dest IP addr: '' @ inet_ntop4 (get_field 8 4 p) @ '' mask: '' @ inet_ntop4 (get_field 80 4 p) @ nl @
     tab @ ''TOS: '' @ hx (unat (p 16)) @ '' mask: '' @ hx (unat (p 88)) @ nl"

text \<open>The extended fields; the mask bytes are inverted on the way. The upper half of the user data is overwritten.\<close>

definition nfc_spec_ext_text :: "flow_spec \<Rightarrow> cstr" where
  "nfc_spec_ext_text p =
     (if u32_at p 0 < FLOW_EXT then []
      else
        let m = (\<lambda>k. NOT (p k)); datam = be32_at m 140 * 2 ^ 32 + be32_at m 144; dat = be32_at p 72 in
        tab @ ''VLAN EtherType: '' @ hx (be16_at p 64) @ '' mask: '' @ hx (be16_at m 136) @ nl @
        tab @ ''VLAN: '' @ hx (be16_at p 66) @ '' mask: '' @ hx (be16_at m 138) @ nl @
        tab @ ''User-defined: '' @ hx dat @ '' mask: '' @ hx datam @ nl)"

definition nfc_body_text :: "nat \<Rightarrow> flow_spec \<Rightarrow> cstr" where
  "nfc_body_text flow_type p =
     (if flow_type = 1 \<or> flow_type = 2 \<or> flow_type = 3 then
        tab @ ''Rule Type: '' @ (if flow_type = 1 then ''TCP'' else if flow_type = 2 then ''UDP'' else ''SCTP'') @
        '' over IPv4'' @ nl @ ipv4_rule_text p @
        tab @ ''Src port: '' @ fmt_u (be16_at p 12) @ '' mask: '' @ hx (be16_at p 84) @ nl @
        tab @ ''Dest port: '' @ fmt_u (be16_at p 14) @ '' mask: '' @ hx (be16_at p 86) @ nl
      else if flow_type = 9 \<or> flow_type = 10 then
        tab @ ''Rule Type: IPSEC '' @ (if flow_type = 9 then ''AH'' else ''ESP'') @ '' over IPv4'' @ nl @
        ipv4_rule_text p @
        tab @ ''SPI: '' @ fmt_d (to_int32 (int (be32_at p 12))) @ '' mask: '' @ hx (be32_at p 84) @ nl
      else if flow_type = 13 then
        tab @ ''Rule Type: Raw IPv4'' @ nl @ ipv4_rule_text p @
        tab @ ''Protocol: '' @ fmt_u (unat (p 18)) @ '' mask: '' @ hx (unat (p 90)) @ nl @
        tab @ ''L4 bytes: '' @ hx (be32_at p 12) @ '' mask: '' @ hx (be32_at p 84) @ nl
      else if flow_type = 18 then
        tab @ ''Flow Type: Raw Ethernet'' @ nl @
        tab @ ''Src MAC addr: '' @ mac_colons (get_field 10 6 p) @ '' mask: '' @ mac_colons (get_field 82 6 p) @ nl @
        tab @ ''Dest MAC addr: '' @ mac_colons (get_field 4 6 p) @ '' mask: '' @ mac_colons (get_field 76 6 p) @ nl @
        tab @ ''Ethertype: 0x'' @ fmt_X 0 (be16_at p 16) @ '' mask: 0x'' @ fmt_X 0 (be16_at p 88) @ nl
      else tab @ ''Unknown Flow type: '' @ fmt_d (to_int32 (int flow_type)) @ nl)"

definition rxclass_print_nfc_rule :: "flow_spec \<Rightarrow> cstr" where
  "rxclass_print_nfc_rule p =
     (let flow_type = u32_at p 0 mod FLOW_EXT; q = invert_flow_mask p; ring = le_value (get_field 152 8 q) in
      ''Filter: '' @ fmt_d (to_int32 (int (u32_at p 160))) @ nl @
      nfc_body_text flow_type q @ nfc_spec_ext_text q @
      (if ring \<noteq> 2 ^ 64 - 1 then tab @ ''Action: Direct to queue '' @ fmt_u ring @ nl else tab @ ''Action: Drop'' @ nl) @ nl)"

definition rxclass_print_rule :: "flow_spec \<Rightarrow> cstr" where
  "rxclass_print_rule p =
     (let t = u32_at p 0 mod FLOW_EXT in
      if t \<in> {1, 2, 3, 9, 10, 18} \<or> (t = 13 \<and> p 17 = 1) then rxclass_print_nfc_rule p else [])"


section \<open>Rules of the driver\<close>

text \<open>\<open>rule loc\<close> is the rule at a location, None for a failed \<open>ioctl\<close>. The result and the output.\<close>

definition rxclass_rule_get :: "(u32 \<Rightarrow> flow_spec option) \<Rightarrow> u32 \<Rightarrow> int \<times> cstr" where
  "rxclass_rule_get rule loc = (case rule loc of None \<Rightarrow> (- 1, []) | Some p \<Rightarrow> (0, rxclass_print_rule p))"

fun get_rules :: "(u32 \<Rightarrow> flow_spec option) \<Rightarrow> u32 list \<Rightarrow> int \<times> cstr" where
  "get_rules rule [] = (0, [])"
| "get_rules rule (l # ls) =
     (case rxclass_rule_get rule l of (err, out) \<Rightarrow>
        if err < 0 then (err, out) else (case get_rules rule ls of (err', out') \<Rightarrow> (err', out @ out')))"

abbreviation ENOMEM :: int where "ENOMEM \<equiv> 12"

definition rxclass_rule_getall :: "rx_driver \<Rightarrow> (u32 \<Rightarrow> flow_spec option) \<Rightarrow> int \<times> cstr" where
  "rxclass_rule_getall D rule =
     (case rx_count D of None \<Rightarrow> (- 1, [])
      | Some (count, _) \<Rightarrow>
          let out = ''Total '' @ fmt_d (sint count) @ '' rules'' @ nl @ nl in
          if \<not> rx_calloc D (192 + count * 4) then (- ENOMEM, out)
          else case rx_locs D count of None \<Rightarrow> (- 1, out)
          | Some (_, locs) \<Rightarrow> (case get_rules rule (rule_locs count locs) of (err, t) \<Rightarrow> (err, out @ t)))"



section \<open>Reading back printed numbers\<close>

text \<open>A number is read back from its decimal and its hexadecimal text.\<close>

lemma get_ulong_scan:
  assumes "scan_number 0 str = Some (False, n, [])" and "sz \<le> 64" and "n < 2 ^ sz"
  shows "rxclass_get_ulong str sz = Some (of_nat n)"
proof -
  have n64: "n < 2 ^ 64" using assms(2,3) power_increasing [of sz 64 "2::nat"] by linarith
  have "take_bit sz (of_nat n :: u64) = of_nat n"
    using assms(2,3) n64 by (simp add: take_bit_nat_eq_self flip: of_nat_take_bit)
  then have "of_nat n \<le> (mask sz :: u64)"
    by (metis take_bit_eq_mask word_and_le1)
  then show ?thesis using assms(1) n64 by (simp add: rxclass_get_ulong_def strtou_def not_less)
qed

lemma get_ulong_fmt_u: "sz \<le> 64 \<Longrightarrow> n < 2 ^ sz \<Longrightarrow> rxclass_get_ulong (fmt_u n) sz = Some (of_nat n)"
  by (rule get_ulong_scan [OF scan_number_0_fmt_u])

lemma get_ulong_hx: "sz \<le> 64 \<Longrightarrow> n < 2 ^ sz \<Longrightarrow> rxclass_get_ulong (hx n) sz = Some (of_nat n)"
  using scan_number_hex [of "[]" n] by (intro get_ulong_scan) (auto simp: hx_def)

lemma get_ulong_typed:
  fixes w :: "'a::len word"
  assumes "sz = LENGTH('a)" and "sz \<le> 64"
  shows "map_option uint (rxclass_get_ulong (fmt_u (unat w)) sz) = Some (uint w)"
    and "map_option uint (rxclass_get_ulong (hx (unat w)) sz) = Some (uint w)"
proof -
  have w: "unat w < 2 ^ sz" using unat_mod_le [of w] assms(1) by simp
  have "unat w < 2 ^ 64" using w assms(2) power_increasing [of sz 64 "2::nat"] by linarith
  then have u: "uint (of_nat (unat w) :: u64) = uint w" by (simp only: uint_nat unat_of_nat) simp
  show "map_option uint (rxclass_get_ulong (fmt_u (unat w)) sz) = Some (uint w)"
    and "map_option uint (rxclass_get_ulong (hx (unat w)) sz) = Some (uint w)"
    by (simp_all only: get_ulong_fmt_u [OF assms(2) w] get_ulong_hx [OF assms(2) w] option.map u)
qed

lemma opt_bytes_typed:
  "opt_bytes OPT_BE16 (fmt_u (unat w)) = Some (be_bytes 2 (uint (w :: u16)))"
  "opt_bytes OPT_BE16 (hx (unat w)) = Some (be_bytes 2 (uint w))"
  "opt_bytes OPT_U64 (fmt_u (unat q)) = Some (le_bytes 8 (uint (q :: u64)))"
  "opt_bytes OPT_BE64 (hx (unat q)) = Some (be_bytes 8 (uint q))"
  "opt_bytes OPT_U32 (fmt_u (unat l)) = Some (le_bytes 4 (uint (l :: u32)))"
  using get_ulong_typed [of 16 w] get_ulong_typed [of 64 q] get_ulong_typed [of 32 l]
  by auto

lemma opt_bytes_ip4: "length bs = 4 \<Longrightarrow> opt_bytes OPT_IP4 (inet_ntop4 bs) = Some bs"
  by (simp add: inet_pton4_ntop4)

lemma get_val_typed:
  "flags AND flag = 0 \<Longrightarrow> opt_bytes ty str = Some bs \<Longrightarrow>
     rxclass_get_val str (name, ty, flag, off, moff) (p, flags) =
       Some (put_mask moff (replicate (length bs) 0xFF) (put_field off bs p), flags OR flag)"
  by (simp add: rxclass_get_val_def)


section \<open>What an accepted command line gives\<close>

text \<open>
  The reference reading of the arguments: the options in order, each with its value and its mask, if
  it has one. A last option without a value gives nothing.
\<close>

type_synonym given = "rule_opt \<times> cstr \<times> cstr option"

fun given_opts :: "rule_opt list \<Rightarrow> cstr list \<Rightarrow> given list" where
  "given_opts opts [] = []"
| "given_opts opts [a] = []"
| "given_opts opts [a, v] = (case find (\<lambda>opt. fst opt = a) opts of None \<Rightarrow> [] | Some opt \<Rightarrow> [(opt, v, None)])"
| "given_opts opts (a # v # m # as) =
     (case find (\<lambda>opt. fst opt = a) opts of None \<Rightarrow> []
      | Some opt \<Rightarrow>
          if m = ''m'' \<or> m = fst opt @ ''-mask''
          then (case as of [] \<Rightarrow> [] | w # as' \<Rightarrow> (opt, v, Some w) # given_opts opts as')
          else (opt, v, None) # given_opts opts (m # as))"

definition opt_flag :: "rule_opt \<Rightarrow> u32" where "opt_flag opt = fst (snd (snd opt))"

fun opt_size :: "rule_opt_type \<Rightarrow> nat" where
  "opt_size OPT_U8 = 1" | "opt_size OPT_U16 = 2" | "opt_size OPT_BE16 = 2"
| "opt_size OPT_U64 = 8" | "opt_size OPT_BE64 = 8" | "opt_size OPT_MAC = 6"
| "opt_size OPT_NONE = 0" | "opt_size OPT_S32 = 4" | "opt_size OPT_U32 = 4" | "opt_size OPT_BE32 = 4" | "opt_size OPT_IP4 = 4"

text \<open>The bytes of a rule an option may write, and that options with different flags write different ones.\<close>

definition opt_cells :: "rule_opt \<Rightarrow> nat list" where
  "opt_cells opt = (case opt of (name, ty, flag, off, moff) \<Rightarrow>
     [off..<off + opt_size ty] @ (case moff of None \<Rightarrow> [] | Some m \<Rightarrow> [m..<m + opt_size ty]))"

definition opt_ranges :: "rule_opt \<Rightarrow> (nat \<times> nat) list" where
  "opt_ranges opt = (case opt of (name, ty, flag, off, moff) \<Rightarrow>
     (off, opt_size ty) # (case moff of None \<Rightarrow> [] | Some m \<Rightarrow> [(m, opt_size ty)]))"

definition ranges_apart :: "(nat \<times> nat) list \<Rightarrow> (nat \<times> nat) list \<Rightarrow> bool" where
  "ranges_apart xs ys = list_all (\<lambda>(a, n). list_all (\<lambda>(b, m). a + n \<le> b \<or> b + m \<le> a) ys) xs"

definition table_ok :: "rule_opt list \<Rightarrow> bool" where
  "table_ok opts =
     list_all (\<lambda>o1. ranges_apart (take 1 (opt_ranges o1)) (drop 1 (opt_ranges o1)) \<and>
       ranges_apart (opt_ranges o1) [(0, 4)] \<and>
       list_all (\<lambda>o2. opt_flag o1 AND opt_flag o2 \<noteq> 0 \<or> ranges_apart (opt_ranges o1) (opt_ranges o2)) opts) opts"

text \<open>What the fields of a given option are in the end.\<close>

definition opt_holds :: "flow_spec \<Rightarrow> given \<Rightarrow> bool" where
  "opt_holds p g = (case g of ((name, ty, flag, off, moff), v, m) \<Rightarrow>
     (\<exists>bs. opt_bytes ty v = Some bs \<and> get_field off (opt_size ty) p = bs) \<and>
     (case moff of None \<Rightarrow> m = None
      | Some mo \<Rightarrow> (case m of None \<Rightarrow> get_field mo (opt_size ty) p = replicate (opt_size ty) 0xFF
                    | Some w \<Rightarrow> \<exists>bs. opt_bytes ty w = Some bs \<and> get_field mo (opt_size ty) p = map (\<lambda>b. NOT b) bs)))"

definition opt_apply :: "given \<Rightarrow> flow_spec \<times> u32 \<Rightarrow> (flow_spec \<times> u32) option" where
  "opt_apply g st = (case g of (opt, v, m) \<Rightarrow>
     (case rxclass_get_val v opt st of None \<Rightarrow> None
      | Some (p, f) \<Rightarrow> (case m of None \<Rightarrow> Some (p, f) | Some w \<Rightarrow> map_option (\<lambda>p'. (p', f)) (rxclass_get_mask w opt p))))"

fun opt_apply_all :: "given list \<Rightarrow> flow_spec \<times> u32 \<Rightarrow> (flow_spec \<times> u32) option" where
  "opt_apply_all [] st = Some st"
| "opt_apply_all (g # gs) st = (case opt_apply g st of None \<Rightarrow> None | Some st' \<Rightarrow> opt_apply_all gs st')"

lemma table_ok_flow_types: "(t, ft, opts) \<in> set flow_types \<Longrightarrow> table_ok opts"
proof -
  have "table_ok rule_nfc_tcp_ip4" and "table_ok rule_nfc_esp_ip4" and "table_ok rule_nfc_usr_ip4" and "table_ok rule_nfc_ether"
    by code_simp+
  then show "(t, ft, opts) \<in> set flow_types \<Longrightarrow> table_ok opts" by (auto simp: flow_types_def)
qed

lemma set_opt_cells: "set (opt_cells opt) = (\<Union>(a, n)\<in>set (opt_ranges opt). {a..<a + n})"
  by (cases opt) (auto simp: opt_cells_def opt_ranges_def split: option.splits)

lemma ranges_apartD:
  "ranges_apart xs ys \<Longrightarrow> (\<Union>(a, n)\<in>set xs. {a..<a + n}) \<inter> (\<Union>(a, n)\<in>set ys. {a..<a + n}) = {}"
  by (fastforce simp: ranges_apart_def list_all_iff)

lemma table_okD:
  assumes "table_ok opts" and "o1 \<in> set opts"
  shows "distinct (opt_cells o1)"
    and "set (opt_cells o1) \<inter> {0..<4} = {}"
    and "o2 \<in> set opts \<Longrightarrow> opt_flag o1 AND opt_flag o2 = 0 \<Longrightarrow> set (opt_cells o1) \<inter> set (opt_cells o2) = {}"
proof -
  have ok: "ranges_apart (take 1 (opt_ranges o1)) (drop 1 (opt_ranges o1))" "ranges_apart (opt_ranges o1) [(0, 4)]"
    "\<And>o2. o2 \<in> set opts \<Longrightarrow> opt_flag o1 AND opt_flag o2 \<noteq> 0 \<or> ranges_apart (opt_ranges o1) (opt_ranges o2)"
    using bspec [OF assms(1) [unfolded table_ok_def list_all_iff] assms(2)] by (auto simp: list_all_iff)
  show "distinct (opt_cells o1)" using ok(1)
    by (cases o1) (auto simp: opt_ranges_def opt_cells_def ranges_apart_def split: option.splits)
  show "set (opt_cells o1) \<inter> {0..<4} = {}" using ranges_apartD [OF ok(2)] by (simp add: set_opt_cells)
  show "set (opt_cells o1) \<inter> set (opt_cells o2) = {}" if "o2 \<in> set opts" "opt_flag o1 AND opt_flag o2 = 0"
    using ok(3) [OF that(1)] that(2) ranges_apartD by (simp add: set_opt_cells)
qed

lemma length_opt_bytes: "opt_bytes ty v = Some bs \<Longrightarrow> length bs = opt_size ty"
  by (cases ty) (auto simp: rxclass_get_ether_def inet_pton4_length Let_def split: if_splits)

lemma put_field_frame: "k \<notin> {off..<off + length bs} \<Longrightarrow> put_field off bs p k = p k"
  by (auto simp: put_field_def)

lemma get_field_cong: "(\<And>k. k \<in> {off..<off + n} \<Longrightarrow> p k = q k) \<Longrightarrow> get_field off n p = get_field off n q"
  by (simp add: get_field_def)

lemma and_or_zeroD:
  fixes a b c :: "'a::len word"
  assumes "(a OR b) AND c = 0"
  shows "a AND c = 0" and "b AND c = 0"
  using assms by (auto simp: bit_eq_iff bit_simps)

lemma opt_val_effect:
  assumes "rxclass_get_val v (name, ty, flag, off, moff) (p, f) = Some (q, f')"
    and "distinct (opt_cells (name, ty, flag, off, moff))"
  shows "f AND flag = 0 \<and> f' = f OR flag \<and>
         (\<exists>bs. opt_bytes ty v = Some bs \<and> get_field off (opt_size ty) q = bs) \<and>
         (\<forall>mo. moff = Some mo \<longrightarrow> get_field mo (opt_size ty) q = replicate (opt_size ty) 0xFF) \<and>
         (\<forall>k. k \<notin> set (opt_cells (name, ty, flag, off, moff)) \<longrightarrow> q k = p k)"
proof -
  obtain bs where bs: "opt_bytes ty v = Some bs" "f AND flag = 0" "f' = f OR flag"
    and q: "q = put_mask moff (replicate (length bs) 0xFF) (put_field off bs p)"
    using assms(1) by (auto simp: rxclass_get_val_def split: if_splits)
  note len = length_opt_bytes [OF bs(1)]
  have "get_field off (opt_size ty) q = bs"
  proof (cases moff)
    case None
    then show ?thesis by (simp add: q put_mask_def get_put_field len)
  next
    case (Some mo)
    have "k \<notin> {mo..<mo + opt_size ty}" if "k \<in> {off..<off + opt_size ty}" for k
      using assms(2) that Some by (auto simp: opt_cells_def)
    then have "get_field off (opt_size ty) q = get_field off (opt_size ty) (put_field off bs p)"
      by (intro get_field_cong) (auto simp: q Some put_mask_def len put_field_frame)
    then show ?thesis by (simp add: get_put_field len)
  qed
  moreover have "\<forall>k. k \<notin> set (opt_cells (name, ty, flag, off, moff)) \<longrightarrow> q k = p k"
    by (auto simp: q put_mask_def opt_cells_def len put_field_frame split: option.splits)
  ultimately show ?thesis using bs len by (auto simp: q put_mask_def get_put_field)
qed

lemma opt_mask_effect:
  assumes "rxclass_get_mask w (name, ty, flag, off, moff) q = Some p"
    and "distinct (opt_cells (name, ty, flag, off, moff))"
  shows "get_field off (opt_size ty) p = get_field off (opt_size ty) q \<and>
         (\<exists>mo bs. moff = Some mo \<and> opt_bytes ty w = Some bs \<and> get_field mo (opt_size ty) p = map (\<lambda>b. NOT b) bs) \<and>
         (\<forall>k. k \<notin> set (opt_cells (name, ty, flag, off, moff)) \<longrightarrow> p k = q k)"
proof -
  obtain mo bs where mo: "moff = Some mo" and bs: "opt_bytes ty w = Some bs" and p: "p = put_field mo (map (\<lambda>b. NOT b) bs) q"
    using assms(1) by (auto simp: rxclass_get_mask_def put_mask_def split: if_splits)
  note len = length_opt_bytes [OF bs]
  have "k \<notin> {mo..<mo + opt_size ty}" if "k \<in> {off..<off + opt_size ty}" for k
    using assms(2) that mo by (auto simp: opt_cells_def)
  then have "get_field off (opt_size ty) p = get_field off (opt_size ty) q"
    by (intro get_field_cong) (auto simp: p len put_field_frame)
  moreover have "\<forall>k. k \<notin> set (opt_cells (name, ty, flag, off, moff)) \<longrightarrow> p k = q k"
    by (auto simp: p opt_cells_def mo len put_field_frame)
  ultimately show ?thesis using mo bs by (simp add: p get_put_field len)
qed

lemma opt_apply_effect:
  assumes "opt_apply (opt, v, m) (p, f) = Some (p', f')" and "distinct (opt_cells opt)"
  shows "f AND opt_flag opt = 0 \<and> f' = f OR opt_flag opt \<and> opt_holds p' (opt, v, m) \<and>
         (\<forall>k. k \<notin> set (opt_cells opt) \<longrightarrow> p' k = p k)"
proof -
  obtain name ty flag off moff where opt: "opt = (name, ty, flag, off, moff)" by (cases opt)
  obtain q where v: "rxclass_get_val v opt (p, f) = Some (q, f')"
    and m: "case m of None \<Rightarrow> p' = q | Some w \<Rightarrow> rxclass_get_mask w opt q = Some p'"
    using assms(1) by (auto simp: opt_apply_def split: option.splits)
  note eff = opt_val_effect [OF v [unfolded opt] assms(2) [unfolded opt]]
  show ?thesis
  proof (cases m)
    case None
    have "moff = None \<or> (\<exists>mo. moff = Some mo)" by auto
    then show ?thesis using eff m None by (auto simp: opt opt_flag_def opt_holds_def split: option.splits)
  next
    case (Some w)
    then have "rxclass_get_mask w (name, ty, flag, off, moff) q = Some p'" using m opt by simp
    from opt_mask_effect [OF this assms(2) [unfolded opt]] eff Some show ?thesis
      by (auto simp: opt opt_flag_def opt_holds_def)
  qed
qed

text \<open>What holds of an option depends on its own bytes only.\<close>

lemma opt_holds_cong:
  assumes "opt_holds p (opt, v, m)" and "\<And>k. k \<in> set (opt_cells opt) \<Longrightarrow> q k = p k"
  shows "opt_holds q (opt, v, m)"
proof -
  obtain name ty flag off moff where opt: "opt = (name, ty, flag, off, moff)" by (cases opt)
  have "get_field off (opt_size ty) q = get_field off (opt_size ty) p"
    by (intro get_field_cong assms(2)) (auto simp: opt opt_cells_def)
  moreover have "get_field mo (opt_size ty) q = get_field mo (opt_size ty) p" if "moff = Some mo" for mo
    by (intro get_field_cong assms(2)) (auto simp: opt opt_cells_def that)
  ultimately show ?thesis using assms(1) by (auto simp: opt_holds_def opt split: option.splits)
qed

lemma opt_apply_all_effect:
  assumes "opt_apply_all gs (p, f) = Some (p', f')" and "table_ok opts" and "fst ` set gs \<subseteq> set opts"
  shows "(\<forall>g\<in>set gs. f AND opt_flag (fst g) = 0 \<and> opt_holds p' g) \<and> f' = fold (\<lambda>g f. f OR opt_flag (fst g)) gs f \<and>
         sorted_wrt (\<lambda>a b. opt_flag (fst a) AND opt_flag (fst b) = 0) gs \<and>
         (\<forall>k. (\<forall>g\<in>set gs. k \<notin> set (opt_cells (fst g))) \<longrightarrow> p' k = p k)"
  using assms(1,3)
proof (induction gs arbitrary: p f)
  case Nil
  then show ?case by simp
next
  case (Cons g gs)
  obtain opt v m where g: "g = (opt, v, m)" by (cases g)
  obtain q h where one: "opt_apply (opt, v, m) (p, f) = Some (q, h)" and rest: "opt_apply_all gs (q, h) = Some (p', f')"
    using Cons.prems(1) by (auto simp: g split: option.splits)
  have opt: "opt \<in> set opts" using Cons.prems(2) by (simp add: g)
  note eff = opt_apply_effect [OF one table_okD(1) [OF assms(2) opt]]
  have gs: "fst ` set gs \<subseteq> set opts" using Cons.prems(2) by simp
  note IH = Cons.IH [OF rest gs]
  have flags: "f AND opt_flag (fst g') = 0 \<and> opt_flag opt AND opt_flag (fst g') = 0" if "g' \<in> set gs" for g'
    using IH that eff by (metis and_or_zeroD)
  have apart: "k \<notin> set (opt_cells (fst g'))" if "g' \<in> set gs" "k \<in> set (opt_cells opt)" for g' k
    using table_okD(3) [OF assms(2) opt, of "fst g'"] flags [OF that(1)] gs that by auto
  have "p' k = q k" if "k \<in> set (opt_cells opt)" for k using IH apart that by blast
  note same = this
  have "opt_holds q (opt, v, m)" using eff by simp
  then have holds: "opt_holds p' (opt, v, m)" using same by (rule opt_holds_cong)
  have frame: "p' k = p k" if "\<forall>g'\<in>set (g # gs). k \<notin> set (opt_cells (fst g'))" for k
    using IH eff that by (simp add: g)
  show ?case using holds flags frame IH eff by (simp add: g)
qed


lemma find_in_set: "find P xs = Some x \<Longrightarrow> x \<in> set xs"
  by (induction xs) (auto split: if_splits)

lemma given_opts_apply:
  "rule_args opts as st = Inr st' \<Longrightarrow>
     opt_apply_all (given_opts opts as) st = Some st' \<and> fst ` set (given_opts opts as) \<subseteq> set opts"
proof (induction opts as st rule: rule_args.induct)
  case (3 opts a v st)
  then obtain opt where find: "find (\<lambda>opt. fst opt = a) opts = Some opt" by (auto split: option.splits)
  then have "opt \<in> set opts" by (rule find_in_set)
  then show ?case using "3.prems" find by (simp add: opt_apply_def split: option.splits)
next
  case (4 opts a v m as st)
  obtain opt where find: "find (\<lambda>opt. fst opt = a) opts = Some opt" using "4.prems" by (auto split: option.splits)
  then have opt: "opt \<in> set opts" by (rule find_in_set)
  obtain p f where v: "rxclass_get_val v opt st = Some (p, f)" using "4.prems" find by (auto split: option.splits)
  show ?case
  proof (cases "m = ''m'' \<or> m = fst opt @ ''-mask''")
    case True
    obtain w as' p' where "as = w # as'" "rxclass_get_mask w opt p = Some p'" "rule_args opts as' (p', f) = Inr st'"
      using "4.prems" find v True by (auto split: list.splits option.splits)
    with "4.IH"(1) [OF find v refl True] opt show ?thesis using find v True by (simp add: opt_apply_def)
  next
    case False
    have "rule_args opts (m # as) (p, f) = Inr st'" using "4.prems" find v False by simp
    with "4.IH"(2) [OF find v refl False] opt show ?thesis using find v False by (simp add: opt_apply_def)
  qed
qed (auto split: if_splits)

lemma fold_or_and_zero:
  fixes f c :: "'a::len word"
  shows "fold (\<lambda>g f. f OR h g) gs f AND c = 0 \<longleftrightarrow> f AND c = 0 \<and> (\<forall>g\<in>set gs. h g AND c = 0)"
proof (induction gs arbitrary: f)
  case (Cons g gs)
  have "(f OR h g) AND c = 0 \<longleftrightarrow> f AND c = 0 \<and> h g AND c = 0" by (auto simp: bit_eq_iff bit_simps)
  with Cons show ?case by auto
qed simp

lemma usr_cells_version: "opt \<in> set rule_nfc_usr_ip4 \<Longrightarrow> 17 \<notin> set (opt_cells opt)"
proof -
  have "list_all (\<lambda>opt. ranges_apart (opt_ranges opt) [(17, 1)]) rule_nfc_usr_ip4" by code_simp
  then show "17 \<notin> set (opt_cells opt)" if "opt \<in> set rule_nfc_usr_ip4"
    using ranges_apartD [of "opt_ranges opt" "[(17, 1)]"] that by (auto simp: list_all_iff set_opt_cells)
qed

lemma flow_types_usr: "map_of flow_types t = Some (13, opts) \<Longrightarrow> opts = rule_nfc_usr_ip4"
  by (auto simp: flow_types_def split: if_splits)

text \<open>The bytes of a rule no option was given for.\<close>

definition ext_given :: "given list \<Rightarrow> bool" where
  "ext_given gs \<longleftrightarrow> (\<exists>g\<in>set gs. opt_flag (fst g) AND (NTUPLE_FLAG_VLAN OR NTUPLE_FLAG_UDEF OR NTUPLE_FLAG_VETH) \<noteq> 0)"

definition rule_default :: "nat \<Rightarrow> bool \<Rightarrow> flow_spec" where
  "rule_default ft ext k =
     (if k < 4 then le_bytes 4 (int (if ext then ft + FLOW_EXT else ft)) ! k
      else if k = 17 \<and> ft = 13 then 1 else if 160 \<le> k \<and> k < 164 then 0xFF else 0)"

lemma finish_spec_bytes:
  "finish_spec ft (p, fl) k =
     (if k < 4 \<and> fl AND (NTUPLE_FLAG_VLAN OR NTUPLE_FLAG_UDEF OR NTUPLE_FLAG_VETH) \<noteq> 0
      then le_bytes 4 (int (ft + FLOW_EXT)) ! k else if k = 17 \<and> ft = 13 then 1 else p k)"
  by (auto simp: finish_spec_def put_field_def)

lemma loc_any_bytes: "le_bytes 4 (uint RX_CLS_LOC_ANY) = replicate 4 0xFF"
  by code_simp

lemma empty_spec_bytes:
  "empty_spec ft k = (if k < 4 then le_bytes 4 (int ft) ! k else if 160 \<le> k \<and> k < 164 then 0xFF else 0)"
  unfolding empty_spec_def loc_any_bytes by (auto simp: put_field_def)

text \<open>C31: a command line that \<open>rxclass_parse_ruleopts\<close> accepts gives every option at most once, two options
  for the same field included. In the rule, the field of each option that was given holds its value and the
  field of the mask the complement of its mask, or ones where no mask was given. All other bytes are 0,
  but for the type with the flag of the extended fields if one of these was given, the version of a raw
  IPv4 rule and the location, which is \<open>RX_CLS_LOC_ANY\<close>. So an option neither disturbs another one nor
  leaves its own field.\<close>

theorem parse_ruleopts_fields:
  assumes "rxclass_parse_ruleopts (t # as) = Inr p" and "map_of flow_types t = Some (ft, opts)"
  shows "sorted_wrt (\<lambda>a b. opt_flag (fst a) AND opt_flag (fst b) = 0) (given_opts opts as) \<and>
         list_all (opt_holds p) (given_opts opts as) \<and>
         (\<forall>k. list_all (\<lambda>g. k \<notin> set (opt_cells (fst g))) (given_opts opts as) \<longrightarrow>
              p k = rule_default ft (ext_given (given_opts opts as)) k)"
proof -
  let ?gs = "given_opts opts as"
  obtain q fl where args: "rule_args opts as (empty_spec ft, 0) = Inr (q, fl)" and p: "p = finish_spec ft (q, fl)"
    using assms by (auto simp: rxclass_parse_ruleopts_def split: sum.splits)
  have ok: "table_ok opts" using assms(2) by (blast intro: table_ok_flow_types map_of_SomeD)
  have app: "opt_apply_all ?gs (empty_spec ft, 0) = Some (q, fl)" and sub: "fst ` set ?gs \<subseteq> set opts"
    using given_opts_apply [OF args] by auto
  note eff = opt_apply_all_effect [OF app ok sub]
  have ext: "fl AND (NTUPLE_FLAG_VLAN OR NTUPLE_FLAG_UDEF OR NTUPLE_FLAG_VETH) \<noteq> 0 \<longleftrightarrow> ext_given ?gs"
    using eff by (simp only: ext_given_def fold_or_and_zero) simp
  have own: "p k = q k" if g: "g \<in> set ?gs" and k: "k \<in> set (opt_cells (fst g))" for g k
  proof -
    have opt: "fst g \<in> set opts" using sub g by auto
    have "\<not> k < 4" using table_okD(2) [OF ok opt] k by auto
    moreover have "k \<noteq> 17" if "ft = 13"
      using usr_cells_version [of "fst g"] flow_types_usr [of t opts] assms(2) opt k that by auto
    ultimately show ?thesis by (auto simp: p finish_spec_bytes)
  qed
  have "opt_holds p g" if "g \<in> set ?gs" for g
    using opt_holds_cong [of q "fst g" "fst (snd g)" "snd (snd g)" p] eff own [OF that] that by simp
  moreover have "p k = rule_default ft (ext_given ?gs) k" if "list_all (\<lambda>g. k \<notin> set (opt_cells (fst g))) ?gs" for k
  proof -
    have "q k = empty_spec ft k" using eff that by (simp add: list_all_iff)
    then show ?thesis using ext by (simp add: p finish_spec_bytes rule_default_def empty_spec_bytes)
  qed
  ultimately show ?thesis using eff by (simp add: list_all_iff)
qed


theorem parse_ruleopts_fields_witness:
  "\<exists>p. rxclass_parse_ruleopts [''tcp4'', ''dst-port'', ''80'', ''m'', ''3'', ''tos'', ''7''] = Inr p \<and>
     get_field 14 2 p = [0, 80] \<and> get_field 86 2 p = [0xFF, 0xFC] \<and> get_field 16 1 p = [7] \<and> p 12 = 0"
proof -
  let ?as = "[''dst-port'', ''80'', ''m'', ''3'', ''tos'', ''7'']"
  have num: "fmt_u 80 = ''80''" "fmt_u 3 = ''3''" "fmt_u 7 = ''7''"
    by (simp_all add: fmt_u_def fmt_base_def digits_of.simps digit_char_nth)
  have b: "opt_bytes OPT_BE16 ''80'' = Some [0, 80]" "opt_bytes OPT_BE16 ''3'' = Some [0, 3]" "opt_bytes OPT_U8 ''7'' = Some [7]"
    using get_ulong_fmt_u [of 16 80] get_ulong_fmt_u [of 16 3] get_ulong_fmt_u [of 8 7]
    by (simp_all add: num be_bytes_def le_bytes_def upt_rec)
  obtain p where p: "rxclass_parse_ruleopts (''tcp4'' # ?as) = Inr p"
    by (simp add: rxclass_parse_ruleopts_def flow_types_def rule_nfc_tcp_ip4_def rule_ext_def
        get_val_typed [OF _ b(1)] get_val_typed [OF _ b(3)] rxclass_get_mask_def b del: opt_bytes.simps)
  have t: "map_of flow_types ''tcp4'' = Some (1, rule_nfc_tcp_ip4)" by (simp add: flow_types_def)
  have g: "given_opts rule_nfc_tcp_ip4 ?as =
      [((''dst-port'', OPT_BE16, NFC_FLAG_DPORT, 14, Some 86), ''80'', Some ''3''),
       ((''tos'', OPT_U8, NFC_FLAG_TOS, 16, Some 88), ''7'', None)]"
    by (simp add: rule_nfc_tcp_ip4_def)
  from parse_ruleopts_fields [OF p t] have "list_all (opt_holds p) (given_opts rule_nfc_tcp_ip4 ?as)"
    and "list_all (\<lambda>g. 12 \<notin> set (opt_cells (fst g))) (given_opts rule_nfc_tcp_ip4 ?as) \<longrightarrow>
      p 12 = rule_default 1 (ext_given (given_opts rule_nfc_tcp_ip4 ?as)) 12" by blast+
  then show ?thesis using p unfolding g
    by (intro exI [of _ p]) (simp add: opt_holds_def b opt_cells_def rule_default_def del: opt_bytes.simps)
qed

end
