(* ===== verification/EthCmdline.thy ===== *)
theory EthCmdline
  imports Inet
begin

text \<open>
  The command line of ethtool (\<open>src/ethernet_test/ethtool/ethtool.c\<close>): numbers in a range, and the
  parser \<open>parse_generic_cmdline\<close> of names with values. The variables that the parser writes
  through pointers are a store from names to cells. None stands for \<open>exit_bad_args\<close>.
\<close>

unbundle bit_operations_syntax

section \<open>Values\<close>

definition get_int_range :: "cstr \<Rightarrow> nat \<Rightarrow> int \<Rightarrow> int \<Rightarrow> int option" where
  "get_int_range str base mn mx =
     (let (v, endp, err) = strtoll base str in if err \<or> endp \<noteq> [] \<or> v < mn \<or> mx < v then None else Some v)"

definition get_uint_range :: "cstr \<Rightarrow> nat \<Rightarrow> u64 \<Rightarrow> u64 option" where
  "get_uint_range str base mx =
     (let (v, endp, err) = strtou base str in if err \<or> endp \<noteq> [] \<or> mx < v then None else Some v)"

lemma get_uint_range_fmt_u:
  assumes "n \<le> unat mx"
  shows "get_uint_range (fmt_u n) 0 mx = Some (of_nat n)"
proof -
  have n: "n < 2 ^ 64" using assms unat_mod_le [of mx] by simp
  then have "of_nat n \<le> mx" using assms by (simp add: word_le_nat_alt unat_of_nat)
  then show ?thesis using n by (simp add: get_uint_range_def strtou_def scan_number_0_fmt_u not_less)
qed

definition get_int :: "cstr \<Rightarrow> nat \<Rightarrow> int option" where
  "get_int str base = get_int_range str base (- (2 ^ 31)) (2 ^ 31 - 1)"

definition get_mac_addr :: "cstr \<Rightarrow> u8 list option" where
  "get_mac_addr src = (let buf = scan_mac 6 src in if length buf \<noteq> 6 then None else Some (map ucast buf))"

text \<open>
  \<open>inet_aton\<close>: up to four numbers, all but the last one byte each and the last one filling the rest.
\<close>

fun aton_parts :: "nat \<Rightarrow> cstr \<Rightarrow> nat list option" where
  "aton_parts 0 s = None"
| "aton_parts (Suc n) s =
     (if s = [] \<or> \<not> isdigit (hd s) then None
      else case scan_number 0 s of None \<Rightarrow> None
      | Some (neg, v, r) \<Rightarrow>
          if 2 ^ 32 \<le> v then None
          else if r \<noteq> [] \<and> hd r = CHR ''.'' then if 255 < v then None else map_option ((#) v) (aton_parts n (tl r))
          else if r = [] \<or> isspace (hd r) then Some [v] else None)"

definition inet_aton :: "cstr \<Rightarrow> u8 list option" where
  "inet_aton s =
     (case aton_parts 4 s of None \<Rightarrow> None
      | Some ns \<Rightarrow>
          let k = length ns - 1 in
          if 2 ^ (8 * (4 - k)) \<le> last ns then None
          else Some (map of_nat (butlast ns) @ be_bytes (4 - k) (int (last ns))))"


section \<open>The generic parser\<close>

datatype cmdline_type = CMDL_NONE | CMDL_BOOL | CMDL_S32 | CMDL_U8 | CMDL_U16 | CMDL_U32 | CMDL_U64 | CMDL_BE16 | CMDL_IP4
  | CMDL_STR | CMDL_FLAG | CMDL_MAC

text \<open>A variable holds a number, a string or bytes.\<close>

datatype cell = Num int | Text cstr | Raw "u8 list"

type_synonym store = "cstr \<Rightarrow> cell"

primrec cell_num :: "cell \<Rightarrow> int" where
  "cell_num (Num i) = i" | "cell_num (Text s) = 0" | "cell_num (Raw bs) = 0"

text \<open>
  An entry of the table; the variables are named, the empty name is the null pointer. Entries for flags always have
  a variable for the flags seen.
\<close>

record cmdline_info =
  ci_name :: cstr
  ci_type :: cmdline_type
  wanted_val :: cstr
  ioctl_val :: cstr
  flag_val :: u32
  seen_val :: cstr

definition cmdl_value :: "cmdline_type \<Rightarrow> cstr \<Rightarrow> cell option" where
  "cmdl_value type arg = (case type of
     CMDL_BOOL \<Rightarrow> if arg = ''on'' then Some (Num 1) else if arg = ''off'' then Some (Num 0) else None
   | CMDL_S32 \<Rightarrow> map_option Num (get_int_range arg 0 (- (2 ^ 31)) (2 ^ 31 - 1))
   | CMDL_U8 \<Rightarrow> map_option (\<lambda>v. Num (uint v)) (get_uint_range arg 0 0xFF)
   | CMDL_U16 \<Rightarrow> map_option (\<lambda>v. Num (uint v)) (get_uint_range arg 0 0xFFFF)
   | CMDL_U32 \<Rightarrow> map_option (\<lambda>v. Num (uint v)) (get_uint_range arg 0 0xFFFFFFFF)
   | CMDL_U64 \<Rightarrow> map_option (\<lambda>v. Num (uint v)) (get_uint_range arg 0 (- 1))
   | CMDL_BE16 \<Rightarrow> map_option (\<lambda>v. Num (int (le_value (be_bytes 2 (uint v))))) (get_uint_range arg 0 0xFFFF)
   | CMDL_IP4 \<Rightarrow> map_option (\<lambda>bs. Num (int (le_value bs))) (inet_aton arg)
   | CMDL_STR \<Rightarrow> Some (Text arg)
   | CMDL_MAC \<Rightarrow> map_option Raw (get_mac_addr arg)
   | CMDL_NONE \<Rightarrow> None | CMDL_FLAG \<Rightarrow> None)"

definition or_cell :: "cstr \<Rightarrow> u32 \<Rightarrow> store \<Rightarrow> store" where
  "or_cell x b s = s(x := Num (uint (of_int (cell_num (s x)) OR b)))"

definition cmdl_store :: "cmdline_info \<Rightarrow> cstr \<Rightarrow> store \<Rightarrow> store option" where
  "cmdl_store info arg s =
     (if ci_type info = CMDL_FLAG then
        let s1 = or_cell (seen_val info) (flag_val info) s in
        if arg = ''on'' then Some (or_cell (wanted_val info) (flag_val info) s1) else if arg = ''off'' then Some s1 else None
      else let s1 = (if seen_val info = [] then s else s(seen_val info := Num 1)) in
        map_option (\<lambda>c. s1(wanted_val info := c)) (cmdl_value (ci_type info) arg))"

fun parse_generic_cmdline :: "cmdline_info list \<Rightarrow> cstr list \<Rightarrow> store \<times> bool \<Rightarrow> (store \<times> bool) option" where
  "parse_generic_cmdline info [] st = Some st"
| "parse_generic_cmdline info [a] st = None"
| "parse_generic_cmdline info (a # v # as) st =
     (case find (\<lambda>ci. ci_name ci = a) info of None \<Rightarrow> None
      | Some ci \<Rightarrow> (case cmdl_store ci v (fst st) of None \<Rightarrow> None
                    | Some s \<Rightarrow> parse_generic_cmdline info as (s, True)))"

definition flag_to_cmdline_info :: "cstr \<Rightarrow> u32 \<Rightarrow> cstr \<Rightarrow> cstr \<Rightarrow> cmdline_info" where
  "flag_to_cmdline_info nm val wanted msk =
     \<lparr>ci_name = nm, ci_type = CMDL_FLAG, wanted_val = wanted, ioctl_val = [], flag_val = val, seen_val = msk\<rparr>"

fun print_flags :: "(cstr \<times> u32) list \<Rightarrow> cstr \<Rightarrow> u32 \<Rightarrow> cstr" where
  "print_flags [] sep v = (if v \<noteq> 0 then sep @ ''0x'' @ fmt_base 16 (unat v) else [])"
| "print_flags ((nm, b) # info) sep v =
     (if v AND b \<noteq> 0 then sep @ nm @ print_flags info '' '' (v AND NOT b) else print_flags info sep v)"


section \<open>What the arguments give\<close>

text \<open>The reference reading: pairs of a name and a value.\<close>

fun arg_pairs :: "cstr list \<Rightarrow> (cstr \<times> cstr) list" where
  "arg_pairs (a # v # as) = (a, v) # arg_pairs as"
| "arg_pairs as = []"

definition last_given :: "cstr \<Rightarrow> cstr list \<Rightarrow> cstr option" where
  "last_given nm as = map_of (rev (arg_pairs as)) nm"

lemma last_given_Cons:
  "last_given nm (a # v # as) = (case last_given nm as of None \<Rightarrow> if a = nm then Some v else None | Some w \<Rightarrow> Some w)"
  by (auto simp: last_given_def map_add_def split: option.splits)

text \<open>Entries that are no flags and share neither names nor variables.\<close>

definition plain_table :: "cmdline_info list \<Rightarrow> bool" where
  "plain_table infos \<longleftrightarrow> distinct (map ci_name infos) \<and> distinct (map wanted_val infos) \<and> distinct (map ioctl_val infos) \<and>
     list_all (\<lambda>ci. ci_type ci \<noteq> CMDL_FLAG \<and> seen_val ci = []) infos"

lemma find_named:
  assumes "distinct (map f xs)" and "x \<in> set xs"
  shows "find (\<lambda>y. f y = f x) xs = Some x"
  using assms by (induction xs) auto

lemma find_SomeD: "find P xs = Some x \<Longrightarrow> x \<in> set xs \<and> P x"
  by (induction xs) (auto split: if_splits)

text \<open>Every variable of a plain table holds the last value given for its name in the end.\<close>

lemma parse_plain:
  assumes "parse_generic_cmdline infos as (s, c) = Some (s', c')" and "plain_table infos"
  shows "(\<forall>ci\<in>set infos. case last_given (ci_name ci) as of None \<Rightarrow> s' (wanted_val ci) = s (wanted_val ci)
            | Some v \<Rightarrow> cmdl_value (ci_type ci) v = Some (s' (wanted_val ci)))"
  using assms
proof (induction infos as "(s, c)" arbitrary: s c rule: parse_generic_cmdline.induct)
  case (3 infos a v as s c)
  obtain ci s1 where f: "find (\<lambda>ci. ci_name ci = a) infos = Some ci" and st: "cmdl_store ci v s = Some s1"
    and rest: "parse_generic_cmdline infos as (s1, True) = Some (s', c')"
    using "3.prems"(1) by (auto split: option.splits)
  note IH = "3.hyps" [OF f _ rest "3.prems"(2), simplified, OF st]
  have ci: "ci \<in> set infos" "ci_name ci = a" using find_SomeD [OF f] by auto
  have pl: "ci_type ci \<noteq> CMDL_FLAG \<and> seen_val ci = []"
    using "3.prems"(2) ci(1) by (simp add: plain_table_def list_all_iff)
  obtain x where x: "cmdl_value (ci_type ci) v = Some x" "s1 = s(wanted_val ci := x)"
    using st pl by (auto simp: cmdl_store_def)
  have same: "e = ci" if "e \<in> set infos" "ci_name e = a" for e
    using find_named [of ci_name infos e] f that "3.prems"(2) by (simp add: plain_table_def)
  have apart: "wanted_val e \<noteq> wanted_val ci" if "e \<in> set infos" "e \<noteq> ci" for e
    using "3.prems"(2) that ci(1) by (auto simp: plain_table_def distinct_map inj_on_def)
  show ?case
  proof
    fix e assume e: "e \<in> set infos"
    show "case last_given (ci_name e) (a # v # as) of None \<Rightarrow> s' (wanted_val e) = s (wanted_val e)
            | Some v \<Rightarrow> cmdl_value (ci_type e) v = Some (s' (wanted_val e))"
    proof (cases "last_given (ci_name e) as")
      case (Some w)
      then show ?thesis using bspec [OF IH e] by (simp add: last_given_Cons)
    next
      case None
      then have kept: "s' (wanted_val e) = s1 (wanted_val e)" using bspec [OF IH e] by simp
      show ?thesis
      proof (cases "e = ci")
        case True
        then show ?thesis using None kept x ci(2) by (simp add: last_given_Cons)
      next
        case False
        then have "ci_name e \<noteq> a" "wanted_val e \<noteq> wanted_val ci" using same [OF e] apart [OF e] by auto
        then show ?thesis using None kept x(2) by (simp add: last_given_Cons)
      qed
    qed
  qed
qed (auto simp: last_given_def)

text \<open>In a table of flags the variables collect the flags that were named and those given as \<open>on\<close>.\<close>

definition flag_table :: "cmdline_info list \<Rightarrow> bool" where
  "flag_table infos \<longleftrightarrow> list_all (\<lambda>ci. ci_type ci = CMDL_FLAG) infos"

definition flags_in :: "store \<Rightarrow> cstr \<Rightarrow> u32" where "flags_in s x = of_int (cell_num (s x))"

definition gives_flag :: "cmdline_info list \<Rightarrow> cstr \<Rightarrow> nat \<Rightarrow> cstr \<times> cstr \<Rightarrow> bool" where
  "gives_flag infos x i g = (case find (\<lambda>ci. ci_name ci = fst g) infos of None \<Rightarrow> False
     | Some ci \<Rightarrow> bit (flag_val ci) i \<and> (seen_val ci = x \<or> wanted_val ci = x \<and> snd g = ''on''))"

lemma flags_in_or_cell: "flags_in (or_cell x b s) y = (if y = x then flags_in s x OR b else flags_in s y)"
  by (simp add: flags_in_def or_cell_def)

lemma parse_flags:
  assumes "parse_generic_cmdline infos as (s, c) = Some (s', c')" and "flag_table infos"
  shows "bit (flags_in s' x) i \<longleftrightarrow> bit (flags_in s x) i \<or> (\<exists>g\<in>set (arg_pairs as). gives_flag infos x i g)"
  using assms
proof (induction infos as "(s, c)" arbitrary: s c rule: parse_generic_cmdline.induct)
  case (3 infos a v as s c)
  obtain ci s1 where f: "find (\<lambda>ci. ci_name ci = a) infos = Some ci" and st: "cmdl_store ci v s = Some s1"
    and rest: "parse_generic_cmdline infos as (s1, True) = Some (s', c')"
    using "3.prems"(1) by (auto split: option.splits)
  note IH = "3.hyps" [OF f _ rest "3.prems"(2), simplified, OF st]
  have ci: "ci_type ci = CMDL_FLAG" using "3.prems"(2) find_SomeD [OF f] by (auto simp: flag_table_def list_all_iff)
  have "bit (flags_in s1 x) i \<longleftrightarrow> bit (flags_in s x) i \<or> gives_flag infos x i (a, v)"
    using st ci by (auto simp: cmdl_store_def flags_in_or_cell Let_def gives_flag_def f bit_or_iff split: if_splits)
  then show ?case using IH by auto
qed simp_all

text \<open>Some argument was given exactly if the parser noted a change.\<close>

lemma parse_changed:
  "parse_generic_cmdline infos as (s, c) = Some (s', c') \<Longrightarrow> c' \<longleftrightarrow> c \<or> as \<noteq> []"
proof (induction infos as "(s, c)" arbitrary: s c rule: parse_generic_cmdline.induct)
  case (3 infos a v as s c)
  then show ?case by (auto split: option.splits)
qed simp_all

end
