(* ===== verification/RxClass.thy ===== *)
theory RxClass
  imports RuleOptions EthCmdline
begin

text \<open>
  The commands of ethtool for receive rules and flow hashing (\<open>src/ethernet_test/ethtool/ethtool.c\<close>):
  \<open>do_srxclass\<close> and \<open>do_grxclass\<close>, the conversion of a rule to the older form of an n-tuple filter with
  inverted masks, and the options of flow hashing. Above them: printing a rule shows what was typed in, and
  the n-tuple filter matches the packets the rule matches.
\<close>

unbundle bit_operations_syntax

section \<open>N-tuple filters\<close>

record ntuple_spec =
  nt_flow_type :: u32
  nt_h_u :: "nat \<Rightarrow> u8"
  nt_m_u :: "nat \<Rightarrow> u8"
  nt_vlan_tag :: u16
  nt_vlan_tag_mask :: u16
  nt_data :: u64
  nt_data_mask :: u64
  nt_action :: int

text \<open>
  The extended fields. \<open>ntohl\<close> on the two bytes of the ethernet type leaves them in the upper half of the
  32 bits.
\<close>

definition ntuple_ext :: "flow_spec \<Rightarrow> ntuple_spec \<Rightarrow> ntuple_spec" where
  "ntuple_ext p nt =
     (let nt = nt\<lparr>nt_vlan_tag := of_nat (be16_at p 66), nt_vlan_tag_mask := NOT (of_nat (be16_at p 138))\<rparr> in
      if be16_at p 136 \<noteq> 0
      then nt\<lparr>nt_data := of_nat (be_value (get_field 64 2 p @ [0, 0])),
              nt_data_mask := NOT (of_nat (be_value (get_field 136 2 p @ [0, 0])))\<rparr>
      else nt\<lparr>nt_data := of_nat (be32_at p 68 * 2 ^ 32 + be32_at p 72),
              nt_data_mask := of_nat (be32_at (\<lambda>k. NOT (p k)) 140 * 2 ^ 32 + be32_at (\<lambda>k. NOT (p k)) 144)\<rparr>)"

definition flow_spec_to_ntuple :: "flow_spec \<Rightarrow> ntuple_spec option" where
  "flow_spec_to_ntuple p =
     (let ring = le_value (get_field 152 8 p); ext = FLOW_EXT \<le> u32_at p 0 in
      if u32_at p 160 \<noteq> unat RX_CLS_LOC_ANY then None
      else if 2 ^ 31 - 1 < ring \<and> ring < 2 ^ 64 - 2 then None
      else if ext \<and> (be32_at p 140 \<noteq> 0 \<or> be32_at p 144 \<noteq> 0) \<and> be16_at p 136 \<noteq> 0 then None
      else
        let nt = \<lparr>nt_flow_type = of_nat (u32_at p 0),
                  nt_h_u = (\<lambda>k. if k < 60 then p (4 + k) else 0xFF),
                  nt_m_u = (\<lambda>k. if k < 60 then p (76 + k) XOR 0xFF else 0xFF),
                  nt_vlan_tag = 0xFFFF, nt_vlan_tag_mask = 0xFFFF, nt_data = - 1, nt_data_mask = - 1,
                  nt_action = to_int32 (int ring)\<rparr>;
            nt = (if ext then ntuple_ext p nt else nt)
        in Some (nt\<lparr>nt_flow_type := nt_flow_type nt AND NOT 0x80000000\<rparr>))"

text \<open>
  Sending the filter: \<open>gflags\<close> is what the device reports, None for a failed \<open>ioctl\<close>, and \<open>add nt\<close>
  whether the device takes the filter. The result and the filter sent, if one was.
\<close>

abbreviation ETH_FLAG_NTUPLE :: u32 where "ETH_FLAG_NTUPLE \<equiv> 0x8000000"

definition do_srxntuple :: "u32 option \<Rightarrow> (ntuple_spec \<Rightarrow> bool) \<Rightarrow> flow_spec \<Rightarrow> int \<times> ntuple_spec option" where
  "do_srxntuple gflags add p =
     (case flow_spec_to_ntuple p of None \<Rightarrow> (- 1, None)
      | Some nt \<Rightarrow>
          (case gflags of None \<Rightarrow> (- 1, None)
           | Some flags \<Rightarrow>
               if flags AND ETH_FLAG_NTUPLE = 0 then (- 1, None)
               else if add nt then (0, Some nt) else (- 1, Some nt)))"


section \<open>Flow hashing\<close>

definition rxflow_str_to_type :: "cstr \<Rightarrow> nat" where
  "rxflow_str_to_type str =
     (if str = ''tcp4'' then 0x01 else if str = ''udp4'' then 0x02
      else if str = ''ah4'' \<or> str = ''esp4'' then 0x04 else if str = ''sctp4'' then 0x03
      else if str = ''tcp6'' then 0x05 else if str = ''udp6'' then 0x06
      else if str = ''ah6'' \<or> str = ''esp6'' then 0x08 else if str = ''sctp6'' then 0x07
      else if str = ''ether'' then 0x12 else 0)"

text \<open>The letters of the options with their flags and texts, in the order they are printed.\<close>

definition rxh_flags :: "(char \<times> u32 \<times> cstr) list" where
  "rxh_flags =
     [(CHR ''m'', 0x02, ''L2DA''), (CHR ''v'', 0x04, ''VLAN tag''), (CHR ''t'', 0x08, ''L3 proto''),
      (CHR ''s'', 0x10, ''IP SA''), (CHR ''d'', 0x20, ''IP DA''),
      (CHR ''f'', 0x40, ''L4 bytes 0 & 1 [TCP/UDP src port]''), (CHR ''n'', 0x80, ''L4 bytes 2 & 3 [TCP/UDP dst port]'')]"

abbreviation RXH_DISCARD :: u32 where "RXH_DISCARD \<equiv> 0x80000000"

definition rxh_letter :: "char \<Rightarrow> u32 option" where
  "rxh_letter c = (if c = CHR ''r'' then Some RXH_DISCARD else map_option fst (map_of rxh_flags c))"

fun parse_rxfhashopts :: "cstr \<Rightarrow> u32 \<Rightarrow> u32 option" where
  "parse_rxfhashopts [] d = Some d"
| "parse_rxfhashopts (c # s) d =
     (case rxh_letter c of None \<Rightarrow> None | Some b \<Rightarrow> parse_rxfhashopts s (d OR b))"

definition unparse_rxfhashopts :: "u64 \<Rightarrow> cstr" where
  "unparse_rxfhashopts opts =
     (if opts \<noteq> 0 then concat (map (\<lambda>(c, b, t). if opts AND ucast b \<noteq> 0 then t @ nl else []) rxh_flags)
      else ''None'')"

definition dump_rxfhash :: "nat \<Rightarrow> u64 \<Rightarrow> cstr" where
  "dump_rxfhash fhash val =
     (if fhash = 1 then ''TCP over IPV4 flows'' else if fhash = 2 then ''UDP over IPV4 flows''
      else if fhash = 3 then ''SCTP over IPV4 flows''
      else if fhash \<in> {4, 9, 10} then ''IPSEC AH/ESP over IPV4 flows''
      else if fhash = 5 then ''TCP over IPV6 flows'' else if fhash = 6 then ''UDP over IPV6 flows''
      else if fhash = 7 then ''SCTP over IPV6 flows''
      else if fhash \<in> {8, 11, 12} then ''IPSEC AH/ESP over IPV6 flows'' else []) @
     (if val AND scast RXH_DISCARD \<noteq> 0 then '' - All matching flows discarded on RX'' @ nl
      else '' use these fields for computing Hash flow key:'' @ nl @ unparse_rxfhashopts val @ nl)"


section \<open>Commands\<close>

text \<open>The device; the operations return None when the \<open>ioctl\<close> fails; setting the hash options has no result that matters.\<close>

record rxnfc_dev =
  nfc_rules :: rx_driver
  nfc_ins :: "flow_spec \<Rightarrow> u32 \<Rightarrow> u32 option"
  nfc_del :: "u32 \<Rightarrow> bool"
  nfc_rule :: "u32 \<Rightarrow> flow_spec option"
  nfc_rings :: "u64 option"
  nfc_grxfh :: "nat \<Rightarrow> u64 option"
  nfc_gflags :: "u32 option"
  nfc_ntuple :: "ntuple_spec \<Rightarrow> bool"

definition rxclass_rule_del :: "(u32 \<Rightarrow> bool) \<Rightarrow> u32 \<Rightarrow> int" where
  "rxclass_rule_del del loc = (if del loc then 0 else - 1)"

text \<open>
  What a command does: a usage error, or a status, the output and the requests that change the device, in
  order, those that fail included.
\<close>

datatype nfc_req = Srxfh nat u32 | Srxntuple ntuple_spec | Srxclsrlins flow_spec u32 | Srxclsrldel u32

datatype rx_outcome = Bad_args cstr | Status int cstr "nfc_req list"

text \<open>Adding a rule. None stands for the access out of bounds of the rule manager.\<close>

definition add_rule :: "rxnfc_dev \<Rightarrow> flow_spec \<Rightarrow> rx_outcome option" where
  "add_rule D p =
     (case do_srxntuple (nfc_gflags D) (nfc_ntuple D) p of (err, nt) \<Rightarrow>
        let reqs = (case nt of None \<Rightarrow> [] | Some n \<Rightarrow> [Srxntuple n]) in
        if err = 0 then Some (Status 0 [] reqs)
        else map_option (\<lambda>(err, out, sent). Status (if err < 0 then 1 else 0) out
                 (reqs @ (case sent of None \<Rightarrow> [] | Some l \<Rightarrow> [Srxclsrlins p l])))
               (rxclass_rule_ins (nfc_rules D) (nfc_ins D p) (of_nat (u32_at p 160))))"

definition do_srxclass :: "rxnfc_dev \<Rightarrow> cstr list \<Rightarrow> rx_outcome option" where
  "do_srxclass D args =
     (if length args < 2 then Some (Bad_args [])
      else if length args = 3 \<and> args ! 0 = ''rx-flow-hash'' then
        (let t = rxflow_str_to_type (args ! 1) in
         if t = 0 then Some (Bad_args [])
         else case parse_rxfhashopts (args ! 2) 0 of None \<Rightarrow> Some (Bad_args [])
              | Some v \<Rightarrow> Some (Status 0 [] [Srxfh t v]))
      else if args ! 0 = ''flow-type'' then
        (case rxclass_parse_ruleopts (tl args) of Inl out \<Rightarrow> Some (Bad_args out) | Inr p \<Rightarrow> add_rule D p)
      else if args ! 0 = ''delete'' then
        (case get_uint_range (args ! 1) 0 0x7FFFFFFF of None \<Rightarrow> Some (Bad_args [])
         | Some loc \<Rightarrow> Some (Status (if rxclass_rule_del (nfc_del D) (ucast loc) < 0 then 1 else 0) [] [Srxclsrldel (ucast loc)]))
      else Some (Bad_args []))"

definition do_grxclass :: "rxnfc_dev \<Rightarrow> cstr list \<Rightarrow> rx_outcome" where
  "do_grxclass D args =
     (if length args = 2 \<and> args ! 0 = ''rx-flow-hash'' then
        (let t = rxflow_str_to_type (args ! 1) in
         if t = 0 then Bad_args []
         else case nfc_grxfh D t of None \<Rightarrow> Status 1 [] [] | Some d \<Rightarrow> Status 0 (dump_rxfhash t d) [])
      else if length args = 2 \<and> args ! 0 = ''rule'' then
        (case get_uint_range (args ! 1) 0 0x7FFFFFFF of None \<Rightarrow> Bad_args []
         | Some loc \<Rightarrow> (case rxclass_rule_get (nfc_rule D) (ucast loc) of (err, out) \<Rightarrow> Status (if err \<noteq> 0 then 1 else 0) out []))
      else if args = [] then
        (let rings = (case nfc_rings D of None \<Rightarrow> [] | Some d \<Rightarrow> fmt_d (sint (ucast d :: u32)) @ '' RX rings available'' @ nl) in
         case rxclass_rule_getall (nfc_rules D) (nfc_rule D) of (err, out) \<Rightarrow> Status (if err \<noteq> 0 then 1 else 0) (rings @ out) [])
      else Bad_args [])"



section \<open>Printing what was typed in\<close>

text \<open>A rule for TCP with all its fields as a command line, and the bytes it is stored as.\<close>

definition tcp4_args :: "u8 list \<Rightarrow> u8 list \<Rightarrow> u16 \<Rightarrow> u16 \<Rightarrow> u16 \<Rightarrow> u64 \<Rightarrow> u64 \<Rightarrow> u32 \<Rightarrow> cstr list" where
  "tcp4_args s d sp dp vl u q l =
     [''tcp4'', ''src-ip'', inet_ntop4 s, ''dst-ip'', inet_ntop4 d, ''src-port'', fmt_u (unat sp),
      ''dst-port'', fmt_u (unat dp), ''vlan'', hx (unat vl), ''user-def'', hx (unat u), ''action'', fmt_u (unat q),
      ''loc'', fmt_u (unat l)]"

definition tcp4_spec :: "u8 list \<Rightarrow> u8 list \<Rightarrow> u16 \<Rightarrow> u16 \<Rightarrow> u16 \<Rightarrow> u64 \<Rightarrow> u64 \<Rightarrow> u32 \<Rightarrow> flow_spec" where
  "tcp4_spec s d sp dp vl u q l =
     put_field 0 (le_bytes 4 (int (1 + FLOW_EXT)))
      (put_field 160 (le_bytes 4 (uint l))
       (put_field 152 (le_bytes 8 (uint q))
        (put_field 140 (replicate 8 0xFF) (put_field 68 (be_bytes 8 (uint u))
         (put_field 138 (replicate 2 0xFF) (put_field 66 (be_bytes 2 (uint vl))
          (put_field 86 (replicate 2 0xFF) (put_field 14 (be_bytes 2 (uint dp))
           (put_field 84 (replicate 2 0xFF) (put_field 12 (be_bytes 2 (uint sp))
            (put_field 80 (replicate 4 0xFF) (put_field 8 d
             (put_field 76 (replicate 4 0xFF) (put_field 4 s (empty_spec 1)))))))))))))))"

lemma parse_tcp4_args:
  assumes "length s = 4" and "length d = 4"
  shows "rxclass_parse_ruleopts (tcp4_args s d sp dp vl u q l) = Inr (tcp4_spec s d sp dp vl u q l)"
  using assms
  by (simp add: rxclass_parse_ruleopts_def tcp4_args_def flow_types_def rule_nfc_tcp_ip4_def rule_ext_def
     get_val_typed opt_bytes_typed opt_bytes_ip4 finish_spec_def put_mask_def
     tcp4_spec_def
    del: opt_bytes.simps)

lemma get_invert:
  "76 \<le> off \<Longrightarrow> off + n \<le> 136 \<Longrightarrow> get_field off n (invert_flow_mask p) = map (\<lambda>b. b XOR 0xFF) (get_field off n p)"
  "off + n \<le> 76 \<or> 136 \<le> off \<Longrightarrow> get_field off n (invert_flow_mask p) = get_field off n p"
  by (auto simp: get_field_def invert_flow_mask_def)

lemma get_not: "get_field off n (\<lambda>k. NOT (p k)) = map (\<lambda>b. NOT b) (get_field off n p)"
  by (simp add: get_field_def)

lemma byte_field: "p k = hd (get_field k 1 p)"
  by (simp add: get_field_def)

lemmas field_simps4 = get_put_field get_put_other get_field_zero get_invert get_not

lemma tcp4_spec_fields:
  assumes "length s = 4" and "length d = 4"
    and p: "p = tcp4_spec s d sp dp vl u q l"
  shows "get_field 0 4 p = le_bytes 4 (int (1 + FLOW_EXT))"
    "get_field 4 4 p = s" "get_field 8 4 p = d" "get_field 12 2 p = be_bytes 2 (uint sp)" "get_field 14 2 p = be_bytes 2 (uint dp)"
    "get_field 16 1 p = [0]" "get_field 64 2 p = replicate 2 0" "get_field 66 2 p = be_bytes 2 (uint vl)"
    "get_field 68 8 p = be_bytes 8 (uint u)" "get_field 76 4 p = replicate 4 0xFF" "get_field 80 4 p = replicate 4 0xFF"
    "get_field 84 2 p = replicate 2 0xFF" "get_field 86 2 p = replicate 2 0xFF" "get_field 88 1 p = [0]"
    "get_field 136 2 p = replicate 2 0" "get_field 138 2 p = replicate 2 0xFF" "get_field 140 8 p = replicate 8 0xFF"
    "get_field 152 8 p = le_bytes 8 (uint q)" "get_field 160 4 p = le_bytes 4 (uint l)"
  using assms(1,2) unfolding p tcp4_spec_def empty_spec_def
  by (simp_all add: field_simps4)

lemma all_ones: "(- 256 :: u8) = 0"
  by simp

text \<open>The display of the rule: all but the upper half of the user data.\<close>

definition tcp4_text :: "u8 list \<Rightarrow> u8 list \<Rightarrow> u16 \<Rightarrow> u16 \<Rightarrow> u16 \<Rightarrow> u64 \<Rightarrow> u64 \<Rightarrow> u32 \<Rightarrow> cstr" where
  "tcp4_text s d sp dp vl u q l =
     ''Filter: '' @ fmt_d (sint l) @ nl @
     tab @ ''Rule Type: TCP over IPv4'' @ nl @
     tab @ ''Src IP addr: '' @ inet_ntop4 s @ '' mask: 0.0.0.0'' @ nl @
     tab @ ''Dest IP addr: '' @ inet_ntop4 d @ '' mask: 0.0.0.0'' @ nl @
     tab @ ''TOS: 0x0 mask: 0xff'' @ nl @
     tab @ ''Src port: '' @ fmt_u (unat sp) @ '' mask: 0x0'' @ nl @
     tab @ ''Dest port: '' @ fmt_u (unat dp) @ '' mask: 0x0'' @ nl @
     tab @ ''VLAN EtherType: 0x0 mask: 0xffff'' @ nl @
     tab @ ''VLAN: '' @ hx (unat vl) @ '' mask: 0x0'' @ nl @
     tab @ ''User-defined: '' @ hx (unat u mod 2 ^ 32) @ '' mask: 0x0'' @ nl @
     tab @ (if q = - 1 then ''Action: Drop'' else ''Action: Direct to queue '' @ fmt_u (unat q)) @ nl @ nl"

lemma print_tcp4_spec:
  assumes "length s = 4" and "length d = 4"
  shows "rxclass_print_rule (tcp4_spec s d sp dp vl u q l) = tcp4_text s d sp dp vl u q l"
proof -
  define p where "p = tcp4_spec s d sp dp vl u q l"
  define r where "r = invert_flow_mask p"
  note f = tcp4_spec_fields [OF assms p_def]
  have zeros: "inet_ntop4 (replicate 4 0) = ''0.0.0.0''" "hx 0 = ''0x0''" "hx 255 = ''0xff''" "hx 65535 = ''0xffff''"
    by (simp_all add: inet_ntop4_def fmt_u_def hx_def fmt_base_def digits_of.simps digit_char_nth)
  have t: "u32_at p 0 = 1 + FLOW_EXT" "u32_at r 0 = 1 + FLOW_EXT" 
    by (simp_all add: r_def u32_at_def f get_invert le_value_bytes FLOW_EXT_def)
  have l: "to_int32 (int (u32_at p 160)) = sint l" by (simp add: u32_at_def f word_bytes_value sint_uint_32)
  have ring: "le_value (get_field 152 8 r) = unat q" by (simp add: r_def get_invert f word_bytes_value)
  have b: "be16_at r 12 = unat sp" "be16_at r 14 = unat dp" "be16_at r 66 = unat vl" "be16_at r 64 = 0"
    by (simp_all add: r_def get_invert be16_at_def f word_bytes_value be_value_zeros)
  have z: "r 16 = 0" "r 88 = 0xFF" 
    using byte_field [of p 16, unfolded f(6)] byte_field [of p 88, unfolded f(14)] by (simp_all add: r_def invert_flow_mask_def)
  have u: "be32_at r 72 = unat u mod 2 ^ 32"
    using get_field_drop [of 4 8 68 p] by (simp add: r_def get_invert be32_at_def f drop_be_bytes be_value_bytes unat_mod_32)
  have a: "get_field 4 4 r = s" "get_field 8 4 r = d" "get_field 76 4 r = replicate 4 0" "get_field 80 4 r = replicate 4 0"
    "be16_at r 84 = 0" "be16_at r 86 = 0"
    by (simp_all add: r_def get_invert be16_at_def f be_value_zeros)
  have m: "be16_at (\<lambda>k. NOT (r k)) 136 = 65535" "be16_at (\<lambda>k. NOT (r k)) 138 = 0"
    "be32_at (\<lambda>k. NOT (r k)) 140 = 0" "be32_at (\<lambda>k. NOT (r k)) 144 = 0"
    using get_field_drop [of 4 8 140 p] get_field_take [of 4 8 140 p] be_value_ones
    by (simp_all add: all_ones r_def get_invert be16_at_def be32_at_def get_not f be_value_zeros)
  have "(- 1 :: u64) = 18446744073709551615" by simp
  then have q: "unat q = 18446744073709551615 \<longleftrightarrow> q = - 1" by (simp only: word_unat_eq_iff) simp
  have "rxclass_print_rule p = rxclass_print_nfc_rule p" by (simp add: rxclass_print_rule_def t FLOW_EXT_def)
  moreover have ip: "ipv4_rule_text r = tab @ ''Src IP addr: '' @ inet_ntop4 s @ '' mask: 0.0.0.0'' @ nl @
     tab @ ''Dest IP addr: '' @ inet_ntop4 d @ '' mask: 0.0.0.0'' @ nl @ tab @ ''TOS: 0x0 mask: 0xff'' @ nl" 
    by (simp add: ipv4_rule_text_def a z zeros)
  moreover have ex: "nfc_spec_ext_text r = tab @ ''VLAN EtherType: 0x0 mask: 0xffff'' @ nl @
     tab @ ''VLAN: '' @ hx (unat vl) @ '' mask: 0x0'' @ nl @
     tab @ ''User-defined: '' @ hx (unat u mod 2 ^ 32) @ '' mask: 0x0'' @ nl"
    by (simp add: nfc_spec_ext_text_def t b u m zeros)
  ultimately show ?thesis
    unfolding p_def [symmetric]
    by (simp add: tcp4_text_def rxclass_print_nfc_rule_def r_def [symmetric] t l ring b a zeros nfc_body_text_def FLOW_EXT_def q Let_def)
qed





section \<open>The packets that match\<close>

text \<open>
  What a rule promises, after the documentation of the two structures in \<open>ethtool-copy.h\<close>. The
  masks of a rule tell the bits to compare and those of an n-tuple filter the bits to ignore; for TCP,
  UDP and SCTP a field of the filter whose value and mask are both zero is ignored as a whole. A packet is seen
  as its header fields in the layout of the type, its VLAN tag and the data of the driver.
\<close>

record packet_view =
  pk_hdr :: "nat \<Rightarrow> u8"
  pk_vlan :: u16
  pk_data :: u64

definition rule_matches :: "flow_spec \<Rightarrow> packet_view \<Rightarrow> bool" where
  "rule_matches p pk \<longleftrightarrow>
     list_all (\<lambda>k. pk_hdr pk k AND p (76 + k) = p (4 + k) AND p (76 + k)) [0..<60] \<and>
     (FLOW_EXT \<le> u32_at p 0 \<longrightarrow>
        pk_vlan pk AND of_nat (be16_at p 138) = of_nat (be16_at p 66) AND of_nat (be16_at p 138) \<and>
        pk_data pk AND of_nat (be_value (get_field 140 8 p)) =
          of_nat (be_value (get_field 68 8 p)) AND of_nat (be_value (get_field 140 8 p)))"

definition nt_fields :: "(nat \<times> nat) list" where
  "nt_fields = [(0, 4), (4, 4), (8, 2), (10, 2), (12, 1)]"

definition nt_ignored :: "ntuple_spec \<Rightarrow> nat \<Rightarrow> bool" where
  "nt_ignored nt k \<longleftrightarrow> nt_flow_type nt \<in> {1, 2, 3} \<and>
     list_ex (\<lambda>(a, n). a \<le> k \<and> k < a + n \<and> list_all (\<lambda>j. nt_h_u nt j = 0 \<and> nt_m_u nt j = 0) [a..<a + n]) nt_fields"

definition nt_matches :: "ntuple_spec \<Rightarrow> packet_view \<Rightarrow> bool" where
  "nt_matches nt pk \<longleftrightarrow>
     list_all (\<lambda>k. nt_ignored nt k \<or> pk_hdr pk k OR nt_m_u nt k = nt_h_u nt k OR nt_m_u nt k) [0..<72] \<and>
     pk_vlan pk OR nt_vlan_tag_mask nt = nt_vlan_tag nt OR nt_vlan_tag_mask nt \<and>
     pk_data pk OR nt_data_mask nt = nt_data nt OR nt_data_mask nt"

text \<open>A rule of these types that asks for a field to be zero.\<close>

definition asks_zero :: "flow_spec \<Rightarrow> bool" where
  "asks_zero p \<longleftrightarrow> u32_at p 0 mod FLOW_EXT \<in> {1, 2, 3} \<and>
     list_ex (\<lambda>(a, n). list_all (\<lambda>k. p (4 + k) = 0 \<and> p (76 + k) = 0xFF) [a..<a + n]) nt_fields"

lemma or_not_eq_iff_and:
  fixes a b m :: "'a::len word"
  shows "a OR NOT m = b OR NOT m \<longleftrightarrow> a AND m = b AND m"
  by (auto simp: bit_eq_iff bit_simps)

lemma xor_ones_not: "(m :: u8) XOR 0xFF = NOT m"
proof -
  have "(0xFF :: u8) = - 1" by simp
  then show ?thesis by (simp only:) (simp add: bit_eq_iff bit_simps)
qed

lemma ntuple_header:
  assumes "flow_spec_to_ntuple p = Some nt"
  shows "nt_h_u nt = (\<lambda>k. if k < 60 then p (4 + k) else 0xFF)"
    and "nt_m_u nt = (\<lambda>k. if k < 60 then NOT (p (76 + k)) else 0xFF)"
    and "nt_action nt = to_int32 (int (le_value (get_field 152 8 p)))"
  using assms by (auto simp: flow_spec_to_ntuple_def ntuple_ext_def Let_def xor_ones_not split: if_splits)

lemma of_nat_mod_exp: "(of_nat (n mod 2147483648) :: u32) = take_bit 31 (of_nat n)"
  by (simp add: take_bit_nat_def flip: of_nat_take_bit)

lemma ntuple_type:
  assumes "flow_spec_to_ntuple p = Some nt"
  shows "nt_flow_type nt = of_nat (u32_at p 0 mod FLOW_EXT)"
proof -
  have "(NOT 0x80000000 :: u32) = mask 31" by (simp add: mask_eq_exp_minus_1)
  then have "of_nat (u32_at p 0) AND NOT 0x80000000 = (of_nat (u32_at p 0 mod FLOW_EXT) :: u32)"
    by (simp only: take_bit_eq_mask [symmetric]) (simp add: of_nat_mod_exp FLOW_EXT_def)
  then show ?thesis using assms by (auto simp: flow_spec_to_ntuple_def ntuple_ext_def Let_def split: if_splits)
qed

lemma byte_ones: "(0xFF :: u8) = - 1"
  by simp

lemma not_byte_zero: "NOT (b :: u8) = 0 \<longleftrightarrow> b = 0xFF"
  unfolding byte_ones by (auto simp: bit_eq_iff bit_simps)

lemma or_ones_byte: "(b :: u8) OR 0xFF = 0xFF"
  unfolding byte_ones by (auto simp: bit_eq_iff bit_simps)

lemma ntuple_ignored:
  assumes "flow_spec_to_ntuple p = Some nt" and "\<not> asks_zero p"
  shows "\<not> nt_ignored nt k"
proof
  assume ign: "nt_ignored nt k"
  define t where "t = u32_at p 0 mod FLOW_EXT"
  have "unat (of_nat t :: u32) = t" by (simp add: unat_of_nat t_def FLOW_EXT_def)
  then have "nt_flow_type nt \<in> {1, 2, 3} \<longrightarrow> t \<in> {1, 2, 3}" using ntuple_type [OF assms(1)] by (auto simp: t_def)
  moreover obtain a n where an: "(a, n) \<in> set nt_fields"
    and z: "\<forall>j\<in>{a..<a + n}. nt_h_u nt j = 0 \<and> nt_m_u nt j = 0"
    using ign by (auto simp: nt_ignored_def list_ex_iff list_all_iff)
  have "j < 60" if "j \<in> {a..<a + n}" for j using an that by (auto simp: nt_fields_def)
  then have "\<forall>j\<in>{a..<a + n}. p (4 + j) = 0 \<and> p (76 + j) = 0xFF"
    using z ntuple_header(1,2) [OF assms(1)] by (simp add: not_byte_zero)
  ultimately show False using ign assms(2) an
    by (auto simp: asks_zero_def t_def nt_ignored_def list_ex_iff list_all_iff)
qed

lemma ntuple_extended:
  assumes "flow_spec_to_ntuple p = Some nt" and "be16_at p 136 = 0"
  shows "pk_vlan pk OR nt_vlan_tag_mask nt = nt_vlan_tag nt OR nt_vlan_tag_mask nt \<longleftrightarrow>
      (FLOW_EXT \<le> u32_at p 0 \<longrightarrow> pk_vlan pk AND of_nat (be16_at p 138) = of_nat (be16_at p 66) AND of_nat (be16_at p 138))"
    and "pk_data pk OR nt_data_mask nt = nt_data nt OR nt_data_mask nt \<longleftrightarrow>
      (FLOW_EXT \<le> u32_at p 0 \<longrightarrow>
        pk_data pk AND of_nat (be_value (get_field 140 8 p)) =
          of_nat (be_value (get_field 68 8 p)) AND of_nat (be_value (get_field 140 8 p)))"
proof -
  have two: "be32_at q a * 2 ^ 32 + be32_at q (a + 4) = be_value (get_field a 8 q)" for q a
    using get_field_append [of a 4 4 q] by (simp add: be32_at_def be_value_append)
  have d: "be32_at p 68 * 2 ^ 32 + be32_at p 72 = be_value (get_field 68 8 p)" using two [of p 68] by simp
  have dm: "(of_nat (be32_at (\<lambda>k. NOT (p k)) 140 * 2 ^ 32 + be32_at (\<lambda>k. NOT (p k)) 144) :: u64) =
      NOT (of_nat (be_value (get_field 140 8 p)))"
    using two [of "\<lambda>k. NOT (p k)" 140] of_nat_be_not [where 'a=64, of "get_field 140 8 p"] by (simp only: get_not) simp
  have ones: "(0xFFFF :: u16) = - 1" by simp
  have e: "nt_vlan_tag nt = of_nat (be16_at p 66) \<and> nt_vlan_tag_mask nt = NOT (of_nat (be16_at p 138)) \<and>
      nt_data nt = of_nat (be_value (get_field 68 8 p)) \<and> nt_data_mask nt = NOT (of_nat (be_value (get_field 140 8 p)))"
    if "FLOW_EXT \<le> u32_at p 0"
    using assms that unfolding flow_spec_to_ntuple_def ntuple_ext_def Let_def d dm by (auto split: if_splits)
  have n: "nt_vlan_tag_mask nt = - 1 \<and> nt_vlan_tag nt = - 1 \<and> nt_data_mask nt = - 1 \<and> nt_data nt = - 1"
    if "\<not> FLOW_EXT \<le> u32_at p 0"
    using assms that ones by (auto simp: flow_spec_to_ntuple_def Let_def split: if_splits)
  show "pk_vlan pk OR nt_vlan_tag_mask nt = nt_vlan_tag nt OR nt_vlan_tag_mask nt \<longleftrightarrow>
      (FLOW_EXT \<le> u32_at p 0 \<longrightarrow> pk_vlan pk AND of_nat (be16_at p 138) = of_nat (be16_at p 66) AND of_nat (be16_at p 138))"
    using e n by (cases "FLOW_EXT \<le> u32_at p 0") (simp_all add: or_not_eq_iff_and)
  show "pk_data pk OR nt_data_mask nt = nt_data nt OR nt_data_mask nt \<longleftrightarrow>
      (FLOW_EXT \<le> u32_at p 0 \<longrightarrow>
        pk_data pk AND of_nat (be_value (get_field 140 8 p)) =
          of_nat (be_value (get_field 68 8 p)) AND of_nat (be_value (get_field 140 8 p)))"
    using e n by (cases "FLOW_EXT \<le> u32_at p 0") (simp_all add: or_not_eq_iff_and)
qed

text \<open>C32: the n-tuple filter that a rule is converted to matches exactly the packets that the rule
  matches, although its masks have the opposite meaning, provided that the rule has no mask for the ethernet type of
  the tag and does not ask for a field of a TCP, UDP or SCTP packet to be zero, which an n-tuple filter
  cannot tell from a field it ignores. It has the type of the rule without the flag for extended
  fields, and the queue as its action.\<close>

theorem ntuple_matches_rule:
  assumes "flow_spec_to_ntuple p = Some nt" and "be16_at p 136 = 0" and "\<not> asks_zero p"
  shows "(nt_matches nt pk \<longleftrightarrow> rule_matches p pk) \<and> nt_flow_type nt = of_nat (u32_at p 0 mod FLOW_EXT) \<and>
         nt_action nt = to_int32 (int (le_value (get_field 152 8 p)))"
proof -
  have "nt_ignored nt k \<or> pk_hdr pk k OR nt_m_u nt k = nt_h_u nt k OR nt_m_u nt k \<longleftrightarrow>
      (k < 60 \<longrightarrow> pk_hdr pk k AND p (76 + k) = p (4 + k) AND p (76 + k))" for k
    using ntuple_ignored [OF assms(1,3)] ntuple_header(1,2) [OF assms(1)] by (simp add: or_not_eq_iff_and or_ones_byte)
  then have "list_all (\<lambda>k. nt_ignored nt k \<or> pk_hdr pk k OR nt_m_u nt k = nt_h_u nt k OR nt_m_u nt k) [0..<72] \<longleftrightarrow>
      list_all (\<lambda>k. pk_hdr pk k AND p (76 + k) = p (4 + k) AND p (76 + k)) [0..<60]"
    unfolding list_all_upt_iff by auto
  then show ?thesis
    using ntuple_extended [OF assms(1,2), of pk] ntuple_type [OF assms(1)] ntuple_header(3) [OF assms(1)]
    by (auto simp: nt_matches_def rule_matches_def)
qed


definition udp4_rule :: flow_spec where
  "udp4_rule = put_field 152 (le_bytes 8 3) (put_field 86 [0xFF, 0xFF] (put_field 14 [0, 80] (empty_spec 2)))"

lemma udp4_rule_fields:
  "u32_at udp4_rule 0 = 2" "u32_at udp4_rule 160 = unat RX_CLS_LOC_ANY" "le_value (get_field 152 8 udp4_rule) = 3"
  "be16_at udp4_rule 136 = 0"
  by (simp_all add: udp4_rule_def empty_spec_def u32_at_def be16_at_def field_simps4 le_value_bytes be_value_zeros
      RX_CLS_LOC_ANY_def)

theorem ntuple_matches_rule_witness:
  "\<exists>nt. flow_spec_to_ntuple udp4_rule = Some nt \<and> nt_action nt = 3 \<and>
     (nt_matches nt \<lparr>pk_hdr = (\<lambda>k. if k = 11 then 80 else 9), pk_vlan = 0, pk_data = 0\<rparr> \<longleftrightarrow>
      rule_matches udp4_rule \<lparr>pk_hdr = (\<lambda>k. if k = 11 then 80 else 9), pk_vlan = 0, pk_data = 0\<rparr>)"
proof -
  have "flow_spec_to_ntuple udp4_rule \<noteq> None"
    by (simp add: flow_spec_to_ntuple_def udp4_rule_fields FLOW_EXT_def Let_def)
  then obtain nt where nt: "flow_spec_to_ntuple udp4_rule = Some nt" by auto
  have "\<not> asks_zero udp4_rule"
    by (simp add: asks_zero_def nt_fields_def udp4_rule_def put_field_def empty_spec_bytes upt_rec)
  from ntuple_matches_rule [OF nt udp4_rule_fields(4) this] nt show ?thesis
    by (intro exI [of _ nt]) (simp add: udp4_rule_fields to_int32_def)
qed



section \<open>A rule is added once\<close>

definition nfc_accepts :: "rxnfc_dev \<Rightarrow> nfc_req \<Rightarrow> bool" where
  "nfc_accepts D req = (case req of
     Srxfh t v \<Rightarrow> True | Srxntuple nt \<Rightarrow> nfc_ntuple D nt
   | Srxclsrlins p l \<Rightarrow> nfc_ins D p l \<noteq> None | Srxclsrldel l \<Rightarrow> nfc_del D l)"

lemma rxclass_rule_ins_status:
  "rxclass_rule_ins D ins loc = Some (err, out, sent) \<Longrightarrow> (err < 0 \<longleftrightarrow> sent = None)"
  by (auto simp: rxclass_rule_ins_def Let_def split: option.splits if_splits)

lemma do_srxntuple_cases:
  assumes "do_srxntuple gflags add p = (err, nt)"
  shows "(err = 0 \<and> (\<exists>n. nt = Some n \<and> flow_spec_to_ntuple p = Some n \<and> add n)) \<or>
         (err = - 1 \<and> (\<forall>n. nt = Some n \<longrightarrow> flow_spec_to_ntuple p = Some n \<and> \<not> add n))"
  using assms by (auto simp: do_srxntuple_def split: option.splits if_splits)

text \<open>C33: adding a rule offers it to the device as an n-tuple filter at most once and as a rule at most
  once, and the second only after the first was not possible or was refused, so the device never takes it twice. The
  filter is the conversion of the rule that was parsed. With status 1 no rule was sent to the rule
  interface and nothing was taken; the status is 0 whenever one was sent, even if the device refused it.\<close>

theorem rule_added_once:
  assumes "do_srxclass D (''flow-type'' # args) = Some (Status st out reqs)"
  shows "\<exists>p. rxclass_parse_ruleopts args = Inr p \<and> length (filter (nfc_accepts D) reqs) \<le> 1 \<and>
         (st = 0 \<or> st = 1 \<and> filter (nfc_accepts D) reqs = []) \<and>
         (\<exists>nts ls. reqs = map Srxntuple nts @ map (Srxclsrlins p) ls \<and> length nts \<le> 1 \<and> length ls \<le> 1 \<and>
            set nts \<subseteq> set_option (flow_spec_to_ntuple p) \<and> (ls \<noteq> [] \<longrightarrow> st = 0 \<and> list_all (\<lambda>n. \<not> nfc_ntuple D n) nts))"
proof -
  obtain p where p: "rxclass_parse_ruleopts args = Inr p" and add: "add_rule D p = Some (Status st out reqs)"
    using assms by (auto simp: do_srxclass_def split: if_splits sum.splits)
  obtain err nt where nt: "do_srxntuple (nfc_gflags D) (nfc_ntuple D) p = (err, nt)" by fastforce
  from do_srxntuple_cases [OF nt] show ?thesis
  proof (elim disjE conjE exE)
    fix n assume n: "err = 0" "nt = Some n" "flow_spec_to_ntuple p = Some n" "nfc_ntuple D n"
    then have "reqs = map Srxntuple [n] @ map (Srxclsrlins p) []" "st = 0" using add nt by (auto simp: add_rule_def)
    then show ?thesis using p n by (intro exI [of _ p] conjI exI [of _ "[n]"] exI [of _ "[]"]) auto
  next
    assume n: "err = - 1" "\<forall>n. nt = Some n \<longrightarrow> flow_spec_to_ntuple p = Some n \<and> \<not> nfc_ntuple D n"
    define nts where "nts = (case nt of None \<Rightarrow> [] | Some n \<Rightarrow> [n])"
    obtain e sent where ins: "rxclass_rule_ins (nfc_rules D) (nfc_ins D p) (of_nat (u32_at p 160)) = Some (e, out, sent)"
      and st: "st = (if e < 0 then 1 else 0)"
      and reqs: "reqs = map Srxntuple nts @ map (Srxclsrlins p) (case sent of None \<Rightarrow> [] | Some l \<Rightarrow> [l])"
      using add nt n(1) by (auto simp: add_rule_def nts_def split: option.splits)
    have nts: "length nts \<le> 1" "set nts \<subseteq> set_option (flow_spec_to_ntuple p)" "list_all (\<lambda>n. \<not> nfc_ntuple D n) nts"
      using n(2) by (auto simp: nts_def split: option.splits)
    then have "filter (nfc_accepts D) (map Srxntuple nts) = []" by (auto simp: list_all_iff filter_empty_conv nfc_accepts_def)
    then show ?thesis using p nts st reqs rxclass_rule_ins_status [OF ins]
      by (intro exI [of _ p] conjI exI [of _ nts] exI [of _ "case sent of None \<Rightarrow> [] | Some l \<Rightarrow> [l]"])
        (auto split: option.splits)
  qed
qed

theorem rule_added_once_witness:
  "\<exists>p out. rxclass_parse_ruleopts [''udp4'', ''loc'', ''5''] = Inr p \<and>
     do_srxclass \<lparr>nfc_rules = \<lparr>rx_count = None, rx_locs = (\<lambda>_. None), rx_calloc = (\<lambda>_. True)\<rparr>, nfc_ins = (\<lambda>_ _. None),
         nfc_del = (\<lambda>_. True), nfc_rule = (\<lambda>_. None), nfc_rings = None, nfc_grxfh = (\<lambda>_. None), nfc_gflags = Some 0,
         nfc_ntuple = (\<lambda>_. False)\<rparr> [''flow-type'', ''udp4'', ''loc'', ''5''] = Some (Status 0 out [Srxclsrlins p 5])"
proof -
  let ?D = "\<lparr>nfc_rules = \<lparr>rx_count = None, rx_locs = (\<lambda>_. None), rx_calloc = (\<lambda>_. True)\<rparr>, nfc_ins = (\<lambda>_ _. None),
         nfc_del = (\<lambda>_. True), nfc_rule = (\<lambda>_. None), nfc_rings = None, nfc_grxfh = (\<lambda>_. None), nfc_gflags = Some 0,
         nfc_ntuple = (\<lambda>_. False)\<rparr>"
  have "fmt_u 5 = ''5''" by (simp add: fmt_u_def fmt_base_def digits_of.simps digit_char_nth)
  then have five: "opt_bytes OPT_U32 ''5'' = Some (le_bytes 4 5)" using opt_bytes_typed(5) [of 5] by simp
  let ?p = "put_field 160 (le_bytes 4 5) (empty_spec 2)"
  have p: "rxclass_parse_ruleopts [''udp4'', ''loc'', ''5''] = Inr ?p"
    by (simp add: rxclass_parse_ruleopts_def flow_types_def rule_nfc_tcp_ip4_def rule_ext_def
        get_val_typed [OF _ five] finish_spec_def put_mask_def del: opt_bytes.simps)
  have loc: "u32_at ?p 160 = 5" by (simp add: u32_at_def get_put_field le_value_bytes)
  have run: "do_srxclass ?D [''flow-type'', ''udp4'', ''loc'', ''5''] = Some (Status 0 [] [Srxclsrlins ?p 5])"
    by (simp add: do_srxclass_def p add_rule_def do_srxntuple_def flow_spec_to_ntuple_def loc RX_CLS_LOC_ANY_def
        rxclass_rule_ins_def RX_CLS_LOC_SPECIAL_def)
  from rule_added_once [OF run] p run show ?thesis by auto
qed

end
