(* ===== verification/EthParams.thy ===== *)
theory EthParams
  imports EthCmdline
begin

text \<open>
  Reading and setting parameters of an interface with ethtool: pause frames, rings, channels,
  interrupt coalescing, energy efficient Ethernet and private flags. The structure exchanged with the driver is a
  map from the names of its fields to their values.
\<close>

unbundle bit_operations_syntax

type_synonym params = "cstr \<Rightarrow> u32"

section \<open>Setting parameters\<close>

text \<open>The wanted number is an \<open>int\<close>; a negative one means that there is none.\<close>

definition do_generic_set1 :: "store \<Rightarrow> cmdline_info \<Rightarrow> params \<times> bool \<Rightarrow> params \<times> bool" where
  "do_generic_set1 s info st =
     (let (par, changed) = st; wanted = to_int32 (cell_num (s (wanted_val info))) in
      if wanted < 0 then st
      else if wanted = sint (par (ioctl_val info)) then st
      else (par(ioctl_val info := of_int wanted), True))"

definition do_generic_set :: "store \<Rightarrow> cmdline_info list \<Rightarrow> params \<times> bool \<Rightarrow> params \<times> bool" where
  "do_generic_set s infos st = fold (do_generic_set1 s) infos st"

text \<open>A usage error, or the status with the parameters sent to the driver.\<close>

datatype set_outcome = Set_usage | Set_status int "params option"

text \<open>
  The common body of the commands, with their exit codes for a failure to get the parameters, for no
  change and for a failure to set them. \<open>cur\<close> are the parameters of the driver, None if it fails to tell, and
  \<open>accept\<close> whether it takes new ones.
\<close>

definition set_params :: "cmdline_info list \<Rightarrow> int \<times> int \<times> int \<Rightarrow> params option \<Rightarrow> (params \<Rightarrow> bool) \<Rightarrow> cstr list \<Rightarrow> set_outcome" where
  "set_params infos codes cur accept args =
     (case parse_generic_cmdline infos args (\<lambda>_. Num (- 1), False) of None \<Rightarrow> Set_usage
      | Some (s, _) \<Rightarrow>
          (case cur of None \<Rightarrow> Set_status (fst codes) None
           | Some par \<Rightarrow>
               let (par', changed) = do_generic_set s infos (par, False) in
               if \<not> changed then Set_status (fst (snd codes)) None
               else Set_status (if accept par' then 0 else snd (snd codes)) (Some par')))"

abbreviation cmdl :: "cstr \<Rightarrow> cmdline_type \<Rightarrow> cstr \<Rightarrow> cstr \<Rightarrow> cmdline_info" where
  "cmdl nm ty wanted io \<equiv> \<lparr>ci_name = nm, ci_type = ty, wanted_val = wanted, ioctl_val = io, flag_val = 0, seen_val = []\<rparr>"

definition cmdline_pause :: "cmdline_info list" where
  "cmdline_pause =
     [cmdl ''autoneg'' CMDL_BOOL ''pause_autoneg_wanted'' ''autoneg'', cmdl ''rx'' CMDL_BOOL ''pause_rx_wanted'' ''rx_pause'',
      cmdl ''tx'' CMDL_BOOL ''pause_tx_wanted'' ''tx_pause'']"

definition cmdline_ring :: "cmdline_info list" where
  "cmdline_ring =
     [cmdl ''rx'' CMDL_S32 ''ring_rx_wanted'' ''rx_pending'', cmdl ''rx-mini'' CMDL_S32 ''ring_rx_mini_wanted'' ''rx_mini_pending'',
      cmdl ''rx-jumbo'' CMDL_S32 ''ring_rx_jumbo_wanted'' ''rx_jumbo_pending'', cmdl ''tx'' CMDL_S32 ''ring_tx_wanted'' ''tx_pending'']"

definition cmdline_channels :: "cmdline_info list" where
  "cmdline_channels =
     [cmdl ''rx'' CMDL_S32 ''channels_rx_wanted'' ''rx_count'', cmdl ''tx'' CMDL_S32 ''channels_tx_wanted'' ''tx_count'',
      cmdl ''other'' CMDL_S32 ''channels_other_wanted'' ''other_count'',
      cmdl ''combined'' CMDL_S32 ''channels_combined_wanted'' ''combined_count'']"

definition cmdline_coalesce :: "cmdline_info list" where
  "cmdline_coalesce =
     [cmdl ''adaptive-rx'' CMDL_BOOL ''coal_adaptive_rx_wanted'' ''use_adaptive_rx_coalesce'',
      cmdl ''adaptive-tx'' CMDL_BOOL ''coal_adaptive_tx_wanted'' ''use_adaptive_tx_coalesce'',
      cmdl ''sample-interval'' CMDL_S32 ''coal_sample_rate_wanted'' ''rate_sample_interval'',
      cmdl ''stats-block-usecs'' CMDL_S32 ''coal_stats_wanted'' ''stats_block_coalesce_usecs'',
      cmdl ''pkt-rate-low'' CMDL_S32 ''coal_pkt_rate_low_wanted'' ''pkt_rate_low'',
      cmdl ''pkt-rate-high'' CMDL_S32 ''coal_pkt_rate_high_wanted'' ''pkt_rate_high'',
      cmdl ''rx-usecs'' CMDL_S32 ''coal_rx_usec_wanted'' ''rx_coalesce_usecs'',
      cmdl ''rx-frames'' CMDL_S32 ''coal_rx_frames_wanted'' ''rx_max_coalesced_frames'',
      cmdl ''rx-usecs-irq'' CMDL_S32 ''coal_rx_usec_irq_wanted'' ''rx_coalesce_usecs_irq'',
      cmdl ''rx-frames-irq'' CMDL_S32 ''coal_rx_frames_irq_wanted'' ''rx_max_coalesced_frames_irq'',
      cmdl ''tx-usecs'' CMDL_S32 ''coal_tx_usec_wanted'' ''tx_coalesce_usecs'',
      cmdl ''tx-frames'' CMDL_S32 ''coal_tx_frames_wanted'' ''tx_max_coalesced_frames'',
      cmdl ''tx-usecs-irq'' CMDL_S32 ''coal_tx_usec_irq_wanted'' ''tx_coalesce_usecs_irq'',
      cmdl ''tx-frames-irq'' CMDL_S32 ''coal_tx_frames_irq_wanted'' ''tx_max_coalesced_frames_irq'',
      cmdl ''rx-usecs-low'' CMDL_S32 ''coal_rx_usec_low_wanted'' ''rx_coalesce_usecs_low'',
      cmdl ''rx-frames-low'' CMDL_S32 ''coal_rx_frames_low_wanted'' ''rx_max_coalesced_frames_low'',
      cmdl ''tx-usecs-low'' CMDL_S32 ''coal_tx_usec_low_wanted'' ''tx_coalesce_usecs_low'',
      cmdl ''tx-frames-low'' CMDL_S32 ''coal_tx_frames_low_wanted'' ''tx_max_coalesced_frames_low'',
      cmdl ''rx-usecs-high'' CMDL_S32 ''coal_rx_usec_high_wanted'' ''rx_coalesce_usecs_high'',
      cmdl ''rx-frames-high'' CMDL_S32 ''coal_rx_frames_high_wanted'' ''rx_max_coalesced_frames_high'',
      cmdl ''tx-usecs-high'' CMDL_S32 ''coal_tx_usec_high_wanted'' ''tx_coalesce_usecs_high'',
      cmdl ''tx-frames-high'' CMDL_S32 ''coal_tx_frames_high_wanted'' ''tx_max_coalesced_frames_high'']"

definition do_spause :: "params option \<Rightarrow> (params \<Rightarrow> bool) \<Rightarrow> cstr list \<Rightarrow> set_outcome" where
  "do_spause = set_params cmdline_pause (77, 78, 79)"

definition do_sring :: "params option \<Rightarrow> (params \<Rightarrow> bool) \<Rightarrow> cstr list \<Rightarrow> set_outcome" where
  "do_sring = set_params cmdline_ring (76, 80, 81)"

definition do_schannels :: "params option \<Rightarrow> (params \<Rightarrow> bool) \<Rightarrow> cstr list \<Rightarrow> set_outcome" where
  "do_schannels = set_params cmdline_channels (1, 1, 1)"

definition do_scoalesce :: "params option \<Rightarrow> (params \<Rightarrow> bool) \<Rightarrow> cstr list \<Rightarrow> set_outcome" where
  "do_scoalesce = set_params cmdline_coalesce (76, 80, 81)"

definition cmdline_eee :: "cmdline_info list" where
  "cmdline_eee =
     [cmdl ''advertise'' CMDL_U32 ''adv_c'' ''advertised'', cmdl ''tx-lpi'' CMDL_BOOL ''lpi_c'' ''tx_lpi_enabled'',
      cmdl ''tx-timer'' CMDL_U32 ''lpi_time_c'' ''tx_lpi_timer'', cmdl ''eee'' CMDL_BOOL ''eee_c'' ''eee_enabled'']"

definition do_seee :: "params option \<Rightarrow> (params \<Rightarrow> bool) \<Rightarrow> cstr list \<Rightarrow> set_outcome" where
  "do_seee cur accept args = (if args = [] then Set_usage else set_params cmdline_eee (1, 0, 1) cur accept args)"


section \<open>Private flags\<close>

text \<open>
  \<open>names\<close> are the names of the flags, None if they cannot be read; \<open>cur\<close> the flags of the driver. Only
  the first 32 names count. Memory allocation does not fail.
\<close>

definition priv_infos :: "cstr list \<Rightarrow> cmdline_info list" where
  "priv_infos names = map (\<lambda>(i, nm). flag_to_cmdline_info nm (push_bit i 1) ''wanted_flags'' ''seen_flags'') (enumerate 0 (take 32 names))"

definition do_sprivflags :: "cstr list option \<Rightarrow> u32 option \<Rightarrow> (u32 \<Rightarrow> bool) \<Rightarrow> cstr list \<Rightarrow> (int \<times> u32 option) option" where
  "do_sprivflags names cur accept args =
     (case names of None \<Rightarrow> Some (1, None)
      | Some nms \<Rightarrow>
          if nms = [] then Some (1, None)
          else case parse_generic_cmdline (priv_infos nms) args (\<lambda>_. Num 0, False) of None \<Rightarrow> None
          | Some (s, _) \<Rightarrow>
              (case cur of None \<Rightarrow> Some (1, None)
               | Some flags \<Rightarrow>
                   let new = (flags AND NOT (of_int (cell_num (s ''seen_flags'')))) OR of_int (cell_num (s ''wanted_flags''))
                   in Some (if accept new then 0 else 1, Some new)))"

definition do_gprivflags :: "cstr \<Rightarrow> cstr list option \<Rightarrow> u32 option \<Rightarrow> int \<times> cstr" where
  "do_gprivflags devname names cur =
     (case names of None \<Rightarrow> (1, [])
      | Some nms \<Rightarrow>
          if nms = [] then (1, [])
          else case cur of None \<Rightarrow> (1, [])
          | Some flags \<Rightarrow> (0, ''Private flags for '' @ devname @ '':'' @ nl @
              concat (map (\<lambda>(i, nm). nm @ '': '' @ (if flags AND push_bit i 1 \<noteq> 0 then ''on'' else ''off'') @ nl)
                (enumerate 0 (take 32 nms)))))"


section \<open>Showing parameters\<close>

definition onoff :: "u32 \<Rightarrow> cstr" where "onoff v = (if v \<noteq> 0 then ''on'' else ''off'')"

text \<open>Lines of a label and a field.\<close>

definition field_lines :: "(cstr \<times> cstr) list \<Rightarrow> params \<Rightarrow> cstr" where
  "field_lines ls par = concat (map (\<lambda>(lab, f). lab @ fmt_u (unat (par f)) @ nl) ls)"

abbreviation ADVERTISED_Pause :: u32 where "ADVERTISED_Pause \<equiv> 0x2000"
abbreviation ADVERTISED_Asym_Pause :: u32 where "ADVERTISED_Asym_Pause \<equiv> 0x4000"

text \<open>The negotiated use of pause frames: receiving and transmitting.\<close>

definition negotiated_pause :: "u32 \<Rightarrow> u32 \<Rightarrow> bool \<times> bool" where
  "negotiated_pause advertising lp_advertising =
     (if advertising AND lp_advertising AND ADVERTISED_Pause \<noteq> 0 then (True, True)
      else if advertising AND lp_advertising AND ADVERTISED_Asym_Pause \<noteq> 0
      then if advertising AND ADVERTISED_Pause \<noteq> 0 then (True, False)
           else if lp_advertising AND ADVERTISED_Pause \<noteq> 0 then (False, True) else (False, False)
      else (False, False))"

definition dump_pause :: "params \<Rightarrow> u32 \<Rightarrow> u32 \<Rightarrow> cstr" where
  "dump_pause epause advertising lp_advertising =
     ''Autonegotiate:'' @ tab @ onoff (epause ''autoneg'') @ nl @
     ''RX:'' @ tab @ tab @ onoff (epause ''rx_pause'') @ nl @ ''TX:'' @ tab @ tab @ onoff (epause ''tx_pause'') @ nl @
     (if lp_advertising \<noteq> 0
      then let (an_rx, an_tx) = negotiated_pause advertising lp_advertising in
        ''RX negotiated:'' @ tab @ (if an_rx then ''on'' else ''off'') @ nl @
        ''TX negotiated:'' @ tab @ (if an_tx then ''on'' else ''off'') @ nl
      else []) @ nl"

definition do_gpause :: "cstr \<Rightarrow> params option \<Rightarrow> (u32 \<times> u32) option \<Rightarrow> cstr list \<Rightarrow> (int \<times> cstr) option" where
  "do_gpause devname par ecmd args =
     (if args \<noteq> [] then None
      else let h = ''Pause parameters for '' @ devname @ '':'' @ nl in
        case par of None \<Rightarrow> Some (76, h)
        | Some epause \<Rightarrow>
            if epause ''autoneg'' \<noteq> 0
            then (case ecmd of None \<Rightarrow> Some (1, h) | Some (adv, lp) \<Rightarrow> Some (0, h @ dump_pause epause adv lp))
            else Some (0, h @ dump_pause epause 0 0))"

definition dump_ring :: "params \<Rightarrow> cstr" where
  "dump_ring ering =
     ''Pre-set maximums:'' @ nl @
     field_lines [(''RX:'' @ tab @ tab, ''rx_max_pending''), (''RX Mini:'' @ tab, ''rx_mini_max_pending''),
       (''RX Jumbo:'' @ tab, ''rx_jumbo_max_pending''), (''TX:'' @ tab @ tab, ''tx_max_pending'')] ering @
     ''Current hardware settings:'' @ nl @
     field_lines [(''RX:'' @ tab @ tab, ''rx_pending''), (''RX Mini:'' @ tab, ''rx_mini_pending''),
       (''RX Jumbo:'' @ tab, ''rx_jumbo_pending''), (''TX:'' @ tab @ tab, ''tx_pending'')] ering @ nl"

definition dump_channels :: "params \<Rightarrow> cstr" where
  "dump_channels ech =
     ''Pre-set maximums:'' @ nl @
     field_lines [(''RX:'' @ tab @ tab, ''max_rx''), (''TX:'' @ tab @ tab, ''max_tx''),
       (''Other:'' @ tab @ tab, ''max_other''), (''Combined:'' @ tab, ''max_combined'')] ech @
     ''Current hardware settings:'' @ nl @
     field_lines [(''RX:'' @ tab @ tab, ''rx_count''), (''TX:'' @ tab @ tab, ''tx_count''),
       (''Other:'' @ tab @ tab, ''other_count''), (''Combined:'' @ tab, ''combined_count'')] ech @ nl"

definition dump_coalesce :: "params \<Rightarrow> cstr" where
  "dump_coalesce ecoal =
     ''Adaptive RX: '' @ onoff (ecoal ''use_adaptive_rx_coalesce'') @ ''  TX: '' @ onoff (ecoal ''use_adaptive_tx_coalesce'') @ nl @
     concat (map (\<lambda>ls. field_lines ls ecoal @ nl)
       [[(''stats-block-usecs: '', ''stats_block_coalesce_usecs''), (''sample-interval: '', ''rate_sample_interval''),
         (''pkt-rate-low: '', ''pkt_rate_low''), (''pkt-rate-high: '', ''pkt_rate_high'')],
        [(''rx-usecs: '', ''rx_coalesce_usecs''), (''rx-frames: '', ''rx_max_coalesced_frames''),
         (''rx-usecs-irq: '', ''rx_coalesce_usecs_irq''), (''rx-frames-irq: '', ''rx_max_coalesced_frames_irq'')],
        [(''tx-usecs: '', ''tx_coalesce_usecs''), (''tx-frames: '', ''tx_max_coalesced_frames''),
         (''tx-usecs-irq: '', ''tx_coalesce_usecs_irq''), (''tx-frames-irq: '', ''tx_max_coalesced_frames_irq'')],
        [(''rx-usecs-low: '', ''rx_coalesce_usecs_low''), (''rx-frame-low: '', ''rx_max_coalesced_frames_low''),
         (''tx-usecs-low: '', ''tx_coalesce_usecs_low''), (''tx-frame-low: '', ''tx_max_coalesced_frames_low'')],
        [(''rx-usecs-high: '', ''rx_coalesce_usecs_high''), (''rx-frame-high: '', ''rx_max_coalesced_frames_high''),
         (''tx-usecs-high: '', ''tx_coalesce_usecs_high''), (''tx-frame-high: '', ''tx_max_coalesced_frames_high'')]])"

text \<open>The commands that show a group of parameters, with their exit code for a failure.\<close>

definition show_params :: "cstr \<Rightarrow> int \<Rightarrow> (params \<Rightarrow> cstr) \<Rightarrow> cstr \<Rightarrow> params option \<Rightarrow> cstr list \<Rightarrow> (int \<times> cstr) option" where
  "show_params what code dump devname par args =
     (if args \<noteq> [] then None
      else let h = what @ '' parameters for '' @ devname @ '':'' @ nl in
        case par of None \<Rightarrow> Some (code, h) | Some p \<Rightarrow> Some (0, h @ dump p))"

definition do_gring :: "cstr \<Rightarrow> params option \<Rightarrow> cstr list \<Rightarrow> (int \<times> cstr) option" where
  "do_gring = show_params ''Ring'' 76 dump_ring"

definition do_gchannels :: "cstr \<Rightarrow> params option \<Rightarrow> cstr list \<Rightarrow> (int \<times> cstr) option" where
  "do_gchannels = show_params ''Channel'' 1 dump_channels"

definition do_gcoalesce :: "cstr \<Rightarrow> params option \<Rightarrow> cstr list \<Rightarrow> (int \<times> cstr) option" where
  "do_gcoalesce = show_params ''Coalesce'' 82 dump_coalesce"



section \<open>Exactly the named parameters change\<close>

lemma of_int_eq_sint:
  fixes x :: u32
  shows "of_int (to_int32 i) = x \<longleftrightarrow> to_int32 i = sint x"
proof
  assume "of_int (to_int32 i) = x"
  then have "sint x = sint (of_int (to_int32 i) :: u32)" by simp
  also have "\<dots> = to_int32 i"
    using to_int32_range [of i] by (simp add: signed_of_int signed_take_bit_int_eq_self)
  finally show "to_int32 i = sint x" by simp
qed simp

definition wanted_of :: "store \<Rightarrow> cmdline_info \<Rightarrow> int" where
  "wanted_of s ci = to_int32 (cell_num (s (wanted_val ci)))"

definition new_value :: "int \<Rightarrow> u32 \<Rightarrow> u32" where
  "new_value wanted old = (if wanted < 0 then old else of_int wanted)"

lemma generic_set1:
  "do_generic_set1 s ci (par, c) =
     (par(ioctl_val ci := new_value (wanted_of s ci) (par (ioctl_val ci))),
      c \<or> new_value (wanted_of s ci) (par (ioctl_val ci)) \<noteq> par (ioctl_val ci))"
  using of_int_eq_sint [of "cell_num (s (wanted_val ci))" "par (ioctl_val ci)"]
  by (auto simp: do_generic_set1_def new_value_def wanted_of_def Let_def)

lemma generic_set:
  assumes "distinct (map ioctl_val infos)" and "do_generic_set s infos (par, c) = (par', c')"
  shows "(\<forall>f. par' f = (case find (\<lambda>ci. ioctl_val ci = f) infos of None \<Rightarrow> par f
                         | Some ci \<Rightarrow> new_value (wanted_of s ci) (par f))) \<and> (c' \<longleftrightarrow> c \<or> par' \<noteq> par)"
  using assms
proof (induction infos arbitrary: par c)
  case Nil
  then show ?case by (simp add: do_generic_set_def)
next
  case (Cons ci infos)
  define f where "f = ioctl_val ci"
  define v where "v = new_value (wanted_of s ci) (par f)"
  have "do_generic_set s infos (par(f := v), c \<or> v \<noteq> par f) = (par', c')"
    using Cons.prems(2) by (simp add: do_generic_set_def generic_set1 f_def v_def)
  note IH = Cons.IH [OF _ this]
  have new: "find (\<lambda>ci. ioctl_val ci = f) infos = None"
    using Cons.prems(1) by (fastforce simp: find_None_iff f_def image_iff)
  have d: "distinct (map ioctl_val infos)" using Cons.prems(1) by simp
  have val: "\<forall>g. par' g = (case find (\<lambda>ci. ioctl_val ci = g) infos of None \<Rightarrow> (par(f := v)) g
      | Some ci \<Rightarrow> new_value (wanted_of s ci) ((par(f := v)) g))"
    and ch: "c' \<longleftrightarrow> (c \<or> v \<noteq> par f) \<or> par' \<noteq> par(f := v)"
    by (rule conjunct1 [OF IH [OF d]], rule conjunct2 [OF IH [OF d]])
  have pf: "par' f = v" using spec [OF val, of f] new by simp
  have "c' \<longleftrightarrow> c \<or> par' \<noteq> par" using ch pf by (cases "v = par f") auto
  moreover have "par' g = (case find (\<lambda>ci. ioctl_val ci = g) (ci # infos) of None \<Rightarrow> par g
      | Some ci \<Rightarrow> new_value (wanted_of s ci) (par g))" for g
    using spec [OF val, of g] pf by (cases "g = f") (auto simp: f_def v_def split: option.splits)
  ultimately show ?case by blast
qed

text \<open>The parameters asked for: the last value given for the name of a field, if it is not negative as an \<open>int\<close>.\<close>

definition asked_value :: "cmdline_info \<Rightarrow> cstr list \<Rightarrow> u32 \<Rightarrow> u32" where
  "asked_value ci args old =
     (case last_given (ci_name ci) args of None \<Rightarrow> old
      | Some v \<Rightarrow> (case cmdl_value (ci_type ci) v of None \<Rightarrow> old | Some c \<Rightarrow> new_value (to_int32 (cell_num c)) old))"

definition asked_params :: "cmdline_info list \<Rightarrow> cstr list \<Rightarrow> params \<Rightarrow> params" where
  "asked_params infos args par =
     (\<lambda>f. case find (\<lambda>ci. ioctl_val ci = f) infos of None \<Rightarrow> par f | Some ci \<Rightarrow> asked_value ci args (par f))"

lemma set_params_result:
  assumes "plain_table infos" and "set_params infos codes (Some par) accept args \<noteq> Set_usage"
  shows "set_params infos codes (Some par) accept args =
     (if asked_params infos args par = par then Set_status (fst (snd codes)) None
      else Set_status (if accept (asked_params infos args par) then 0 else snd (snd codes)) (Some (asked_params infos args par)))"
proof -
  obtain s c where parse: "parse_generic_cmdline infos args (\<lambda>_. Num (- 1), False) = Some (s, c)"
    using assms(2) by (auto simp: set_params_def split: option.splits)
  obtain par' ch where gs: "do_generic_set s infos (par, False) = (par', ch)" by fastforce
  have d: "distinct (map ioctl_val infos)" using assms(1) by (simp add: plain_table_def)
  have w: "new_value (wanted_of s ci) old = asked_value ci args old" if "ci \<in> set infos" for ci old
    using bspec [OF parse_plain [OF parse assms(1)] that]
    by (auto simp: asked_value_def wanted_of_def new_value_def to_int32_def split: option.splits)
  have "par' = asked_params infos args par"
    using generic_set [OF d gs] w by (auto simp: asked_params_def fun_eq_iff dest: find_SomeD split: option.splits)
  then show ?thesis using generic_set [OF d gs] parse gs by (simp add: set_params_def)
qed

text \<open>The tables and codes of the four commands.\<close>

definition param_tables :: "((params option \<Rightarrow> (params \<Rightarrow> bool) \<Rightarrow> cstr list \<Rightarrow> set_outcome) \<times> cmdline_info list \<times> int \<times> int) list" where
  "param_tables =
     [(do_spause, cmdline_pause, 78, 79), (do_sring, cmdline_ring, 80, 81), (do_schannels, cmdline_channels, 1, 1),
      (do_scoalesce, cmdline_coalesce, 80, 81)]"

lemma plain_tables:
  "plain_table cmdline_pause" "plain_table cmdline_ring" "plain_table cmdline_channels" "plain_table cmdline_coalesce"
  "plain_table cmdline_eee"
  by code_simp+

text \<open>C35: setting pause, ring, channel or coalescing parameters sends the driver its current parameters with exactly the
  named ones replaced, each by the last value given for its name, where a negative number leaves a
  parameter as it is. Nothing is sent, and the status says so, exactly if that changes no parameter.\<close>

theorem params_set_exactly:
  assumes "(cmd, infos, unchanged, refused) \<in> set param_tables" and "cmd (Some par) accept args \<noteq> Set_usage"
  shows "cmd (Some par) accept args =
     (if asked_params infos args par = par then Set_status unchanged None
      else Set_status (if accept (asked_params infos args par) then 0 else refused) (Some (asked_params infos args par)))"
proof -
  obtain codes where cmd: "cmd = set_params infos codes" "snd codes = (unchanged, refused)" and "plain_table infos"
    using assms(1) plain_tables
    by (auto simp: param_tables_def do_spause_def do_sring_def do_schannels_def do_scoalesce_def)
  then show ?thesis using set_params_result [of infos codes par accept args] assms(2) by simp
qed



theorem params_set_exactly_witness:
  "do_spause (Some (\<lambda>_. 1)) (\<lambda>_. True) [''tx'', ''off'', ''rx'', ''on''] =
   Set_status 0 (Some (asked_params cmdline_pause [''tx'', ''off'', ''rx'', ''on''] (\<lambda>_. 1))) \<and>
   asked_params cmdline_pause [''tx'', ''off'', ''rx'', ''on''] (\<lambda>_. 1) ''tx_pause'' = 0"
proof -
  have t: "(do_spause, cmdline_pause, 78, 79) \<in> set param_tables" by (simp add: param_tables_def)
  have run: "do_spause (Some (\<lambda>_. 1)) (\<lambda>_. True) [''tx'', ''off'', ''rx'', ''on''] \<noteq> Set_usage"
    by (simp add: do_spause_def set_params_def cmdline_pause_def cmdl_store_def cmdl_value_def split: prod.splits)
  have tx: "asked_params cmdline_pause [''tx'', ''off'', ''rx'', ''on''] (\<lambda>_. 1) ''tx_pause'' = 0"
    by (simp add: asked_params_def asked_value_def cmdline_pause_def last_given_def cmdl_value_def new_value_def to_int32_def)
  then have ne: "asked_params cmdline_pause [''tx'', ''off'', ''rx'', ''on''] (\<lambda>_. 1) \<noteq> (\<lambda>_. 1)" by (metis zero_neq_one)
  show ?thesis using params_set_exactly [OF t, OF run, unfolded if_not_P [OF ne] if_True] tx by blast
qed


section \<open>Private flags that change\<close>

lemma priv_infos_find:
  assumes "distinct nms" and "i < 32" and "i < length nms"
  shows "find (\<lambda>ci. ci_name ci = nms ! i) (priv_infos nms) = Some (flag_to_cmdline_info (nms ! i) (push_bit i 1) ''wanted_flags'' ''seen_flags'')"
proof -
  let ?ci = "flag_to_cmdline_info (nms ! i) (push_bit i 1) ''wanted_flags'' ''seen_flags''"
  have "map ci_name (priv_infos nms) = map snd (enumerate 0 (take 32 nms))"
    by (simp add: priv_infos_def flag_to_cmdline_info_def comp_def case_prod_unfold)
  then have "distinct (map ci_name (priv_infos nms))" using assms(1) by simp
  moreover have "(i, nms ! i) \<in> set (enumerate 0 (take 32 nms))" using assms by (auto simp: in_set_enumerate_eq)
  then have "?ci \<in> set (priv_infos nms)" by (force simp: priv_infos_def)
  ultimately show ?thesis using find_named [of ci_name "priv_infos nms" ?ci] by (simp add: flag_to_cmdline_info_def)
qed

lemma priv_gives_flag:
  assumes "distinct nms"
  shows "gives_flag (priv_infos nms) x i g \<longleftrightarrow>
     i < 32 \<and> i < length nms \<and> nms ! i = fst g \<and> (x = ''seen_flags'' \<or> x = ''wanted_flags'' \<and> snd g = ''on'')"
proof (cases "find (\<lambda>ci. ci_name ci = fst g) (priv_infos nms)")
  case None
  then show ?thesis using priv_infos_find [OF assms, of i] by (auto simp: gives_flag_def)
next
  case (Some ci)
  from find_SomeD [OF Some] obtain j where j: "j < 32" "j < length nms" "nms ! j = fst g" "flag_val ci = push_bit j 1"
    "seen_val ci = ''seen_flags''" "wanted_val ci = ''wanted_flags''"
    by (auto simp: priv_infos_def flag_to_cmdline_info_def in_set_enumerate_eq)
  then have "nms ! i = fst g \<longleftrightarrow> i = j" if "i < length nms"
    using nth_eq_iff_index_eq [OF assms, of i j] that by auto
  then show ?thesis using Some j by (auto simp: gives_flag_def bit_simps)
qed

text \<open>Setting private flags changes exactly the flags named, of the first 32: a flag that was named ends switched on
  exactly if it was given as on at least once, even if off came later, and every other one keeps the value
  the driver reported.\<close>

lemma privflags_set:
  assumes "do_sprivflags (Some nms) (Some flags) accept args = Some (st, Some new)" and "distinct nms"
  shows "bit new i \<longleftrightarrow>
     (if i < 32 \<and> i < length nms \<and> nms ! i \<in> fst ` set (arg_pairs args) then (nms ! i, ''on'') \<in> set (arg_pairs args)
      else bit flags i)"
proof -
  obtain s c where parse: "parse_generic_cmdline (priv_infos nms) args (\<lambda>_. Num 0, False) = Some (s, c)"
    and new: "new = (flags AND NOT (flags_in s ''seen_flags'')) OR flags_in s ''wanted_flags''"
    using assms(1) by (auto simp: do_sprivflags_def flags_in_def Let_def split: option.splits if_splits)
  have "flag_table (priv_infos nms)" by (auto simp: flag_table_def list_all_iff priv_infos_def flag_to_cmdline_info_def)
  note fl = parse_flags [OF parse this]
  have "bit (flags_in s ''seen_flags'') i \<longleftrightarrow> i < 32 \<and> i < length nms \<and> nms ! i \<in> fst ` set (arg_pairs args)"
    "bit (flags_in s ''wanted_flags'') i \<longleftrightarrow> i < 32 \<and> i < length nms \<and> (nms ! i, ''on'') \<in> set (arg_pairs args)"
    by (force simp: fl priv_gives_flag [OF assms(2)] flags_in_def [of "\<lambda>_. Num 0"])+
  moreover have "bit flags i \<Longrightarrow> i < 32" using word_bit_mask_low [of flags i] by simp
  ultimately show ?thesis by (force simp: new bit_simps)
qed

end
