(* ===== verification/EthIndir.thy ===== *)
theory EthIndir
  imports EthCmdline
begin

text \<open>
  The table that spreads received flows over rings by their hash
  (\<open>src/ethernet_test/ethtool/ethtool.c\<close>, \<open>do_srxfhindir\<close> and \<open>do_grxfhindir\<close>). Numbers have 32 bits
  and wrap as in the code. Memory allocation does not fail.
\<close>

section \<open>Setting the table\<close>

fun get_weights :: "cstr list \<Rightarrow> u32 list option" where
  "get_weights [] = Some []"
| "get_weights (a # as) =
     (case get_uint_range a 0 0xFFFFFFFF of None \<Rightarrow> None | Some v \<Rightarrow> map_option ((#) (ucast v)) (get_weights as))"

text \<open>The inner loop: the weights that are left, the ring and the partial sum; None for reading past the last weight.\<close>

fun indir_next :: "u32 \<Rightarrow> u32 \<Rightarrow> u32 \<Rightarrow> u32 list \<Rightarrow> u32 \<Rightarrow> u32 \<Rightarrow> (u32 list \<times> u32 \<times> u32) option" where
  "indir_next sz tot i [] j part = (if i < sz * part div tot then Some ([], j, part) else None)"
| "indir_next sz tot i (w # ws) j part =
     (if i < sz * part div tot then Some (w # ws, j, part) else indir_next sz tot i ws (j + 1) (part + w))"

fun indir_fill :: "u32 \<Rightarrow> u32 \<Rightarrow> nat list \<Rightarrow> u32 list \<Rightarrow> u32 \<Rightarrow> u32 \<Rightarrow> u32 list option" where
  "indir_fill sz tot [] ws j part = Some []"
| "indir_fill sz tot (i # is) ws j part =
     (case indir_next sz tot (of_nat i) ws j part of None \<Rightarrow> None
      | Some (ws', j', part') \<Rightarrow> map_option ((#) j') (indir_fill sz tot is ws' j' part'))"

text \<open>A usage error, an exit with 1 and a message, a read past the weights, or the status with the table sent to the driver.\<close>

datatype indir_outcome = Indir_usage | Indir_exit | Indir_crash | Indir_status int "u32 list option"

definition indir_table :: "u32 \<Rightarrow> cstr list \<Rightarrow> indir_outcome + u32 list" where
  "indir_table sz args =
     (if args ! 0 = ''equal''
      then (case get_int_range (args ! 1) 0 1 (2 ^ 31 - 1) of None \<Rightarrow> Inl Indir_usage
            | Some n \<Rightarrow> Inr (map (\<lambda>i. of_nat i mod of_int n) [0..<unat sz]))
      else case get_weights (tl args) of None \<Rightarrow> Inl Indir_usage
      | Some ws \<Rightarrow>
          let tot = sum_list ws in
          if tot = 0 \<or> sz < tot then Inl Indir_exit
          else case indir_fill sz tot [0..<unat sz] ws (- 1) 0 of None \<Rightarrow> Inl Indir_crash | Some t \<Rightarrow> Inr t)"

text \<open>\<open>sz\<close> is the size the driver reports, None if it fails, and \<open>accept\<close> whether it takes a table.\<close>

definition do_srxfhindir :: "u32 option \<Rightarrow> (u32 list \<Rightarrow> bool) \<Rightarrow> cstr list \<Rightarrow> indir_outcome" where
  "do_srxfhindir sz accept args =
     (if length args < 2 then Indir_usage
      else if args ! 0 = ''equal'' \<and> (length args \<noteq> 2 \<or> get_int_range (args ! 1) 0 1 (2 ^ 31 - 1) = None) then Indir_usage
      else if args ! 0 \<noteq> ''equal'' \<and> args ! 0 \<noteq> ''weight'' then Indir_usage
      else case sz of None \<Rightarrow> Indir_status 104 None
      | Some n \<Rightarrow> (case indir_table n args of Inl out \<Rightarrow> out
                   | Inr t \<Rightarrow> Indir_status (if accept t then 0 else 105) (Some t)))"


section \<open>Showing the table\<close>

definition fmt_u5 :: "nat \<Rightarrow> cstr" where
  "fmt_u5 n = replicate (5 - length (fmt_u n)) CHR '' '' @ fmt_u n"

text \<open>The number of rings, the size of the table and the table of the driver, each None for a failure.\<close>

definition do_grxfhindir :: "cstr \<Rightarrow> u64 option \<Rightarrow> u32 option \<Rightarrow> u32 list option \<Rightarrow> int \<times> cstr" where
  "do_grxfhindir devname rings sz tbl =
     (case rings of None \<Rightarrow> (102, [])
      | Some n \<Rightarrow>
          (case sz of None \<Rightarrow> (103, [])
           | Some _ \<Rightarrow>
               (case tbl of None \<Rightarrow> (103, [])
                | Some t \<Rightarrow> (0, ''RX flow hash indirection table for '' @ devname @ '' with '' @ fmt_u (unat n) @ '' RX ring(s):'' @ nl @
                    concat (map (\<lambda>i. (if i mod 8 = 0 then fmt_u5 i @ '': '' else []) @ '' '' @ fmt_u5 (unat (t ! i)) @
                      (if i mod 8 = 7 then nl else [])) [0..<length t])))))"


section \<open>Every ring gets its share\<close>

text \<open>Where the share of a ring starts, in exact arithmetic.\<close>

definition share :: "nat \<Rightarrow> u32 list \<Rightarrow> nat \<Rightarrow> nat" where
  "share n ws k = n * sum_list (map unat (take k ws)) div sum_list (map unat ws)"

definition total_weight :: "u32 list \<Rightarrow> nat" where
  "total_weight ws = sum_list (map unat ws)"

lemma sum_take_le: "sum_list (map unat (take k ws)) \<le> total_weight ws"
  unfolding total_weight_def by (metis append_take_drop_id le_add1 map_append sum_list_append)

lemma share_mono: "j \<le> k \<Longrightarrow> share n ws j \<le> share n ws k"
proof -
  assume "j \<le> k"
  then have "take k ws = take j ws @ take (k - j) (drop j ws)"
    by (metis le_add_diff_inverse take_add)
  then show ?thesis by (simp add: share_def div_le_mono)
qed

lemma share_0 [simp]: "share n ws 0 = 0"
  by (simp add: share_def)

lemma share_all: "0 < total_weight ws \<Longrightarrow> share n ws (length ws) = n"
  by (simp add: share_def total_weight_def)

lemma of_nat_sum_unat: "of_nat (sum_list (map unat ws)) = (sum_list ws :: u32)"
  by (induction ws) simp_all

lemma share_word:
  assumes "unat sz * total_weight ws < 2 ^ 32" and "0 < unat sz"
  shows "unat (sz * of_nat (sum_list (map unat (take k ws))) div sum_list ws) = share (unat sz) ws k"
proof -
  let ?p = "sum_list (map unat (take k ws))"
  have le: "unat sz * ?p \<le> unat sz * total_weight ws" using sum_take_le by simp
  have "total_weight ws \<le> unat sz * total_weight ws" using assms(2) by simp
  then have t: "total_weight ws < 2 ^ 32" using assms(1) by linarith
  have "?p < 2 ^ 32" using t sum_take_le [of k ws] by linarith
  then have p: "unat (of_nat ?p :: u32) = ?p" by (simp add: unat_of_nat)
  have m: "unat (sz * of_nat ?p) = unat sz * ?p"
    using order_le_less_trans [OF le assms(1)] p by (simp only: unat_word_ariths) simp
  have "unat (sum_list ws) = total_weight ws"
    unfolding of_nat_sum_unat [of ws, symmetric] using t by (simp add: total_weight_def unat_of_nat)
  then show ?thesis by (simp add: unat_div m share_def total_weight_def)
qed

text \<open>The inner loop stops at the first ring whose share ends behind the entry.\<close>

lemma indir_next_spec:
  assumes "unat sz * total_weight W < 2 ^ 32" and "0 < total_weight W" and "i < unat sz"
    and "k \<le> length W" and "\<forall>m<k. share (unat sz) W m \<le> i"
  shows "\<exists>k'. k \<le> k' \<and> k' \<le> length W \<and> i < share (unat sz) W k' \<and> (\<forall>m<k'. share (unat sz) W m \<le> i) \<and>
    indir_next sz (sum_list W) (of_nat i) (drop k W) (of_nat k - 1) (of_nat (sum_list (map unat (take k W)))) =
      Some (drop k' W, of_nat k' - 1, of_nat (sum_list (map unat (take k' W))))"
proof -
  have u: "unat (of_nat i :: u32) = i" using assms(3) unat_mod_le [of sz] by (simp add: unat_of_nat)
  have cond: "(of_nat i :: u32) < sz * of_nat (sum_list (map unat (take k W))) div sum_list W \<longleftrightarrow> i < share (unat sz) W k" for k
    using share_word [OF assms(1), of k] assms(3) u by (simp add: word_less_nat_alt)
  show ?thesis using assms(4,5)
proof (induction "length W - k" arbitrary: k)
  case 0
  then have k: "k = length W" by simp
  have s: "share (unat sz) W k = unat sz" using share_all [OF assms(2)] k by simp
  then show ?case using 0 cond [of k] assms(3) k by (intro exI [of _ k]) simp
next
  case (Suc n)
  then have k: "k < length W" by simp
  have d: "drop k W = W ! k # drop (Suc k) W" using k by (simp add: Cons_nth_drop_Suc)
  show ?case
  proof (cases "i < share (unat sz) W k")
    case True
    then show ?thesis using Suc.prems k cond d by (intro exI [of _ k]) simp
  next
    case False
    have "\<forall>m<Suc k. share (unat sz) W m \<le> i" using Suc.prems(2) False by (auto simp: less_Suc_eq)
    moreover have "n = length W - Suc k" "Suc k \<le> length W" using Suc.hyps(2) k by auto
    ultimately obtain k' where k': "Suc k \<le> k'" "k' \<le> length W" "i < share (unat sz) W k'" "\<forall>m<k'. share (unat sz) W m \<le> i"
      "indir_next sz (sum_list W) (of_nat i) (drop (Suc k) W) (of_nat (Suc k) - 1) (of_nat (sum_list (map unat (take (Suc k) W)))) =
        Some (drop k' W, of_nat k' - 1, of_nat (sum_list (map unat (take k' W))))"
      using Suc.hyps(1) [of "Suc k"] by blast
    have "of_nat (sum_list (map unat (take k W))) + W ! k = (of_nat (sum_list (map unat (take (Suc k) W))) :: u32)"
      using k by (simp add: take_Suc_conv_app_nth)
    then have "indir_next sz (sum_list W) (of_nat i) (drop k W) (of_nat k - 1) (of_nat (sum_list (map unat (take k W)))) =
        Some (drop k' W, of_nat k' - 1, of_nat (sum_list (map unat (take k' W))))"
      using k'(5) False cond [of k] by (simp add: d)
    then show ?thesis using k' by (intro exI [of _ k']) simp
  qed
qed
qed

lemma indir_fill_spec:
  assumes "unat sz * total_weight W < 2 ^ 32" and "0 < total_weight W"
    and "k \<le> length W" and "\<forall>m<k. share (unat sz) W m \<le> a" and "a \<le> unat sz"
  shows "\<exists>t. indir_fill sz (sum_list W) [a..<unat sz] (drop k W) (of_nat k - 1) (of_nat (sum_list (map unat (take k W)))) = Some t \<and>
    length t = unat sz - a \<and>
    (\<forall>i<length t. \<exists>k. k \<le> length W \<and> t ! i = of_nat k - 1 \<and> a + i < share (unat sz) W k \<and> (\<forall>m<k. share (unat sz) W m \<le> a + i))"
  using assms(3-5)
proof (induction "unat sz - a" arbitrary: a k)
  case 0
  then show ?case by simp
next
  case (Suc n)
  then have a: "a < unat sz" by simp
  from indir_next_spec [OF assms(1,2) a Suc.prems(1,2)] obtain k' where k': "k \<le> k'" "k' \<le> length W"
    "a < share (unat sz) W k'" "\<forall>m<k'. share (unat sz) W m \<le> a"
    "indir_next sz (sum_list W) (of_nat a) (drop k W) (of_nat k - 1) (of_nat (sum_list (map unat (take k W)))) =
      Some (drop k' W, of_nat k' - 1, of_nat (sum_list (map unat (take k' W))))" by auto
  have "\<forall>m<k'. share (unat sz) W m \<le> Suc a" using k'(4) by (auto simp: le_SucI)
  moreover have "n = unat sz - Suc a" "Suc a \<le> unat sz" using Suc.hyps(2) a by auto
  ultimately obtain t where t: "indir_fill sz (sum_list W) [Suc a..<unat sz] (drop k' W) (of_nat k' - 1)
        (of_nat (sum_list (map unat (take k' W)))) = Some t" "length t = unat sz - Suc a"
    "\<forall>i<length t. \<exists>k. k \<le> length W \<and> t ! i = of_nat k - 1 \<and> Suc a + i < share (unat sz) W k \<and> (\<forall>m<k. share (unat sz) W m \<le> Suc a + i)"
    using Suc.hyps(1) [of "Suc a" k'] k'(2) by blast
  let ?t = "(of_nat k' - 1) # t"
  have "\<forall>i<length ?t. \<exists>k. k \<le> length W \<and> ?t ! i = of_nat k - 1 \<and> a + i < share (unat sz) W k \<and> (\<forall>m<k. share (unat sz) W m \<le> a + i)"
  proof (intro allI impI)
    fix i assume "i < length ?t"
    then show "\<exists>k. k \<le> length W \<and> ?t ! i = of_nat k - 1 \<and> a + i < share (unat sz) W k \<and> (\<forall>m<k. share (unat sz) W m \<le> a + i)"
      using k' t(3) by (cases i) auto
  qed
  moreover have "[a..<unat sz] = a # [Suc a..<unat sz]" using a by (simp add: upt_conv_Cons)
  ultimately show ?case using k'(5) t(1,2) a by (intro exI [of _ ?t]) simp
qed


lemma share_step_fair:
  assumes "j < length ws" and "0 < total_weight ws"
  shows "\<bar>(int (share n ws (Suc j)) - int (share n ws j)) * int (total_weight ws) - int n * int (unat (ws ! j))\<bar> < int (total_weight ws)"
proof -
  define T P w where "T = total_weight ws" and "P = sum_list (map unat (take j ws))" and "w = unat (ws ! j)"
  have s: "share n ws j = n * P div T" "share n ws (Suc j) = n * (P + w) div T"
    using assms(1) by (simp_all add: share_def T_def P_def w_def total_weight_def take_Suc_conv_app_nth)
  have div: "int (a div T) * int T = int a - int (a mod T)" for a
    using minus_mod_eq_div_mult [of "int a" "int T"] by (simp add: zdiv_int zmod_int)
  have "int (n * P div T) * int T = int n * int P - int (n * P mod T)"
    "int (n * (P + w) div T) * int T = int n * int P + int n * int w - int (n * (P + w) mod T)"
    unfolding div by (simp_all add: algebra_simps)
  moreover have "int (n * P mod T) < int T" "int (n * (P + w) mod T) < int T" using assms(2) by (simp_all add: T_def)
  ultimately show ?thesis unfolding s T_def [symmetric] w_def [symmetric] left_diff_distrib by linarith
qed

text \<open>C36: with weights whose sum is at most the size of the table and small enough for the product with the
  size not to leave 32 bits, the table is always found and sent. The entries of each ring are one
  interval, in the order of the rings: ring j has the entries from share j up to share (j + 1), so its number of entries
  differs from its exact proportion by less than one. Rings of weight 0 have none.\<close>

theorem indir_shares:
  assumes "get_weights as = Some ws" and "0 < total_weight ws" and "total_weight ws \<le> unat n"
    and "unat n * total_weight ws < 2 ^ 32" and "length ws < 2 ^ 32"
  shows "\<exists>t. do_srxfhindir (Some n) accept (''weight'' # as) = Indir_status (if accept t then 0 else 105) (Some t) \<and>
     length t = unat n \<and>
     (\<forall>j<length ws. {i. i < unat n \<and> t ! i = of_nat j} = {share (unat n) ws j..<share (unat n) ws (Suc j)} \<and>
        \<bar>int (card {i. i < unat n \<and> t ! i = of_nat j}) * int (total_weight ws) - int (unat n) * int (unat (ws ! j))\<bar> < int (total_weight ws))"
proof -
  have T: "unat (sum_list ws) = total_weight ws"
    unfolding of_nat_sum_unat [of ws, symmetric] total_weight_def [symmetric]
    using assms(3) unat_mod_le [of n] by (simp add: unat_of_nat)
  have ok: "\<not> (sum_list ws = 0 \<or> n < sum_list ws)"
    using T assms(2,3) by (auto simp: word_less_nat_alt)
  from indir_fill_spec [of n ws 0 0] assms(2,4) obtain t where
    t: "indir_fill n (sum_list ws) [0..<unat n] ws (- 1) 0 = Some t" "length t = unat n"
      "\<forall>i<length t. \<exists>k. k \<le> length ws \<and> t ! i = of_nat k - 1 \<and> i < share (unat n) ws k \<and> (\<forall>m<k. share (unat n) ws m \<le> i)"
    by auto
  have "as \<noteq> []" using assms(1,2) by (auto simp: total_weight_def)
  then have run: "do_srxfhindir (Some n) accept (''weight'' # as) = Indir_status (if accept t then 0 else 105) (Some t)"
    using assms(1) ok t(1) by (cases as) (simp_all add: do_srxfhindir_def indir_table_def)
  have entries: "{i. i < unat n \<and> t ! i = of_nat j} = {share (unat n) ws j..<share (unat n) ws (Suc j)}" if j: "j < length ws" for j
  proof -
    have "t ! i = of_nat j \<longleftrightarrow> share (unat n) ws j \<le> i \<and> i < share (unat n) ws (Suc j)" if i: "i < unat n" for i
    proof -
      obtain k where k: "k \<le> length ws" "t ! i = of_nat k - 1" "i < share (unat n) ws k" "\<forall>m<k. share (unat n) ws m \<le> i"
        using t(2,3) i by auto
      then obtain l where l: "k = Suc l" by (cases k) auto
      have "t ! i = of_nat j \<longleftrightarrow> l = j"
        using k(1,2) l j assms(5) by (auto simp: word_of_nat_eq_iff take_bit_nat_eq_self)
      moreover have "l = j" if "share (unat n) ws j \<le> i" "i < share (unat n) ws (Suc j)"
      proof (rule linorder_cases [of l j])
        assume "l < j"
        then have "share (unat n) ws (Suc l) \<le> share (unat n) ws j" by (intro share_mono) simp
        then show ?thesis using k(3) l that(1) by simp
      qed (use k(4) l that(2) in auto)
      ultimately show ?thesis using k(3,4) l by auto
    qed
    moreover have "share (unat n) ws (Suc j) \<le> unat n"
      using share_mono [of "Suc j" "length ws" "unat n" ws] share_all [OF assms(2), of "unat n"] j by simp
    ultimately show ?thesis by auto
  qed
  have "\<bar>int (card {i. i < unat n \<and> t ! i = of_nat j}) * int (total_weight ws) - int (unat n) * int (unat (ws ! j))\<bar> < int (total_weight ws)"
    if j: "j < length ws" for j
    using share_step_fair [OF j assms(2), of "unat n"] share_mono [of j "Suc j" "unat n" ws] by (simp add: entries [OF j] of_nat_diff)
  then show ?thesis using run t(2) entries by blast
qed

theorem indir_shares_witness:
  "\<exists>t. do_srxfhindir (Some 8) (\<lambda>_. True) [''weight'', ''1'', ''3''] = Indir_status 0 (Some t) \<and>
     {i. i < 8 \<and> t ! i = 0} = {0..<2} \<and> {i. i < 8 \<and> t ! i = 1} = {2..<8}"
proof -
  have num: "fmt_u 1 = ''1''" "fmt_u 3 = ''3''" by (simp_all add: fmt_u_def fmt_base_def digits_of.simps digit_char_nth)
  have ws: "get_weights [''1'', ''3''] = Some [1, 3]"
    using get_uint_range_fmt_u [of 1 "0xFFFFFFFF"] get_uint_range_fmt_u [of 3 "0xFFFFFFFF"] by (simp add: num [unfolded One_nat_def])
  have tw: "total_weight [1, 3] = 4" "share 8 [1, 3] (Suc 0) = 2" "share 8 [1, 3] (Suc (Suc 0)) = 8"
    by (simp_all add: total_weight_def share_def)
  obtain t where t: "do_srxfhindir (Some 8) (\<lambda>_. True) [''weight'', ''1'', ''3''] = Indir_status 0 (Some t)"
    "\<forall>j<2. {i. i < 8 \<and> t ! i = of_nat j} = {share 8 [1, 3] j..<share 8 [1, 3] (Suc j)}"
    using indir_shares [OF ws, of 8 "\<lambda>_. True"] by (auto simp: tw)
  from t(2) [rule_format, of 0] t(2) [rule_format, of 1] t(1) tw show ?thesis by (intro exI [of _ t]) simp
qed

end
