(* ===== verification/EthFeatures.thy ===== *)
theory EthFeatures
  imports EthCmdline
begin

text \<open>
  Offload features of an interface (\<open>src/ethernet_test/ethtool/ethtool.c\<close>): the association of the
  features that the kernel names with the twelve old flags, reading and showing their state, and
  changing them. Features come in blocks of 32 bits, which are functions of the number of the block. What the
  kernel answers is a parameter. Memory allocation does not fail.
\<close>

unbundle bit_operations_syntax

section \<open>The old flags\<close>

text \<open>Short name, long name, pattern of kernel names, whether there are commands of their own, and value.\<close>

definition off_flag_def :: "(cstr \<times> cstr \<times> cstr \<times> bool \<times> u32) list" where
  "off_flag_def =
     [(''rx'', ''rx-checksumming'', ''rx-checksum'', True, 0x1),
      (''tx'', ''tx-checksumming'', ''tx-checksum-*'', True, 0x2),
      (''sg'', ''scatter-gather'', ''tx-scatter-gather*'', True, 0x4),
      (''tso'', ''tcp-segmentation-offload'', ''tx-tcp*-segmentation'', True, 0x8),
      (''ufo'', ''udp-fragmentation-offload'', ''tx-udp-fragmentation'', True, 0x10),
      (''gso'', ''generic-segmentation-offload'', ''tx-generic-segmentation'', True, 0x20),
      (''gro'', ''generic-receive-offload'', ''rx-gro'', True, 0x40),
      (''lro'', ''large-receive-offload'', ''rx-lro'', False, 0x8000),
      (''rxvlan'', ''rx-vlan-offload'', ''rx-vlan-hw-parse'', False, 0x100),
      (''txvlan'', ''tx-vlan-offload'', ''tx-vlan-hw-insert'', False, 0x80),
      (''ntuple'', ''ntuple-filters'', ''rx-ntuple-filter'', False, 0x8000000),
      (''rxhash'', ''receive-hashing'', ''rx-hashing'', False, 0x10000000)]"

abbreviation off_short :: "nat \<Rightarrow> cstr" where "off_short i \<equiv> fst (off_flag_def ! i)"
abbreviation off_long :: "nat \<Rightarrow> cstr" where "off_long i \<equiv> fst (snd (off_flag_def ! i))"
abbreviation off_kernel :: "nat \<Rightarrow> cstr" where "off_kernel i \<equiv> fst (snd (snd (off_flag_def ! i)))"
abbreviation off_cmd :: "nat \<Rightarrow> bool" where "off_cmd i \<equiv> fst (snd (snd (snd (off_flag_def ! i))))"
abbreviation off_value :: "nat \<Rightarrow> u32" where "off_value i \<equiv> snd (snd (snd (snd (off_flag_def ! i))))"
abbreviation ETH_FLAG_EXT_MASK :: u32 where "ETH_FLAG_EXT_MASK \<equiv> 0x18008180"

text \<open>The comparison with a pattern: at the wildcard the rest of the name is cut to the length of the rest of the pattern.\<close>

fun feature_match :: "cstr \<Rightarrow> cstr \<Rightarrow> bool" where
  "feature_match [] name = (name = [])"
| "feature_match (c # pat) name =
     (if c = CHR ''*''
      then if length name < length pat then False else feature_match pat (drop (length name - length pat) name)
      else case name of [] \<Rightarrow> False | d # name' \<Rightarrow> if c \<noteq> d then False else feature_match pat name')"

definition off_flag_index :: "cstr \<Rightarrow> nat option" where
  "off_flag_index name = find (\<lambda>j. feature_match (off_kernel j) name) [0..<12]"

definition off_flag_matched :: "cstr list \<Rightarrow> nat \<Rightarrow> nat" where
  "off_flag_matched names j = length (filter (\<lambda>nm. off_flag_index nm = Some j) names)"

text \<open>The names of the features, or the error; that there are no named features is none.\<close>

definition get_feature_defs :: "int + cstr list \<Rightarrow> cstr list option" where
  "get_feature_defs names = (case names of Inr nms \<Rightarrow> Some nms
     | Inl errno \<Rightarrow> if errno = 95 \<or> errno = 22 \<or> errno = 1 then Some [] else None)"


section \<open>State\<close>

record feat_state =
  off_flags :: u32
  fs_available :: "nat \<Rightarrow> u32"
  fs_requested :: "nat \<Rightarrow> u32"
  fs_active :: "nat \<Rightarrow> u32"
  fs_never_changed :: "nat \<Rightarrow> u32"

definition feat_bit :: "(nat \<Rightarrow> u32) \<Rightarrow> nat \<Rightarrow> bool" where
  "feat_bit blocks index = bit (blocks (index div 32)) (index mod 32)"

text \<open>
  What the kernel answers: the value of an old flag, the flags, the features and the file in sysfs, each None
  for a failure. \<open>gf_junk\<close> is what the memory for the features held before.
\<close>

record feat_answers =
  gf_value :: "nat \<Rightarrow> u32 option"
  gf_flags :: "u32 option"
  gf_features :: "((nat \<Rightarrow> u32) \<times> (nat \<Rightarrow> u32) \<times> (nat \<Rightarrow> u32) \<times> (nat \<Rightarrow> u32)) option"
  gf_sysfs :: "cstr option"
  gf_junk :: "(nat \<Rightarrow> u32) \<times> (nat \<Rightarrow> u32) \<times> (nat \<Rightarrow> u32) \<times> (nat \<Rightarrow> u32)"

definition get_features :: "feat_answers \<Rightarrow> cstr list \<Rightarrow> feat_state option" where
  "get_features A names =
     (let old = fold (\<lambda>i (flags, ok). if \<not> off_cmd i then (flags, ok)
                  else case gf_value A i of None \<Rightarrow> (flags, ok)
                       | Some d \<Rightarrow> (if d \<noteq> 0 then flags OR off_value i else flags, True)) [0..<12] (0, False);
          (flags, ok) = (case gf_flags A of None \<Rightarrow> old | Some d \<Rightarrow> (fst old OR (d AND ETH_FLAG_EXT_MASK), True));
          (flags, ok) = (if names = []
             then (case gf_sysfs A of Some buf \<Rightarrow> if buf = [] then (flags, ok) else (flags OR (strtoul 0 buf AND 0x180), ok)
                   | None \<Rightarrow> (flags, ok))
             else (flags, ok \<or> gf_features A \<noteq> None));
          (av, rq, ac, nc) = (if names = [] then gf_junk A else case gf_features A of None \<Rightarrow> gf_junk A | Some f \<Rightarrow> f)
      in if ok then Some \<lparr>off_flags = flags, fs_available = av, fs_requested = rq, fs_active = ac, fs_never_changed = nc\<rparr>
         else None)"


section \<open>Showing features\<close>

definition dump_one_feature :: "cstr \<Rightarrow> cstr \<Rightarrow> feat_state \<Rightarrow> feat_state option \<Rightarrow> nat \<Rightarrow> cstr" where
  "dump_one_feature indent name st ref index =
     (let active = feat_bit (fs_active st) index; requested = feat_bit (fs_requested st) index in
      if (case ref of None \<Rightarrow> False | Some r \<Rightarrow> active = feat_bit (fs_active r) index) then []
      else indent @ name @ '': '' @ (if active then ''on'' else ''off'') @
        (if \<not> feat_bit (fs_available st) index \<or> feat_bit (fs_never_changed st) index then '' [fixed]''
         else if requested \<noteq> active then if requested then '' [requested on]'' else '' [requested off]''
         else []) @ nl)"

definition dump_features :: "cstr list \<Rightarrow> feat_state \<Rightarrow> feat_state option \<Rightarrow> cstr" where
  "dump_features names st ref =
     concat (map (\<lambda>i.
       let shown = (off_flag_matched names i \<noteq> 1 \<and>
              (case ref of None \<Rightarrow> True | Some r \<Rightarrow> (off_flags st XOR off_flags r) AND off_value i \<noteq> 0)) in
       (if shown then off_long i @ '': '' @ (if off_flags st AND off_value i \<noteq> 0 then ''on'' else ''off'') @ nl else []) @
       concat (map (\<lambda>j. if off_flag_index (names ! j) \<noteq> Some i then []
           else if off_flag_matched names i \<noteq> 1 then dump_one_feature (if shown then tab else []) (names ! j) st ref j
           else dump_one_feature [] (off_long i) st ref j) [0..<length names])) [0..<12]) @
     concat (map (\<lambda>j. if off_flag_index (names ! j) = None \<and> names ! j \<noteq> [] then dump_one_feature [] (names ! j) st ref j else [])
       [0..<length names])"

text \<open>The commands give None for a usage error, else the status and the output.\<close>

definition do_gfeatures :: "cstr \<Rightarrow> int + cstr list \<Rightarrow> feat_answers \<Rightarrow> cstr list \<Rightarrow> (int \<times> cstr) option" where
  "do_gfeatures devname names A args =
     (if args \<noteq> [] then None
      else case get_feature_defs names of None \<Rightarrow> Some (1, [])
      | Some nms \<Rightarrow>
          let h = ''Features for '' @ devname @ '':'' @ nl in
          case get_features A nms of None \<Rightarrow> Some (1, h @ ''no feature info available'' @ nl)
          | Some st \<Rightarrow> Some (0, h @ dump_features nms st None))"


section \<open>Changing features\<close>

text \<open>A request: the valid and the requested bits of all features, an old flag with its value, or all flags.\<close>

datatype feat_req = Sfeatures "nat \<Rightarrow> u32" "nat \<Rightarrow> u32" | Svalue nat bool | Sflags u32

definition requested_var :: "nat \<Rightarrow> cstr" where "requested_var b = ''requested '' @ fmt_u b"
definition valid_var :: "nat \<Rightarrow> cstr" where "valid_var b = ''valid '' @ fmt_u b"

definition cmdline_features :: "cstr list \<Rightarrow> cmdline_info list" where
  "cmdline_features names =
     map (\<lambda>i. flag_to_cmdline_info (off_short i) (off_value i) ''off_flags_wanted'' ''off_flags_mask'') [0..<12] @
     map (\<lambda>i. flag_to_cmdline_info (names ! i) (push_bit (i mod 32) 1) (requested_var (i div 32)) (valid_var (i div 32))) [0..<length names]"

definition set_feat_bit :: "nat \<Rightarrow> (nat \<Rightarrow> u32) \<Rightarrow> nat \<Rightarrow> u32" where
  "set_feat_bit j blocks = blocks(j div 32 := blocks (j div 32) OR push_bit (j mod 32) 1)"

text \<open>Every old flag that was named is passed on to the features of it that can change and were not named.\<close>

definition spread_flag :: "cstr list \<Rightarrow> feat_state \<Rightarrow> u32 \<Rightarrow> u32 \<Rightarrow> nat \<Rightarrow> (nat \<Rightarrow> u32) \<times> (nat \<Rightarrow> u32) \<Rightarrow> (nat \<Rightarrow> u32) \<times> (nat \<Rightarrow> u32)" where
  "spread_flag names st wanted msk i ef =
     (if msk AND off_value i = 0 then ef
      else fold (\<lambda>j (valid, requested).
          if off_flag_index (names ! j) \<noteq> Some i \<or> \<not> feat_bit (fs_available st) j \<or> feat_bit (fs_never_changed st) j
          then (valid, requested)
          else if feat_bit valid j then (valid, requested)
          else (set_feat_bit j valid, if wanted AND off_value i \<noteq> 0 then set_feat_bit j requested else requested))
        [0..<length names] ef)"

text \<open>The old flags one after the other; the requests made, and whether one failed.\<close>

fun set_values :: "(feat_req list \<Rightarrow> feat_req \<Rightarrow> bool) \<Rightarrow> u32 \<Rightarrow> u32 \<Rightarrow> nat list \<Rightarrow> feat_req list \<Rightarrow> feat_req list \<times> bool" where
  "set_values send wanted msk [] rs = (rs, True)"
| "set_values send wanted msk (i # is) rs =
     (if \<not> off_cmd i \<or> msk AND off_value i = 0 then set_values send wanted msk is rs
      else let r = Svalue i (wanted AND off_value i \<noteq> 0) in
        if send rs r then set_values send wanted msk is (rs @ [r]) else (rs @ [r], False))"

text \<open>
  \<open>send rs r\<close> is whether the kernel takes the request \<open>r\<close> after the requests \<open>rs\<close>, and \<open>A rs\<close> what it answers
  then. The outcome is None for a usage error, else the status, the output and the requests.
\<close>

definition do_sfeatures ::
  "int + cstr list \<Rightarrow> (feat_req list \<Rightarrow> feat_answers) \<Rightarrow> (feat_req list \<Rightarrow> feat_req \<Rightarrow> bool) \<Rightarrow> cstr list \<Rightarrow>
     (int \<times> cstr \<times> feat_req list) option" where
  "do_sfeatures names A send args =
     (case get_feature_defs names of None \<Rightarrow> Some (1, [], [])
      | Some nms \<Rightarrow>
          (case parse_generic_cmdline (cmdline_features nms) args (\<lambda>_. Num 0, False) of None \<Rightarrow> None
           | Some (s, changed) \<Rightarrow>
               if \<not> changed then Some (0, ''no features changed'' @ nl, [])
               else case get_features (A []) nms of None \<Rightarrow> Some (1, [], [])
               | Some old \<Rightarrow>
                   let wanted = flags_in s ''off_flags_wanted''; msk = flags_in s ''off_flags_mask'';
                       (valid, requested) = fold (spread_flag nms old wanted msk) [0..<12]
                          (\<lambda>b. flags_in s (valid_var b), \<lambda>b. flags_in s (requested_var b));
                       (rs, err) =
                         (if nms \<noteq> [] then ([Sfeatures valid requested], if send [] (Sfeatures valid requested) then 0 else 1)
                          else case set_values send wanted msk [0..<12] [] of (rs, ok) \<Rightarrow>
                            if \<not> ok then (rs, 1)
                            else if msk AND ETH_FLAG_EXT_MASK \<noteq> 0
                            then let r = Sflags ((off_flags old AND NOT msk AND ETH_FLAG_EXT_MASK) OR (wanted AND ETH_FLAG_EXT_MASK))
                                 in (rs @ [r], if send rs r then 0 else 92)
                            else (rs, 0))
                   in if err \<noteq> 0 then Some (err, [], rs)
                      else case get_features (A rs) nms of None \<Rightarrow> Some (1, [], rs)
                      | Some new \<Rightarrow>
                          let blocks = [0..<(length nms + 31) div 32];
                              any_changed = (off_flags new \<noteq> off_flags old \<or>
                                list_ex (\<lambda>b. fs_active new b \<noteq> fs_active old b) blocks);
                              any_mismatch = (off_flags new \<noteq> (off_flags old AND NOT msk) OR wanted \<or>
                                list_ex (\<lambda>b. fs_active new b \<noteq> (fs_active old b AND NOT (valid b)) OR requested b) blocks)
                          in if any_mismatch
                             then if \<not> any_changed then Some (1, [], rs)
                                  else Some (0, ''Actual changes:'' @ nl @ dump_features nms new (Some old), rs)
                             else Some (0, [], rs)))"



section \<open>Patterns\<close>

text \<open>A pattern with one wildcard matches the names that start and end as it does, without overlap.\<close>

lemma feature_match_plain: "CHR ''*'' \<notin> set pat \<Longrightarrow> feature_match pat name \<longleftrightarrow> name = pat"
  by (induction pat name rule: feature_match.induct) (auto split: list.splits)

lemma feature_match_glob:
  assumes "CHR ''*'' \<notin> set pre" and "CHR ''*'' \<notin> set suf"
  shows "feature_match (pre @ CHR ''*'' # suf) name \<longleftrightarrow> (\<exists>mid. name = pre @ mid @ suf)"
  using assms(1)
proof (induction pre arbitrary: name)
  case Nil
  have "feature_match (CHR ''*'' # suf) name \<longleftrightarrow> length suf \<le> length name \<and> drop (length name - length suf) name = suf"
    using feature_match_plain [OF assms(2)] by auto
  also have "\<dots> \<longleftrightarrow> (\<exists>mid. name = mid @ suf)"
    by (metis append_eq_conv_conj append_take_drop_id diff_diff_cancel le_add2 length_append length_drop add_diff_cancel_right')
  finally show ?case by simp
next
  case (Cons c pre)
  then show ?case by (cases name) auto
qed


section \<open>What is requested of the kernel\<close>

lemma feat_bit_set: "feat_bit (set_feat_bit j blocks) k \<longleftrightarrow> k = j \<or> feat_bit blocks k"
proof -
  have "k = j \<longleftrightarrow> k div 32 = j div 32 \<and> k mod 32 = j mod 32" by (metis div_mod_decomp)
  then show ?thesis by (auto simp: feat_bit_def set_feat_bit_def bit_simps)
qed

definition may_change :: "feat_state \<Rightarrow> nat \<Rightarrow> bool" where
  "may_change st j \<longleftrightarrow> feat_bit (fs_available st) j \<and> \<not> feat_bit (fs_never_changed st) j"

lemma spread_flag_bits:
  "feat_bit (fst (spread_flag names st wanted msk i ef)) k \<longleftrightarrow> feat_bit (fst ef) k \<or>
     msk AND off_value i \<noteq> 0 \<and> k < length names \<and> off_flag_index (names ! k) = Some i \<and> may_change st k"
  "feat_bit (snd (spread_flag names st wanted msk i ef)) k \<longleftrightarrow> feat_bit (snd ef) k \<or>
     msk AND off_value i \<noteq> 0 \<and> k < length names \<and> off_flag_index (names ! k) = Some i \<and> may_change st k \<and>
     \<not> feat_bit (fst ef) k \<and> wanted AND off_value i \<noteq> 0"
proof -
  let ?f = "\<lambda>j (valid, requested).
      if off_flag_index (names ! j) \<noteq> Some i \<or> \<not> feat_bit (fs_available st) j \<or> feat_bit (fs_never_changed st) j
      then (valid, requested)
      else if feat_bit valid j then (valid, requested)
      else (set_feat_bit j valid, if wanted AND off_value i \<noteq> 0 then set_feat_bit j requested else requested)"
  have "(feat_bit (fst (fold ?f [0..<n] ef)) k \<longleftrightarrow> feat_bit (fst ef) k \<or>
       k < n \<and> off_flag_index (names ! k) = Some i \<and> may_change st k) \<and>
     (feat_bit (snd (fold ?f [0..<n] ef)) k \<longleftrightarrow> feat_bit (snd ef) k \<or>
       k < n \<and> off_flag_index (names ! k) = Some i \<and> may_change st k \<and> \<not> feat_bit (fst ef) k \<and> wanted AND off_value i \<noteq> 0)" for n
  proof (induction n)
    case 0 show ?case by (simp only: upt_0 fold_Nil id_apply not_less0 simp_thms)
  next
    case (Suc n)
    obtain v r where vr: "fold ?f [0..<n] ef = (v, r)" by fastforce
    have 1: "feat_bit (fst (?f n (v, r))) k \<longleftrightarrow>
        feat_bit v k \<or> k = n \<and> off_flag_index (names ! n) = Some i \<and> may_change st n"
      by (cases "k = n") (auto simp: feat_bit_set may_change_def)
    have 2: "feat_bit (snd (?f n (v, r))) k \<longleftrightarrow> feat_bit r k \<or>
        k = n \<and> off_flag_index (names ! n) = Some i \<and> may_change st n \<and> \<not> feat_bit v n \<and> wanted AND off_value i \<noteq> 0"
      by (cases "k = n") (auto simp: feat_bit_set may_change_def)
    show ?case
    proof (cases "k = n")
      case True then show ?thesis using Suc.IH 1 2 unfolding fold_upt_Suc vr fst_conv snd_conv by simp
    next
      case False
      then have "k < Suc n \<longleftrightarrow> k < n" by (simp add: less_Suc_eq)
      with False show ?thesis using Suc.IH 1 2 unfolding fold_upt_Suc vr fst_conv snd_conv by simp
    qed
  qed
  from this [of "length names"] show
    "feat_bit (fst (spread_flag names st wanted msk i ef)) k \<longleftrightarrow> feat_bit (fst ef) k \<or>
     msk AND off_value i \<noteq> 0 \<and> k < length names \<and> off_flag_index (names ! k) = Some i \<and> may_change st k"
    "feat_bit (snd (spread_flag names st wanted msk i ef)) k \<longleftrightarrow> feat_bit (snd ef) k \<or>
     msk AND off_value i \<noteq> 0 \<and> k < length names \<and> off_flag_index (names ! k) = Some i \<and> may_change st k \<and>
     \<not> feat_bit (fst ef) k \<and> wanted AND off_value i \<noteq> 0"
    unfolding spread_flag_def by auto
qed

lemma spread_all_bits:
  assumes "k < length names"
  shows "feat_bit (fst (fold (spread_flag names st wanted msk) [0..<n] ef)) k \<longleftrightarrow> feat_bit (fst ef) k \<or>
     (\<exists>i<n. msk AND off_value i \<noteq> 0 \<and> off_flag_index (names ! k) = Some i \<and> may_change st k)"
    and "feat_bit (snd (fold (spread_flag names st wanted msk) [0..<n] ef)) k \<longleftrightarrow> feat_bit (snd ef) k \<or>
     (\<exists>i<n. msk AND off_value i \<noteq> 0 \<and> off_flag_index (names ! k) = Some i \<and> may_change st k \<and>
        \<not> feat_bit (fst ef) k \<and> wanted AND off_value i \<noteq> 0)"
proof (induction n)
  case (Suc n)
  { case 1 show ?case using Suc(1) assms by (simp add: spread_flag_bits less_Suc_eq) blast }
  { case 2 show ?case
    proof (cases "off_flag_index (names ! k) = Some n")
      case True
      then show ?thesis using Suc assms by (simp add: spread_flag_bits conj_commute cong: conj_cong)
    next
      case False
      then show ?thesis using Suc(2) assms by (simp add: spread_flag_bits less_Suc_eq) blast
    qed }
qed simp_all

lemma fmt_u_eq_iff: "fmt_u m = fmt_u n \<longleftrightarrow> m = n"
proof
  assume "fmt_u m = fmt_u n"
  then have "Some (False, m, [] :: cstr) = Some (False, n, [])"
    unfolding scan_number_0_fmt_u [symmetric] by (rule arg_cong)
  then show "m = n" by blast
qed (rule arg_cong)

lemma feature_vars:
  "valid_var b = valid_var c \<longleftrightarrow> b = c" "requested_var b = requested_var c \<longleftrightarrow> b = c"
  "valid_var b \<noteq> requested_var c" "requested_var c \<noteq> valid_var b"
  "''off_flags_mask'' \<noteq> valid_var b" "''off_flags_mask'' \<noteq> requested_var b"
  "''off_flags_wanted'' \<noteq> valid_var b" "''off_flags_wanted'' \<noteq> requested_var b"
  by (simp_all add: valid_var_def requested_var_def fmt_u_eq_iff)

text \<open>The names of features that the parser can tell apart.\<close>

definition names_ok :: "cstr list \<Rightarrow> bool" where
  "names_ok names \<longleftrightarrow> distinct names \<and> list_all (\<lambda>nm. nm \<notin> set (map off_short [0..<12])) names"

lemma find_feature:
  assumes "names_ok names"
  shows "find (\<lambda>ci. ci_name ci = a) (cmdline_features names) = Some ci \<longleftrightarrow>
     (\<exists>i<12. a = off_short i \<and> ci = flag_to_cmdline_info a (off_value i) ''off_flags_wanted'' ''off_flags_mask'') \<or>
     (\<exists>i<length names. a = names ! i \<and>
        ci = flag_to_cmdline_info a (push_bit (i mod 32) 1) (requested_var (i div 32)) (valid_var (i div 32)))"
proof -
  have n: "map ci_name (cmdline_features names) = map off_short [0..<12] @ names"
    by (simp add: cmdline_features_def flag_to_cmdline_info_def comp_def map_nth)
  have "distinct (map off_short [0..<12])" by code_simp
  then have d: "distinct (map ci_name (cmdline_features names))"
    unfolding n using assms by (auto simp: names_ok_def list_all_iff)
  have "find (\<lambda>ci. ci_name ci = a) (cmdline_features names) = Some ci \<longleftrightarrow> ci \<in> set (cmdline_features names) \<and> ci_name ci = a"
    using find_named [OF d, of ci] find_SomeD [of "\<lambda>ci. ci_name ci = a" "cmdline_features names" ci] by blast
  also have "ci \<in> set (cmdline_features names) \<longleftrightarrow>
     (\<exists>i<12. ci = flag_to_cmdline_info (off_short i) (off_value i) ''off_flags_wanted'' ''off_flags_mask'') \<or>
     (\<exists>i<length names. ci = flag_to_cmdline_info (names ! i) (push_bit (i mod 32) 1) (requested_var (i div 32)) (valid_var (i div 32)))"
    unfolding cmdline_features_def set_append set_map set_upt by (simp only: Un_iff image_iff Bex_def atLeastLessThan_iff le0 simp_thms)
  finally have mem: "find (\<lambda>ci. ci_name ci = a) (cmdline_features names) = Some ci \<longleftrightarrow>
     ((\<exists>i<12. ci = flag_to_cmdline_info (off_short i) (off_value i) ''off_flags_wanted'' ''off_flags_mask'') \<or>
      (\<exists>i<length names. ci = flag_to_cmdline_info (names ! i) (push_bit (i mod 32) 1) (requested_var (i div 32)) (valid_var (i div 32)))) \<and>
     ci_name ci = a" .
  have nm: "ci_name (flag_to_cmdline_info nm v w m) = nm" for nm v w m by (simp add: flag_to_cmdline_info_def)
  show ?thesis unfolding mem by (intro iffI; elim conjE disjE exE) (simp_all add: nm, auto)
qed


lemma gives_feature:
  assumes "names_ok names"
  shows "gives_flag (cmdline_features names) x b g \<longleftrightarrow>
     (\<exists>i<12. fst g = off_short i \<and> bit (off_value i) b \<and>
        (x = ''off_flags_mask'' \<or> x = ''off_flags_wanted'' \<and> snd g = ''on'')) \<or>
     (\<exists>i<length names. fst g = names ! i \<and> b = i mod 32 \<and>
        (x = valid_var (i div 32) \<or> x = requested_var (i div 32) \<and> snd g = ''on''))"
proof -
  have "gives_flag (cmdline_features names) x b g \<longleftrightarrow>
      (\<exists>ci. find (\<lambda>ci. ci_name ci = fst g) (cmdline_features names) = Some ci \<and>
         bit (flag_val ci) b \<and> (seen_val ci = x \<or> wanted_val ci = x \<and> snd g = ''on''))"
    by (simp add: gives_flag_def split: option.split)
  moreover have "bit (push_bit (i mod 32) 1 :: u32) b \<longleftrightarrow> b = i mod 32" for i by (auto simp: bit_simps)
  ultimately show ?thesis unfolding find_feature [OF assms]
    by (auto simp: flag_to_cmdline_info_def)
qed

lemma flag_table_features: "flag_table (cmdline_features names)"
  by (auto simp: flag_table_def cmdline_features_def flag_to_cmdline_info_def list_all_iff)

lemma features_named:
  assumes "parse_generic_cmdline (cmdline_features names) args (\<lambda>_. Num 0, False) = Some (s, c)"
    and "names_ok names" and "j < length names"
  shows "feat_bit (\<lambda>b. flags_in s (valid_var b)) j \<longleftrightarrow> names ! j \<in> fst ` set (arg_pairs args)"
    and "feat_bit (\<lambda>b. flags_in s (requested_var b)) j \<longleftrightarrow> (names ! j, ''on'') \<in> set (arg_pairs args)"
proof -
  note p = parse_flags [OF assms(1) flag_table_features]
  note vars = feature_vars feature_vars(3-8) [THEN not_sym]
  have j: "j mod 32 = i mod 32 \<and> j div 32 = i div 32 \<longleftrightarrow> i = j" for i by (metis div_mod_decomp)
  have j': "j mod 32 = i mod 32 \<Longrightarrow> j div 32 = i div 32 \<Longrightarrow> i = j" for i using j by blast
  have z: "flags_in (\<lambda>_. Num 0) x = 0" for x by (simp add: flags_in_def)
  have "gives_flag (cmdline_features names) (valid_var (j div 32)) (j mod 32) g \<longleftrightarrow> fst g = names ! j" for g
    unfolding gives_feature [OF assms(2)] using assms(3) j by (simp add: vars)
  then show "feat_bit (\<lambda>b. flags_in s (valid_var b)) j \<longleftrightarrow> names ! j \<in> fst ` set (arg_pairs args)"
    unfolding feat_bit_def p z by (simp add: image_iff eq_commute)
  have "gives_flag (cmdline_features names) (requested_var (j div 32)) (j mod 32) g \<longleftrightarrow> g = (names ! j, ''on'')" for g
    unfolding gives_feature [OF assms(2)] prod_eq_iff using assms(3)
    by (simp add: vars) (metis j')
  then show "feat_bit (\<lambda>b. flags_in s (requested_var b)) j \<longleftrightarrow> (names ! j, ''on'') \<in> set (arg_pairs args)"
    unfolding feat_bit_def p z by simp
qed

lemma off_values_disjoint: "i < 12 \<Longrightarrow> k < 12 \<Longrightarrow> bit (off_value i) b \<Longrightarrow> bit (off_value k) b \<Longrightarrow> i = k"
proof -
  assume *: "i < 12" "k < 12" "bit (off_value i) b" "bit (off_value k) b"
  have "list_all (\<lambda>i. list_all (\<lambda>k. i = k \<or> off_value i AND off_value k = 0) [0..<12]) [0..<12]" by code_simp
  then have "i = k \<or> off_value i AND off_value k = 0" using * by (auto simp: list_all_iff)
  moreover have "bit (off_value i AND off_value k) b" using * by (simp add: bit_and_iff)
  ultimately show "i = k" by fastforce
qed

lemma off_value_bit: "i < 12 \<Longrightarrow> \<exists>b. bit (off_value i) b"
proof -
  assume *: "i < 12"
  have "list_all (\<lambda>i. off_value i \<noteq> 0) [0..<12]" by code_simp
  then have "off_value i \<noteq> 0" using * by (auto simp: list_all_iff)
  then show ?thesis by (metis bit_0_eq bit_eq_iff bot_apply bot_bool_def)
qed

lemma and_nonzero: "(a :: u32) AND b \<noteq> 0 \<longleftrightarrow> (\<exists>i. bit a i \<and> bit b i)"
proof -
  have "bit b i \<Longrightarrow> i < 32" for i using bit_imp_le_length [of b i] by simp
  then show ?thesis unfolding bit_eq_iff by (auto simp: bit_and_iff)
qed

lemma exchange_ex:
  "(\<exists>g\<in>S. \<exists>i<n. fst g = f i \<and> P i) \<longleftrightarrow> (\<exists>i<n. f i \<in> fst ` S \<and> P i)"
  by (simp add: image_iff) metis

lemma exchange_ex2:
  "(\<exists>g\<in>S. \<exists>i<n. fst g = f i \<and> P i \<and> snd g = v) \<longleftrightarrow> (\<exists>i<n. (f i, v) \<in> S \<and> P i)"
  by (metis prod.collapse fst_conv snd_conv)

lemma flags_named:
  assumes "parse_generic_cmdline (cmdline_features names) args (\<lambda>_. Num 0, False) = Some (s, c)"
    and "names_ok names" and "k < 12"
  shows "flags_in s ''off_flags_mask'' AND off_value k \<noteq> 0 \<longleftrightarrow> off_short k \<in> fst ` set (arg_pairs args)"
    and "flags_in s ''off_flags_wanted'' AND off_value k \<noteq> 0 \<longleftrightarrow> (off_short k, ''on'') \<in> set (arg_pairs args)"
proof -
  note p = parse_flags [OF assms(1) flag_table_features]
  have z: "flags_in (\<lambda>_. Num 0) x = 0" for x by (simp add: flags_in_def)
  have o: "(\<exists>i<12. P i \<and> bit (off_value i) b) \<and> bit (off_value k) b \<longleftrightarrow> P k \<and> bit (off_value k) b" for P b
    using off_values_disjoint assms(3) by blast
  have "bit (flags_in s ''off_flags_mask'') b \<longleftrightarrow>
      (\<exists>i<12. off_short i \<in> fst ` set (arg_pairs args) \<and> bit (off_value i) b)" for b
    unfolding p z gives_feature [OF assms(2)] by (simp add: feature_vars exchange_ex exchange_ex2)
  then show "flags_in s ''off_flags_mask'' AND off_value k \<noteq> 0 \<longleftrightarrow> off_short k \<in> fst ` set (arg_pairs args)"
    unfolding and_nonzero using off_value_bit [OF assms(3)] by (simp only: o) blast
  have "bit (flags_in s ''off_flags_wanted'') b \<longleftrightarrow>
      (\<exists>i<12. (off_short i, ''on'') \<in> set (arg_pairs args) \<and> bit (off_value i) b)" for b
    unfolding p z gives_feature [OF assms(2)] by (simp add: feature_vars exchange_ex exchange_ex2)
  then show "flags_in s ''off_flags_wanted'' AND off_value k \<noteq> 0 \<longleftrightarrow> (off_short k, ''on'') \<in> set (arg_pairs args)"
    unfolding and_nonzero using off_value_bit [OF assms(3)] by (simp only: o) blast
qed


lemma off_flag_index_less: "off_flag_index nm = Some i \<Longrightarrow> i < 12"
  using find_SomeD [of "\<lambda>j. feature_match (off_kernel j) nm" "[0..<12]" i]
  unfolding off_flag_index_def set_upt by simp



text \<open>Turning transmit checksums on and receive offload off, where both can change.\<close>

definition sample_answers :: feat_answers where
  "sample_answers = \<lparr>gf_value = (\<lambda>_. None), gf_flags = None,
     gf_features = Some (\<lambda>_. 3, \<lambda>_. 2, \<lambda>_. 2, \<lambda>_. 0), gf_sysfs = None, gf_junk = (\<lambda>_. 0, \<lambda>_. 0, \<lambda>_. 0, \<lambda>_. 0)\<rparr>"


end
