(* ===== verification/EthSettings.thy ===== *)
theory EthSettings
  imports EthCmdline
begin

text \<open>
  Link settings, wake-on-LAN and message level of an interface (\<open>src/ethernet_test/ethtool/ethtool.c\<close>): showing
  them with \<open>do_gset\<close> and changing them with \<open>do_sset\<close>. What the kernel answers is a parameter. Of \<open>struct
  ethtool_cmd\<close> the fields that the code never reads or writes are left out.
\<close>

unbundle bit_operations_syntax

section \<open>Settings\<close>

record ethtool_cmd =
  supported :: u32
  advertising :: u32
  lp_advertising :: u32
  speed :: u16
  speed_hi :: u16
  duplex :: u8
  port :: u8
  phy_address :: u8
  transceiver :: u8
  autoneg :: u8
  eth_tp_mdix :: u8
  eth_tp_mdix_ctrl :: u8

definition ethtool_cmd_speed_set :: "u32 \<Rightarrow> ethtool_cmd \<Rightarrow> ethtool_cmd" where
  "ethtool_cmd_speed_set v ep = ep\<lparr>speed := ucast v, speed_hi := ucast (drop_bit 16 v)\<rparr>"

definition ethtool_cmd_speed :: "ethtool_cmd \<Rightarrow> u32" where
  "ethtool_cmd_speed ep = push_bit 16 (ucast (speed_hi ep)) OR ucast (speed ep)"

record wolinfo =
  wol_supported :: u32
  wolopts :: u32
  sopass :: "u8 list"


section \<open>Showing settings\<close>

definition mode_defs :: "(bool \<times> u32 \<times> cstr) list" where
  "mode_defs =
     [(False, 0x1, ''10baseT/Half''), (True, 0x2, ''10baseT/Full''),
      (False, 0x4, ''100baseT/Half''), (True, 0x8, ''100baseT/Full''),
      (False, 0x10, ''1000baseT/Half''), (True, 0x20, ''1000baseT/Full''),
      (False, 0x20000, ''1000baseKX/Full''), (False, 0x8000, ''2500baseX/Full''),
      (False, 0x1000, ''10000baseT/Full''), (False, 0x40000, ''10000baseKX4/Full''),
      (False, 0x200000, ''20000baseMLD2/Full''), (False, 0x800000, ''40000baseKR4/Full''),
      (False, 0x1000000, ''40000baseCR4/Full''), (False, 0x2000000, ''40000baseSR4/Full''),
      (False, 0x4000000, ''40000baseLR4/Full'')]"

text \<open>The loop over the modes, with whether one was printed and whether a new line is due.\<close>

fun link_modes :: "(bool \<times> u32 \<times> cstr) list \<Rightarrow> nat \<Rightarrow> u32 \<Rightarrow> bool \<Rightarrow> bool \<Rightarrow> cstr \<times> bool" where
  "link_modes [] indent msk did1 pend = ([], did1)"
| "link_modes ((same_line, val, nm) # ms) indent msk did1 pend =
     (let pend' = (pend \<or> did1 \<and> \<not> same_line) in
      if msk AND val \<noteq> 0
      then let (t, d) = link_modes ms indent msk True False
           in ((if pend' then nl @ tab @ replicate indent CHR '' '' else []) @ nm @ '' '' @ t, d)
      else link_modes ms indent msk did1 pend')"

definition dump_link_caps :: "cstr \<Rightarrow> cstr \<Rightarrow> u32 \<Rightarrow> bool \<Rightarrow> cstr" where
  "dump_link_caps prefix an_prefix msk link_mode_only =
     (let indent = max 24 (length prefix + 14); (t, did1) = link_modes mode_defs indent msk False False in
      tab @ prefix @ '' link modes:'' @ replicate (indent - length prefix - 12) CHR '' '' @ t @
      (if did1 then [] else ''Not reported'') @ nl @
      (if link_mode_only then []
       else tab @ prefix @ '' pause frame use: '' @
         (if msk AND 0x2000 \<noteq> 0 then ''Symmetric'' @ (if msk AND 0x4000 \<noteq> 0 then '' Receive-only'' else []) @ nl
          else if msk AND 0x4000 \<noteq> 0 then ''Transmit-only'' @ nl else ''No'' @ nl) @
         tab @ an_prefix @ '' auto-negotiation: '' @ (if msk AND 0x40 \<noteq> 0 then ''Yes'' else ''No'') @ nl))"

definition dump_supported :: "ethtool_cmd \<Rightarrow> cstr" where
  "dump_supported ep =
     (let msk = supported ep in
      tab @ ''Supported ports: [ '' @ (if msk AND 0x80 \<noteq> 0 then ''TP '' else []) @ (if msk AND 0x100 \<noteq> 0 then ''AUI '' else []) @
      (if msk AND 0x800 \<noteq> 0 then ''BNC '' else []) @ (if msk AND 0x200 \<noteq> 0 then ''MII '' else []) @
      (if msk AND 0x400 \<noteq> 0 then ''FIBRE '' else []) @ '']'' @ nl @ dump_link_caps ''Supported'' ''Supports'' msk False)"

abbreviation port_names :: "(u8 \<times> cstr) list" where
  "port_names \<equiv> [(0, ''Twisted Pair''), (1, ''AUI''), (4, ''BNC''), (2, ''MII''), (3, ''FIBRE''), (5, ''Direct Attach Copper''),
     (0xEF, ''None''), (0xFF, ''Other'')]"

definition dump_ecmd :: "ethtool_cmd \<Rightarrow> cstr" where
  "dump_ecmd ep =
     dump_supported ep @ dump_link_caps ''Advertised'' ''Advertised'' (advertising ep) False @
     (if lp_advertising ep \<noteq> 0
      then dump_link_caps ''Link partner advertised'' ''Link partner advertised'' (lp_advertising ep) False else []) @
     tab @ ''Speed: '' @
     (let sp = ethtool_cmd_speed ep in
      if sp = 0 \<or> sp = 0xFFFF \<or> sp = - 1 then ''Unknown!'' @ nl else fmt_u (unat sp) @ ''Mb/s'' @ nl) @
     tab @ ''Duplex: '' @
     (if duplex ep = 0 then ''Half'' else if duplex ep = 1 then ''Full''
      else ''Unknown! ('' @ fmt_u (unat (duplex ep)) @ '')'') @ nl @
     tab @ ''Port: '' @
     (case map_of port_names (port ep) of Some nm \<Rightarrow> nm | None \<Rightarrow> ''Unknown! ('' @ fmt_u (unat (port ep)) @ '')'') @ nl @
     tab @ ''PHYAD: '' @ fmt_u (unat (phy_address ep)) @ nl @
     tab @ ''Transceiver: '' @
     (if transceiver ep = 0 then ''internal'' else if transceiver ep = 1 then ''external'' else ''Unknown!'') @ nl @
     tab @ ''Auto-negotiation: '' @ (if autoneg ep = 0 then ''off'' else ''on'') @ nl @
     (if port ep = 0
      then tab @ ''MDI-X: '' @
        (if eth_tp_mdix_ctrl ep = 1 then ''off (forced)'' @ nl
         else if eth_tp_mdix_ctrl ep = 2 then ''on (forced)'' @ nl
         else (if eth_tp_mdix ep = 1 then ''off'' else if eth_tp_mdix ep = 2 then ''on'' else ''Unknown'') @
           (if eth_tp_mdix_ctrl ep = 3 then '' (auto)'' else []) @ nl)
      else [])"

text \<open>The letters of wake-on-LAN.\<close>

definition wol_letters :: "(char \<times> u32) list" where
  "wol_letters = [(CHR ''p'', 0x1), (CHR ''u'', 0x2), (CHR ''m'', 0x4), (CHR ''b'', 0x8), (CHR ''a'', 0x10), (CHR ''g'', 0x20),
     (CHR ''s'', 0x40)]"

fun parse_wolopts :: "cstr \<Rightarrow> u32 \<Rightarrow> u32 option" where
  "parse_wolopts [] dat = Some dat"
| "parse_wolopts (c # cs) dat =
     (if c = CHR ''d'' then parse_wolopts cs 0
      else case map_of wol_letters c of None \<Rightarrow> None | Some b \<Rightarrow> parse_wolopts cs (dat OR b))"

definition unparse_wolopts :: "u32 \<Rightarrow> cstr" where
  "unparse_wolopts opts = (if opts \<noteq> 0 then map fst (filter (\<lambda>(c, b). opts AND b \<noteq> 0) wol_letters) else ''d'')"

definition dump_wol :: "wolinfo \<Rightarrow> cstr" where
  "dump_wol wol =
     tab @ ''Supports Wake-on: '' @ unparse_wolopts (wol_supported wol) @ nl @
     tab @ ''Wake-on: '' @ unparse_wolopts (wolopts wol) @ nl @
     (if wol_supported wol AND 0x40 \<noteq> 0
      then ''        SecureOn password: '' @
        concat (map (\<lambda>i. (if i = 0 then [] else '':'') @ fmt_0x 2 (unat (sopass wol ! i))) [0..<6]) @ nl
      else [])"

definition flags_msglvl :: "(cstr \<times> u32) list" where
  "flags_msglvl =
     [(''drv'', 0x1), (''probe'', 0x2), (''link'', 0x4), (''timer'', 0x8), (''ifdown'', 0x10), (''ifup'', 0x20), (''rx_err'', 0x40),
      (''tx_err'', 0x80), (''tx_queued'', 0x100), (''intr'', 0x200), (''tx_done'', 0x400), (''rx_status'', 0x800),
      (''pktdata'', 0x1000), (''hw'', 0x2000), (''wol'', 0x4000)]"

text \<open>What the kernel answers: settings, wake-on-LAN, message level and link, each None for a failure.\<close>

record settings =
  sa_cmd :: "ethtool_cmd option"
  sa_wol :: "wolinfo option"
  sa_msglvl :: "u32 option"
  sa_link :: "u32 option"

text \<open>None is a usage error, else the status and the output.\<close>

definition do_gset :: "cstr \<Rightarrow> settings \<Rightarrow> cstr list \<Rightarrow> (int \<times> cstr) option" where
  "do_gset devname A args =
     (if args \<noteq> [] then None
      else let out = ''Settings for '' @ devname @ '':'' @ nl @
          (case sa_cmd A of Some ecmd \<Rightarrow> dump_ecmd ecmd | None \<Rightarrow> []) @
          (case sa_wol A of Some wol \<Rightarrow> dump_wol wol | None \<Rightarrow> []) @
          (case sa_msglvl A of
             Some d \<Rightarrow> tab @ ''Current message level: 0x'' @ fmt_0x 8 (unat d) @ '' ('' @ fmt_d (sint d) @ '')'' @ nl @
               tab @ tab @ tab @ ''       '' @ print_flags flags_msglvl [] d @ nl
           | None \<Rightarrow> []) @
          (case sa_link A of Some d \<Rightarrow> tab @ ''Link detected: '' @ (if d \<noteq> 0 then ''yes'' else ''no'') @ nl | None \<Rightarrow> [])
        in if sa_cmd A = None \<and> sa_wol A = None \<and> sa_msglvl A = None \<and> sa_link A = None
           then Some (75, out @ ''No data available'' @ nl) else Some (0, out))"


section \<open>Changing settings\<close>

record sset_vars =
  speed_wanted :: int
  duplex_wanted :: int
  port_wanted :: int
  mdix_wanted :: int
  autoneg_wanted :: int
  phyad_wanted :: int
  xcvr_wanted :: int
  full_advertising_wanted :: int
  gset_changed :: bool
  wol_wanted :: u32
  wol_change :: bool
  sopass_wanted :: "u8 list"
  sopass_change :: bool
  gwol_changed :: bool
  msglvl_changed :: bool
  msglvl_wanted :: u32
  msglvl_mask :: u32

definition sset_init :: sset_vars where
  "sset_init = \<lparr>speed_wanted = - 1, duplex_wanted = - 1, port_wanted = - 1, mdix_wanted = - 1, autoneg_wanted = - 1,
     phyad_wanted = - 1, xcvr_wanted = - 1, full_advertising_wanted = - 1, gset_changed = False, wol_wanted = 0,
     wol_change = False, sopass_wanted = [], sopass_change = False, gwol_changed = False, msglvl_changed = False,
     msglvl_wanted = 0, msglvl_mask = 0\<rparr>"

text \<open>One option with its value.\<close>

definition sset_opt :: "cstr \<Rightarrow> cstr \<Rightarrow> sset_vars \<Rightarrow> sset_vars option" where
  "sset_opt opt arg v =
     (let g = v\<lparr>gset_changed := True\<rparr> in
      if opt = ''speed'' then map_option (\<lambda>n. g\<lparr>speed_wanted := n\<rparr>) (get_int arg 10)
      else if opt = ''duplex'' then map_option (\<lambda>n. g\<lparr>duplex_wanted := n\<rparr>) (map_of [(''half'', 0), (''full'', 1)] arg)
      else if opt = ''port''
      then map_option (\<lambda>n. g\<lparr>port_wanted := n\<rparr>) (map_of [(''tp'', 0), (''aui'', 1), (''bnc'', 4), (''mii'', 2), (''fibre'', 3)] arg)
      else if opt = ''mdix'' then map_option (\<lambda>n. g\<lparr>mdix_wanted := n\<rparr>) (map_of [(''auto'', 3), (''on'', 2), (''off'', 1)] arg)
      else if opt = ''autoneg'' then map_option (\<lambda>n. g\<lparr>autoneg_wanted := n\<rparr>) (map_of [(''on'', 1), (''off'', 0)] arg)
      else if opt = ''advertise'' then map_option (\<lambda>n. g\<lparr>full_advertising_wanted := n\<rparr>) (get_int arg 16)
      else if opt = ''phyad'' then map_option (\<lambda>n. g\<lparr>phyad_wanted := n\<rparr>) (get_int arg 0)
      else if opt = ''xcvr'' then map_option (\<lambda>n. g\<lparr>xcvr_wanted := n\<rparr>) (map_of [(''internal'', 0), (''external'', 1)] arg)
      else if opt = ''wol''
      then map_option (\<lambda>w. v\<lparr>gwol_changed := True, wol_wanted := w, wol_change := True\<rparr>) (parse_wolopts arg 0)
      else if opt = ''sopass''
      then map_option (\<lambda>bs. v\<lparr>gwol_changed := True, sopass_wanted := bs, sopass_change := True\<rparr>) (get_mac_addr arg)
      else if opt = ''msglvl''
      then map_option (\<lambda>n. v\<lparr>msglvl_changed := True, msglvl_mask := - 1, msglvl_wanted := ucast n\<rparr>) (get_uint_range arg 0 0xFFFFFFFF)
      else None)"

text \<open>Message levels by name take all arguments that are left.\<close>

definition sset_msglvl :: "cstr list \<Rightarrow> sset_vars \<Rightarrow> sset_vars option" where
  "sset_msglvl args v =
     map_option (\<lambda>(s, changed). v\<lparr>msglvl_changed := changed, msglvl_wanted := flags_in s ''wanted'', msglvl_mask := flags_in s ''mask''\<rparr>)
       (parse_generic_cmdline (map (\<lambda>(nm, b). flag_to_cmdline_info nm b ''wanted'' ''mask'') flags_msglvl) args
          ((\<lambda>_. Num 0)(''wanted'' := Num (uint (msglvl_wanted v)), ''mask'' := Num (uint (msglvl_mask v))), msglvl_changed v))"

fun sset_args :: "cstr list \<Rightarrow> sset_vars \<Rightarrow> sset_vars option" where
  "sset_args [] v = Some v"
| "sset_args [opt] v = None"
| "sset_args (opt # arg # args) v =
     (if opt = ''msglvl'' \<and> (arg = [] \<or> \<not> isdigit (hd arg)) then sset_msglvl (arg # args) v
      else case sset_opt opt arg v of None \<Rightarrow> None | Some v' \<Rightarrow> sset_args args v')"

abbreviation ALL_ADVERTISED_MODES :: u32 where "ALL_ADVERTISED_MODES \<equiv> 0x7FC803F"

definition advertising_wanted :: "sset_vars \<Rightarrow> int" where
  "advertising_wanted v =
     (if full_advertising_wanted v < 0
      then case map_of [((10, 0), 0x1), ((10, 1), 0x2), ((100, 0), 0x4), ((100, 1), 0x8), ((1000, 0), 0x10), ((1000, 1), 0x20),
               ((2500, 1), 0x8000), ((10000, 1), 0x1000)] (speed_wanted v, duplex_wanted v)
           of Some b \<Rightarrow> b | None \<Rightarrow> 0
      else - 1)"

definition sset_ecmd :: "sset_vars \<Rightarrow> ethtool_cmd \<Rightarrow> ethtool_cmd" where
  "sset_ecmd v ecmd =
     (let change = (\<lambda>wanted old. if wanted \<noteq> - 1 then of_int wanted else old);
          adv = advertising_wanted v
      in (if speed_wanted v \<noteq> - 1 then ethtool_cmd_speed_set (of_int (speed_wanted v)) ecmd else ecmd)
         \<lparr>duplex := change (duplex_wanted v) (duplex ecmd),
          port := change (port_wanted v) (port ecmd),
          eth_tp_mdix_ctrl := if eth_tp_mdix_ctrl ecmd \<noteq> 0 then change (mdix_wanted v) (eth_tp_mdix_ctrl ecmd) else 0,
          autoneg := change (autoneg_wanted v) (autoneg ecmd),
          phy_address := change (phyad_wanted v) (phy_address ecmd),
          transceiver := change (xcvr_wanted v) (transceiver ecmd),
          advertising :=
            if autoneg_wanted v = 1 \<and> adv = 0
            then (advertising ecmd AND NOT ALL_ADVERTISED_MODES) OR (ALL_ADVERTISED_MODES AND supported ecmd)
            else if adv > 0 then (advertising ecmd AND NOT ALL_ADVERTISED_MODES) OR of_int adv
            else if full_advertising_wanted v > 0 then of_int (full_advertising_wanted v)
            else advertising ecmd\<rparr>)"

datatype sset_req = Sset ethtool_cmd | Swol wolinfo | Smsglvl u32

text \<open>
  \<open>A rs\<close> is what the kernel answers after the requests \<open>rs\<close>. The outcome is None for a usage error, else the
  requests; whether the kernel takes a request only decides about messages, and the status is always 0.
\<close>

definition do_sset :: "(sset_req list \<Rightarrow> settings) \<Rightarrow> cstr list \<Rightarrow> sset_req list option" where
  "do_sset A args =
     (case sset_args args sset_init of None \<Rightarrow> None
      | Some v \<Rightarrow>
          let r1 = (if gset_changed v then case sa_cmd (A []) of None \<Rightarrow> [] | Some ecmd \<Rightarrow> [Sset (sset_ecmd v ecmd)] else []);
              r2 = (if gwol_changed v then case sa_wol (A r1) of None \<Rightarrow> r1
                    | Some wol \<Rightarrow> r1 @ [Swol (wol\<lparr>wolopts := if wol_change v then wol_wanted v else wolopts wol,
                                               sopass := if sopass_change v then sopass_wanted v else sopass wol\<rparr>)]
                    else r1)
          in Some (if msglvl_changed v then case sa_msglvl (A r2) of None \<Rightarrow> r2
                   | Some d \<Rightarrow> r2 @ [Smsglvl ((d AND NOT (msglvl_mask v)) OR msglvl_wanted v)]
                   else r2))"


section \<open>Round trips\<close>

lemma speed_set_get: "ethtool_cmd_speed (ethtool_cmd_speed_set v ep) = v"
  by (auto simp: ethtool_cmd_speed_def ethtool_cmd_speed_set_def bit_eq_iff bit_simps)

text \<open>Letters printed for a value are read back as the value, up to the flags that have no letter.\<close>

lemma parse_wol_table:
  assumes "distinct (map fst T)" and "CHR ''d'' \<notin> fst ` set T" and "set T \<subseteq> set wol_letters"
  shows "parse_wolopts (map fst (filter (\<lambda>(c, b). w AND b \<noteq> 0) T)) dat =
     Some (fold (\<lambda>(c, b) d. if w AND b \<noteq> 0 then d OR b else d) T dat)"
  using assms
proof (induction T arbitrary: dat)
  case (Cons cb T)
  obtain c b where cb: "cb = (c, b)" by fastforce
  have "distinct (map fst wol_letters)" by code_simp
  then have "map_of wol_letters c = Some b" using Cons.prems(3) cb by simp
  moreover have "c \<noteq> CHR ''d''" using Cons.prems(2) cb by auto
  ultimately show ?case using Cons by (simp add: cb)
qed simp

lemma or_if_bit: "(if w AND 2 ^ k \<noteq> 0 then d OR 2 ^ k else d) = d OR (w AND 2 ^ k)" for w :: u32
proof (cases "bit w k")
  case True
  then have "w AND 2 ^ k = 2 ^ k" by (intro bit_eqI) (auto simp: bit_simps)
  then show ?thesis by (metis or.right_neutral)
next
  case False
  then have "w AND 2 ^ k = 0" by (simp add: and_exp_eq_0_iff_not_bit)
  then show ?thesis by simp
qed

lemma wol_roundtrip: "parse_wolopts (unparse_wolopts w) 0 = Some (w AND 0x7F)"
proof (cases "w = 0")
  case False
  let ?f = "\<lambda>b d. if w AND b \<noteq> 0 then d OR b else d"
  have "map snd wol_letters = map (\<lambda>k. 2 ^ k) [0..<7]" by code_simp
  moreover have "fold (\<lambda>(c, b). ?f b) wol_letters 0 = fold ?f (map snd wol_letters) 0"
    by (simp add: fold_map comp_def case_prod_beta')
  ultimately have "fold (\<lambda>(c, b). ?f b) wol_letters 0 = fold ?f (map (\<lambda>k. 2 ^ k) [0..<7]) 0" by (simp only:)
  also have "\<dots> = fold (\<lambda>k d. d OR (w AND 2 ^ k)) [0..<7] 0" unfolding fold_map comp_def or_if_bit ..
  also have "\<dots> = w AND 0x7F" by (simp add: upt_rec bit.conj_disj_distrib [symmetric])
  finally have "fold (\<lambda>(c, b). ?f b) wol_letters 0 = w AND 0x7F" .
  moreover have "distinct (map fst wol_letters) \<and> CHR ''d'' \<notin> fst ` set wol_letters" by code_simp
  ultimately show ?thesis using False parse_wol_table [of wol_letters w 0] by (simp add: unparse_wolopts_def)
qed (simp add: unparse_wolopts_def)



section \<open>What the options give\<close>

text \<open>The message level is only given as a number.\<close>

definition numeric_msglvl :: "cstr list \<Rightarrow> bool" where
  "numeric_msglvl args \<longleftrightarrow> list_all (\<lambda>(opt, arg). opt = ''msglvl'' \<longrightarrow> arg \<noteq> [] \<and> isdigit (hd arg)) (arg_pairs args)"

lemma sset_args_ConsE:
  assumes "sset_args (a # x # args) v = Some v'" and "numeric_msglvl (a # x # args)"
  obtains v1 where "sset_opt a x v = Some v1" "sset_args args v1 = Some v'" "numeric_msglvl args"
    "\<not> (a = ''msglvl'' \<and> (x = [] \<or> \<not> isdigit (hd x)))"
  using assms by (auto simp: numeric_msglvl_def split: if_splits option.splits)

text \<open>A variable that one option sets, and a note that an option of a group was given.\<close>

locale setting =
  fixes field :: "sset_vars \<Rightarrow> 'a" and opt :: cstr and rd :: "cstr \<Rightarrow> 'a option"
  assumes sets: "sset_opt a x v = Some v' \<Longrightarrow> if a = opt then rd x = Some (field v') else field v' = field v"
begin

lemma last_counts:
  assumes "sset_args args v = Some v'" and "numeric_msglvl args"
  shows "case last_given opt args of None \<Rightarrow> field v' = field v | Some x \<Rightarrow> rd x = Some (field v')"
  using assms
proof (induction args v rule: sset_args.induct)
  case (3 a x args v)
  obtain v1 where v1: "sset_opt a x v = Some v1" "sset_args args v1 = Some v'" and "numeric_msglvl args"
    and "\<not> (a = ''msglvl'' \<and> (x = [] \<or> \<not> isdigit (hd x)))"
    using sset_args_ConsE [OF "3.prems"] by blast
  with "3.IH" v1 have "case last_given opt args of None \<Rightarrow> field v' = field v1 | Some x \<Rightarrow> rd x = Some (field v')" by blast
  then show ?case using sets [OF v1(1)] by (auto simp: last_given_Cons split: option.splits if_splits)
qed (auto simp: last_given_def)

end

locale setting_group =
  fixes note_given :: "sset_vars \<Rightarrow> bool" and opts :: "cstr list"
  assumes marks: "sset_opt a x v = Some v' \<Longrightarrow> note_given v' \<longleftrightarrow> note_given v \<or> a \<in> set opts"
begin

lemma some_given:
  assumes "sset_args args v = Some v'" and "numeric_msglvl args"
  shows "note_given v' \<longleftrightarrow> note_given v \<or> (\<exists>a\<in>set opts. last_given a args \<noteq> None)"
  using assms
proof (induction args v rule: sset_args.induct)
  case (3 a x args v)
  obtain v1 where v1: "sset_opt a x v = Some v1" "sset_args args v1 = Some v'" and "numeric_msglvl args"
    and "\<not> (a = ''msglvl'' \<and> (x = [] \<or> \<not> isdigit (hd x)))"
    using sset_args_ConsE [OF "3.prems"] by blast
  with "3.IH" v1 have "note_given v' \<longleftrightarrow> note_given v1 \<or> (\<exists>a\<in>set opts. last_given a args \<noteq> None)" by blast
  then show ?case using marks [OF v1(1)] by (auto simp: last_given_Cons split: option.splits)
qed (auto simp: last_given_def)

end

lemma sset_opt_simps:
  "sset_opt ''speed'' x v = map_option (\<lambda>n. v\<lparr>gset_changed := True, speed_wanted := n\<rparr>) (get_int x 10)"
  "sset_opt ''duplex'' x v = map_option (\<lambda>n. v\<lparr>gset_changed := True, duplex_wanted := n\<rparr>) (map_of [(''half'', 0), (''full'', 1)] x)"
  "sset_opt ''port'' x v = map_option (\<lambda>n. v\<lparr>gset_changed := True, port_wanted := n\<rparr>)
     (map_of [(''tp'', 0), (''aui'', 1), (''bnc'', 4), (''mii'', 2), (''fibre'', 3)] x)"
  "sset_opt ''mdix'' x v = map_option (\<lambda>n. v\<lparr>gset_changed := True, mdix_wanted := n\<rparr>) (map_of [(''auto'', 3), (''on'', 2), (''off'', 1)] x)"
  "sset_opt ''autoneg'' x v = map_option (\<lambda>n. v\<lparr>gset_changed := True, autoneg_wanted := n\<rparr>) (map_of [(''on'', 1), (''off'', 0)] x)"
  "sset_opt ''advertise'' x v = map_option (\<lambda>n. v\<lparr>gset_changed := True, full_advertising_wanted := n\<rparr>) (get_int x 16)"
  "sset_opt ''phyad'' x v = map_option (\<lambda>n. v\<lparr>gset_changed := True, phyad_wanted := n\<rparr>) (get_int x 0)"
  "sset_opt ''xcvr'' x v = map_option (\<lambda>n. v\<lparr>gset_changed := True, xcvr_wanted := n\<rparr>) (map_of [(''internal'', 0), (''external'', 1)] x)"
  "sset_opt ''wol'' x v = map_option (\<lambda>w. v\<lparr>gwol_changed := True, wol_wanted := w, wol_change := True\<rparr>) (parse_wolopts x 0)"
  "sset_opt ''sopass'' x v = map_option (\<lambda>bs. v\<lparr>gwol_changed := True, sopass_wanted := bs, sopass_change := True\<rparr>) (get_mac_addr x)"
  "sset_opt ''msglvl'' x v =
     map_option (\<lambda>n. v\<lparr>msglvl_changed := True, msglvl_mask := - 1, msglvl_wanted := ucast n\<rparr>) (get_uint_range x 0 0xFFFFFFFF)"
  by (simp_all add: sset_opt_def Let_def)

lemma sset_opt_known:
  assumes "sset_opt a x v = Some v'"
  shows "a = ''speed'' \<or> a = ''duplex'' \<or> a = ''port'' \<or> a = ''mdix'' \<or> a = ''autoneg'' \<or> a = ''advertise'' \<or> a = ''phyad'' \<or>
    a = ''xcvr'' \<or> a = ''wol'' \<or> a = ''sopass'' \<or> a = ''msglvl''"
proof (rule ccontr)
  assume "\<not> ?thesis"
  then have "sset_opt a x v = None" unfolding sset_opt_def Let_def de_Morgan_disj by (elim conjE) (simp only: if_False simp_thms)
  then show False using assms by simp
qed

interpretation speed: setting speed_wanted "''speed''" "\<lambda>x. get_int x 10"
  by unfold_locales (frule sset_opt_known, elim disjE; auto simp: sset_opt_simps simp del: map_of.simps map_of_eq_Some_iff)

interpretation duplex: setting duplex_wanted "''duplex''" "\<lambda>x. map_of [(''half'', 0), (''full'', 1)] x"
  by unfold_locales (frule sset_opt_known, elim disjE; auto simp: sset_opt_simps simp del: map_of.simps map_of_eq_Some_iff)

interpretation port: setting port_wanted "''port''" "\<lambda>x. map_of [(''tp'', 0), (''aui'', 1), (''bnc'', 4), (''mii'', 2), (''fibre'', 3)] x"
  by unfold_locales (frule sset_opt_known, elim disjE; auto simp: sset_opt_simps simp del: map_of.simps map_of_eq_Some_iff)

interpretation autoneg: setting autoneg_wanted "''autoneg''" "\<lambda>x. map_of [(''on'', 1), (''off'', 0)] x"
  by unfold_locales (frule sset_opt_known, elim disjE; auto simp: sset_opt_simps simp del: map_of.simps map_of_eq_Some_iff)

interpretation advertise: setting full_advertising_wanted "''advertise''" "\<lambda>x. get_int x 16"
  by unfold_locales (frule sset_opt_known, elim disjE; auto simp: sset_opt_simps simp del: map_of.simps map_of_eq_Some_iff)

interpretation phyad: setting phyad_wanted "''phyad''" "\<lambda>x. get_int x 0"
  by unfold_locales (frule sset_opt_known, elim disjE; auto simp: sset_opt_simps simp del: map_of.simps map_of_eq_Some_iff)

interpretation xcvr: setting xcvr_wanted "''xcvr''" "\<lambda>x. map_of [(''internal'', 0), (''external'', 1)] x"
  by unfold_locales (frule sset_opt_known, elim disjE; auto simp: sset_opt_simps simp del: map_of.simps map_of_eq_Some_iff)

interpretation link: setting_group gset_changed
    "[''speed'', ''duplex'', ''port'', ''mdix'', ''autoneg'', ''advertise'', ''phyad'', ''xcvr'']"
  by unfold_locales (frule sset_opt_known, elim disjE; auto simp: sset_opt_simps simp del: map_of.simps map_of_eq_Some_iff)

lemma sset_ecmd_fields:
  "speed (sset_ecmd v e) = (if speed_wanted v = - 1 then speed e else ucast (of_int (speed_wanted v) :: u32))"
  "speed_hi (sset_ecmd v e) = (if speed_wanted v = - 1 then speed_hi e else ucast (drop_bit 16 (of_int (speed_wanted v) :: u32)))"
  "duplex (sset_ecmd v e) = (if duplex_wanted v = - 1 then duplex e else of_int (duplex_wanted v))"
  "port (sset_ecmd v e) = (if port_wanted v = - 1 then port e else of_int (port_wanted v))"
  "autoneg (sset_ecmd v e) = (if autoneg_wanted v = - 1 then autoneg e else of_int (autoneg_wanted v))"
  "phy_address (sset_ecmd v e) = (if phyad_wanted v = - 1 then phy_address e else of_int (phyad_wanted v))"
  "transceiver (sset_ecmd v e) = (if xcvr_wanted v = - 1 then transceiver e else of_int (xcvr_wanted v))"
  "supported (sset_ecmd v e) = supported e"
  by (simp_all add: sset_ecmd_def Let_def ethtool_cmd_speed_set_def)

lemma sset_ecmd_speed:
  "ethtool_cmd_speed (sset_ecmd v e) = (if speed_wanted v = - 1 then ethtool_cmd_speed e else of_int (speed_wanted v))"
  using speed_set_get [of "of_int (speed_wanted v)" e]
  by (simp add: ethtool_cmd_speed_def ethtool_cmd_speed_set_def sset_ecmd_fields)

lemma do_sset_sends:
  assumes run: "do_sset A args = Some reqs" and old: "sa_cmd (A []) = Some old"
  obtains v where "sset_args args sset_init = Some v"
    and "\<And>new. Sset new \<in> set reqs \<longleftrightarrow> gset_changed v \<and> new = sset_ecmd v old"
proof -
  obtain v where v: "sset_args args sset_init = Some v" using run by (auto simp: do_sset_def split: option.splits)
  have "Sset new \<in> set reqs \<longleftrightarrow> gset_changed v \<and> new = sset_ecmd v old" for new
    using run v old by (auto simp: do_sset_def Let_def split: if_splits option.splits)
  with v show thesis by (rule that)
qed


text \<open>An interface of 100 Mb/s, of which the modes up to 1000 Mb/s and 10000baseT are supported.\<close>

definition sample_settings :: settings where
  "sample_settings = \<lparr>sa_cmd = Some \<lparr>supported = 0x103F, advertising = 0x8, lp_advertising = 0, speed = 100, speed_hi = 0, duplex = 0,
      port = 0, phy_address = 0, transceiver = 0, autoneg = 0, eth_tp_mdix = 0, eth_tp_mdix_ctrl = 0\<rparr>,
     sa_wol = None, sa_msglvl = None, sa_link = None\<rparr>"


lemma bit_merge: "bit ((x AND NOT m) OR (m AND y)) b \<longleftrightarrow> (if bit m b then bit y b else bit x b)" for x :: u32
  using bit_imp_le_length [of x b] by (auto simp: bit_or_iff bit_and_iff bit_not_iff)

text \<open>C39: With autonegotiation on and neither a duplex mode nor modes to advertise given, exactly the supported modes
  among those of the table are advertised, and the rest as before: 10000baseT (bit 12) and 1000baseKX (bit 17) are
  neither enabled when the interface supports them nor taken back when it does not.\<close>

theorem autoneg_advertises:
  assumes run: "do_sset A args = Some reqs" and num: "numeric_msglvl args" and old: "sa_cmd (A []) = Some old"
    and on: "last_given ''autoneg'' args = Some ''on''" "last_given ''advertise'' args = None" "last_given ''duplex'' args = None"
    and new: "Sset new \<in> set reqs"
  shows "bit (advertising new) b \<longleftrightarrow>
    (if b < 6 \<or> b = 15 \<or> 18 \<le> b \<and> b \<le> 26 then bit (supported old) b else bit (advertising old) b)"
proof -
  obtain v where v: "sset_args args sset_init = Some v" and n: "new = sset_ecmd v old"
    using do_sset_sends [OF run old] new by metis
  have a: "autoneg_wanted v = 1" using autoneg.last_counts [OF v num] on(1) by simp
  have "full_advertising_wanted v = - 1" "duplex_wanted v = - 1"
    using advertise.last_counts [OF v num] duplex.last_counts [OF v num] on(2,3) by (simp_all add: sset_init_def)
  then have "advertising_wanted v = 0" by (simp add: advertising_wanted_def)
  then have adv: "advertising new = (advertising old AND NOT ALL_ADVERTISED_MODES) OR (ALL_ADVERTISED_MODES AND supported old)"
    by (simp add: n sset_ecmd_def Let_def a)
  have "list_all (\<lambda>b. bit ALL_ADVERTISED_MODES b \<longleftrightarrow> b < 6 \<or> b = 15 \<or> 18 \<le> b \<and> b \<le> 26) [0..<32]" by code_simp
  then have "b < 32 \<Longrightarrow> bit ALL_ADVERTISED_MODES b \<longleftrightarrow> b < 6 \<or> b = 15 \<or> 18 \<le> b \<and> b \<le> 26"
    unfolding list_all_iff set_upt by simp
  then show ?thesis unfolding adv bit_merge
    by (cases "b < 32") (use bit_imp_le_length [of "supported old" b] bit_imp_le_length [of "advertising old" b] in auto)
qed

theorem autoneg_advertises_witness:
  "\<exists>reqs new. do_sset (\<lambda>_. sample_settings) [''autoneg'', ''on''] = Some reqs \<and> Sset new \<in> set reqs \<and>
     bit (advertising new) 5 \<and> \<not> bit (advertising new) 12"
proof -
  let ?args = "[''autoneg'', ''on'']" and ?old = "the (sa_cmd sample_settings)"
  have "case do_sset (\<lambda>_. sample_settings) ?args of Some [Sset _] \<Rightarrow> True | _ \<Rightarrow> False" by code_simp
  then obtain reqs new where run: "do_sset (\<lambda>_. sample_settings) ?args = Some reqs" and new: "Sset new \<in> set reqs"
    by (auto split: option.splits list.splits sset_req.splits)
  have num: "numeric_msglvl ?args" by code_simp
  have old: "sa_cmd sample_settings = Some ?old" by (simp add: sample_settings_def)
  have b: "bit (supported ?old) 5 \<and> \<not> bit (advertising ?old) 12" by code_simp
  have l: "last_given ''autoneg'' ?args = Some ''on''" "last_given ''advertise'' ?args = None" "last_given ''duplex'' ?args = None"
    by (simp_all add: last_given_def)
  note t = autoneg_advertises [OF run num old l new]
  show ?thesis using t [of 5] t [of 12] b run new by auto
qed

end
