(* ===== verification/EthEeprom.thy ===== *)
theory EthEeprom
  imports EthCmdline
begin

text \<open>
  Reading and writing the EEPROM of an interface (\<open>src/ethernet_test/ethtool/ethtool.c\<close>, with the
  formats of \<open>natsemi.c\<close> and \<open>tg3.c\<close>). The driver, the input and which sizes can be allocated are parameters.
  A write past the allocated memory is an outcome of its own.
\<close>

unbundle bit_operations_syntax

section \<open>Showing bytes\<close>

definition dump_hex :: "u8 list \<Rightarrow> u32 \<Rightarrow> u32 \<Rightarrow> cstr" where
  "dump_hex dat len offset =
     ''Offset'' @ tab @ tab @ ''Values'' @ nl @ ''------'' @ tab @ tab @ ''------'' @
     concat (map (\<lambda>i. (if i mod 16 = 0 then nl @ ''0x'' @ fmt_0x 4 (unat (of_nat i + offset)) @ '':'' @ tab @ tab else []) @
       fmt_0x 2 (unat (dat ! i)) @ '' '') [0..<nat (sint len)]) @ nl"

text \<open>The two drivers with a format of their own: None is a wrong magic number.\<close>

definition natsemi_dump_eeprom :: "u32 \<Rightarrow> u8 list \<Rightarrow> u32 \<Rightarrow> u32 \<Rightarrow> cstr option" where
  "natsemi_dump_eeprom magic dat len offset =
     (if magic \<noteq> 0x0020100B then None
      else Some (''Address'' @ tab @ ''Data'' @ nl @ ''-------'' @ tab @ ''------'' @ nl @
        concat (map (\<lambda>i. ''0x'' @ fmt_0x 2 (unat (of_nat i + offset)) @ ''   '' @ tab @ ''0x'' @
          fmt_0x 4 (unat (dat ! (2 * i)) + 256 * unat (dat ! (2 * i + 1))) @ nl) [0..<unat len div 2])))"

definition tg3_dump_eeprom :: "u32 \<Rightarrow> u8 list \<Rightarrow> u32 \<Rightarrow> u32 \<Rightarrow> cstr option" where
  "tg3_dump_eeprom magic dat len offset =
     (if magic \<noteq> 0x669955AA then None
      else Some (''Address   '' @ tab @ ''Data'' @ nl @ ''----------'' @ tab @ ''----'' @ nl @
        concat (map (\<lambda>i. ''0x'' @ fmt_0x 8 (unat (of_nat i + offset)) @ tab @ ''0x'' @ fmt_0x 2 (unat (dat ! i)) @ nl)
          [0..<unat len])))"


section \<open>The commands\<close>

text \<open>How much is read or written: -1 is all there is, and what is past the end is cut off.\<close>

definition eeprom_length :: "u32 \<Rightarrow> u32 \<Rightarrow> u32 \<Rightarrow> u32" where
  "eeprom_length eedump_len offset len =
     (let l = (if len = - 1 then eedump_len else len) in if eedump_len < offset + l then eedump_len - offset else l)"

datatype 'a ee_outcome = Ee_usage | Ee_overrun | Ee_done int 'a

abbreviation ee_option :: "cstr \<Rightarrow> cmdline_type \<Rightarrow> cstr \<Rightarrow> cmdline_info" where
  "ee_option nm type seen \<equiv>
     \<lparr>ci_name = nm, ci_type = type, wanted_val = nm, ioctl_val = [], flag_val = 0, seen_val = seen\<rparr>"

abbreviation ee_header :: u32 where "ee_header \<equiv> 16"

text \<open>
  The driver is its name and the size of its memory. \<open>read offset len\<close> is the magic number, the length and the
  bytes that it gives, and \<open>avail n\<close> says if \<open>n\<close> bytes can be allocated.
\<close>

definition do_geeprom ::
  "(cstr \<times> u32) option \<Rightarrow> (nat \<Rightarrow> bool) \<Rightarrow> (u32 \<Rightarrow> u32 \<Rightarrow> (u32 \<times> u32 \<times> u8 list) option) \<Rightarrow> cstr list \<Rightarrow> cstr ee_outcome" where
  "do_geeprom drv avail read args =
     (case parse_generic_cmdline [ee_option ''offset'' CMDL_U32 [], ee_option ''length'' CMDL_U32 [], ee_option ''raw'' CMDL_BOOL []]
        args ((\<lambda>_. Num 0)(''length'' := Num 0xFFFFFFFF), False) of None \<Rightarrow> Ee_usage
      | Some (s, changed) \<Rightarrow>
          (case drv of None \<Rightarrow> Ee_done 74 []
           | Some (nm, eedump_len) \<Rightarrow>
               let offset = of_int (cell_num (s ''offset''));
                   len = eeprom_length eedump_len offset (of_int (cell_num (s ''length'')));
                   size = unat (ee_header + len)
               in if \<not> avail size then Ee_done 75 []
                  else if size < 16 then Ee_overrun
                  else case read offset len of None \<Rightarrow> Ee_done 74 []
                  | Some (magic, n, dat) \<Rightarrow>
                      if s ''raw'' \<noteq> Num 0 then Ee_done 0 (map (\<lambda>b. char_of (unat b)) (take (unat n) dat))
                      else if nm = ''natsemi''
                      then (case natsemi_dump_eeprom magic dat n offset of None \<Rightarrow> Ee_done (- 1) [] | Some t \<Rightarrow> Ee_done 0 t)
                      else if nm = ''tg3''
                      then (case tg3_dump_eeprom magic dat n offset of None \<Rightarrow> Ee_done (- 1) [] | Some t \<Rightarrow> Ee_done 0 t)
                      else Ee_done 0 (dump_hex dat n offset)))"

text \<open>\<open>inp\<close> is the standard input. The request is the magic number, the offset and the bytes.\<close>

definition do_seeprom ::
  "(cstr \<times> u32) option \<Rightarrow> (nat \<Rightarrow> bool) \<Rightarrow> u8 list \<Rightarrow> (u32 \<times> u32 \<times> u8 list \<Rightarrow> bool) \<Rightarrow> cstr list \<Rightarrow>
     (u32 \<times> u32 \<times> u8 list) option ee_outcome" where
  "do_seeprom drv avail inp accept args =
     (case parse_generic_cmdline [ee_option ''magic'' CMDL_U32 [], ee_option ''offset'' CMDL_U32 [], ee_option ''length'' CMDL_U32 [],
          ee_option ''value'' CMDL_U8 ''value_seen''] args ((\<lambda>_. Num 0)(''length'' := Num 0xFFFFFFFF), False) of None \<Rightarrow> Ee_usage
      | Some (s, changed) \<Rightarrow>
          (case drv of None \<Rightarrow> Ee_done 74 None
           | Some (nm, eedump_len) \<Rightarrow>
               let offset = of_int (cell_num (s ''offset'')); seen = (s ''value_seen'' \<noteq> Num 0);
                   len = eeprom_length eedump_len offset (if seen then 1 else of_int (cell_num (s ''length'')));
                   size = unat (ee_header + len)
               in if \<not> avail size then Ee_done 75 None
                  else if size < 17 then Ee_overrun
                  else let req = (of_int (cell_num (s ''magic'')), offset,
                         if seen then of_int (cell_num (s ''value'')) # replicate (unat len - 1) 0 else take (unat len) inp)
                       in Ee_done (if accept req then 0 else 87) (Some req)))"


section \<open>Writing one byte\<close>

lemma eeprom_length_one:
  assumes "off < 2 ^ 32"
  shows "eeprom_length tot (of_nat off) 1 = (if off < unat tot \<or> off = 2 ^ 32 - 1 then 1 else tot - of_nat off)"
proof (cases "off = 2 ^ 32 - 1")
  case True
  then have "(of_nat off :: u32) + 1 = 0" by simp
  then have "eeprom_length tot (of_nat off) 1 = 1" by (simp add: eeprom_length_def)
  with True show ?thesis by argo
next
  case False
  then have "off + 1 < 2 ^ 32" using assms by simp
  then have "unat ((of_nat off :: u32) + 1) = off + 1" by (simp add: unat_word_ariths unat_of_nat)
  then have "tot < of_nat off + 1 \<longleftrightarrow> \<not> off < unat tot" by (simp add: word_less_nat_alt not_less less_Suc_eq_le)
  then show ?thesis using False by (simp add: eeprom_length_def)
qed


lemma seeprom_parsed:
  assumes "off < 2 ^ 32" and "b < 256"
  shows "parse_generic_cmdline [ee_option ''magic'' CMDL_U32 [], ee_option ''offset'' CMDL_U32 [], ee_option ''length'' CMDL_U32 [],
      ee_option ''value'' CMDL_U8 ''value_seen''] [''offset'', fmt_u off, ''value'', fmt_u b] (s, False) =
    Some (s(''offset'' := Num (int off), ''value_seen'' := Num 1, ''value'' := Num (int b)), True)"
proof -
  have "get_uint_range (fmt_u off) 0 0xFFFFFFFF = Some (of_nat off)" "get_uint_range (fmt_u b) 0 0xFF = Some (of_nat b)"
    using assms by (simp_all add: get_uint_range_fmt_u)
  moreover have "uint (of_nat off :: u64) = int off" "uint (of_nat b :: u64) = int b" using assms by (simp_all add: uint_nat unat_of_nat)
  ultimately show ?thesis by (simp add: cmdl_store_def cmdl_value_def)
qed

lemma do_seeprom_byte:
  assumes "off < 2 ^ 32" and "b < 256"
  shows "do_seeprom (Some (nm, tot)) avail inp accept [''offset'', fmt_u off, ''value'', fmt_u b] =
    (let len = eeprom_length tot (of_nat off) 1; size = unat (ee_header + len); req = (0, of_nat off, of_nat b # replicate (unat len - 1) 0) in
     if \<not> avail size then Ee_done 75 None else if size < 17 then Ee_overrun
     else Ee_done (if accept req then 0 else 87) (Some req))"
  unfolding do_seeprom_def seeprom_parsed [OF assms(1,2)] by (simp add: Let_def)

lemma mod_wrap: "- (2 ^ 32) \<le> i \<Longrightarrow> i < 2 ^ 32 \<Longrightarrow> i mod 2 ^ 32 = (if 0 \<le> i then i else 2 ^ 32 + i)" for i :: int
  using mod_add_self1 [of "2 ^ 32" i] mod_pos_pos_trivial [of "2 ^ 32 + i" "2 ^ 32"] by auto

text \<open>The sizes that are allocated for an offset past the end.\<close>

lemma past_end:
  assumes "unat tot \<le> off" and "off < 2 ^ 32"
  shows "unat (ee_header + (tot - of_nat off)) =
      (if off \<le> unat tot + 16 then 16 - (off - unat tot) else 2 ^ 32 + 16 - (off - unat tot))"
proof -
  let ?d = "off - unat tot"
  have "tot = of_nat (unat tot)" by simp
  moreover have "(of_nat off :: u32) = of_nat (unat tot) + of_nat ?d" using assms(1) by (simp flip: of_nat_add)
  ultimately have "tot - of_nat off = - of_nat ?d" by (metis diff_add_eq_diff_diff_swap diff_self diff_0 add.commute)
  then have e: "ee_header + (tot - of_nat off) = of_int (16 - int ?d)" by simp
  have "?d < 2 ^ 32" using assms(2) by simp
  then have h: "(16 - int ?d) mod 2 ^ 32 = (if ?d \<le> 16 then 16 - int ?d else 2 ^ 32 + 16 - int ?d)"
    using mod_wrap [of "16 - int ?d"] by simp
  have m: "unat (of_int (16 - int ?d) :: u32) = nat ((16 - int ?d) mod 2 ^ 32)"
    by (simp only: unat_eq_nat_uint uint_word_of_int) simp
  have u: "unat (ee_header + (tot - of_nat off)) = nat (if ?d \<le> 16 then 16 - int ?d else 2 ^ 32 + 16 - int ?d)"
    unfolding e m h ..
  have "off \<le> unat tot + 16 \<longleftrightarrow> ?d \<le> 16" by auto
  moreover have "nat (2 ^ 32 + 16 - int d) = 2 ^ 32 + 16 - d" for d by (simp add: nat_diff_distrib')
  moreover have "nat (16 - int d) = 16 - d" for d by linarith
  ultimately show ?thesis unfolding u if_distrib [of nat] by (simp only:)
qed

text \<open>C40: Writing a byte at an offset inside the memory sends that byte alone, and so does the largest offset, where
  the sum wraps. At an offset that is up to 16 past the end, the size wraps and the memory is overrun if it can
  be allocated; at a larger one, all the rest of the 32-bit range is requested.\<close>

theorem seeprom_byte:
  assumes "off < 2 ^ 32" and "b < 256"
  shows "do_seeprom (Some (nm, tot)) avail inp accept [''offset'', fmt_u off, ''value'', fmt_u b] =
    (let past = off - unat tot; size = (if off < unat tot \<or> off = 2 ^ 32 - 1 then 17 else if past \<le> 16 then 16 - past else 2 ^ 32 + 16 - past);
         req = (0, of_nat off, of_nat b # replicate (size - 17) 0) in
     if \<not> avail size then Ee_done 75 None
     else if unat tot \<le> off \<and> past \<le> 16 \<and> off \<noteq> 2 ^ 32 - 1 then Ee_overrun
     else Ee_done (if accept req then 0 else 87) (Some req))"
proof (cases "off < unat tot \<or> off = 2 ^ 32 - 1")
  case True
  then show ?thesis by (auto simp: do_seeprom_byte [OF assms] eeprom_length_one [OF assms(1)] Let_def)
next
  case False
  then have p: "unat tot \<le> off" by simp
  have len: "eeprom_length tot (of_nat off) 1 = tot - of_nat off" 
    using eeprom_length_one [OF assms(1), of tot] unfolding if_not_P [OF False] .
  show ?thesis
  proof (cases "off \<le> unat tot + 16")
    case True
    then have sz: "unat (ee_header + (tot - of_nat off)) = 16 - (off - unat tot)" unfolding past_end [OF p assms(1)] by simp
    have c: "off - unat tot \<le> 16 \<longleftrightarrow> True" "(off < unat tot \<or> off = 2 ^ 32 - 1) = False" "16 - (off - unat tot) < 17 \<longleftrightarrow> True"
      "unat tot \<le> off \<longleftrightarrow> True" "off \<noteq> 2 ^ 32 - 1 \<longleftrightarrow> True"
      using True False p by auto
    show ?thesis unfolding do_seeprom_byte [OF assms] len Let_def sz c by (simp only: if_True if_False simp_thms)
  next
    case big: False
    define size where "size = 2 ^ 32 + 16 - (off - unat tot)"
    have sz: "unat (ee_header + (tot - of_nat off)) = size" using big past_end [OF p assms(1)] by (simp add: size_def)
    have big': "17 \<le> size" using assms(1) p by (simp add: size_def)
    have "unat (tot - of_nat off) = unat (ee_header + (tot - of_nat off)) - 16"
      using unat_sub [of ee_header "ee_header + (tot - of_nat off)"] sz big' by (simp add: word_le_nat_alt)
    then have u: "unat (tot - of_nat off) - 1 = size - 17" unfolding sz by simp
    have c: "off - unat tot \<le> 16 \<longleftrightarrow> False" "(off < unat tot \<or> off = 2 ^ 32 - 1) = False" "size < 17 \<longleftrightarrow> False"
      using big big' False by auto
    show ?thesis unfolding do_seeprom_byte [OF assms] len Let_def sz u c size_def [symmetric] by simp
  qed
qed

text \<open>One byte past an EEPROM of 256 bytes.\<close>

theorem seeprom_byte_witness:
  "do_seeprom (Some (''e1000'', 256)) (\<lambda>_. True) [] (\<lambda>_. True) [''offset'', fmt_u 256, ''value'', fmt_u 7] = Ee_overrun"
  using seeprom_byte [of 256 7 "''e1000''" 256 "\<lambda>_. True" "[]" "\<lambda>_. True"] by (simp add: Let_def)

end
