(* ===== verification/Spec2Isabelle.thy ===== *)
theory Spec2Isabelle
  imports Memtester RtLatency Ping CanSequence CanConfig Uboot Memtool Macvlan Vconfig Watchdog
    SchedLatency SpiTest NetTests NetOptions RxClass EthParams EthIndir EthFeatures EthSettings EthEeprom
begin

text \<open>
  The repository holds the programs and scripts that test an embedded Linux board with a 32-bit
  ARM processor: its memory, its timers, its CAN, SPI and Ethernet interfaces, its watchdog and
  its boot loader. The programs do not call each other. They interact over a medium (a memory, a
  bus, a network, a file loaded by the boot loader), and the properties that span two programs
  are stated about that: cansequence sending and receiving, cansend and candump, candump and
  canecho, creatf and tftp-test, rawsend and rawrecv, the sender and the receiver of the traffic
  generator.

  \<^bold>\<open>Conventions.\<close> \<open>int\<close>, \<open>long\<close>, \<open>size_t\<close> and pointers have 32 bits and the machine is
  little-endian. Integers are words, or \<open>int\<close> cut by \<open>to_int32\<close>, where a value can leave its
  range. Strings have no terminating NUL. The kernel, drivers, clocks, files and the input are
  arguments of the definitions, and what a theorem needs of them is one of its hypotheses; its
  witness gives a concrete instance. Early exits and failures are values of an option, a sum or a
  datatype of results. An access outside an array is None or a value of its own, never an
  unspecified one. Doubles are exact real or rational numbers. What is printed on stdout is part
  of the result, as text or as a list of records; messages on stderr are left out unless a
  theory says otherwise. A \<open>main\<close> without a return statement gives 0.

  \<^bold>\<open>Loops.\<close> There is no fuel. A loop over an index is a fold or a structural recursion, one with a
  decreasing measure is a \<open>function\<close> with its termination proof, and one that may run for ever is
  a \<open>partial_function\<close> on options, where None is a run that does not end; that such a loop
  returns is proved as an equation with \<open>Some\<close>.

  \<^bold>\<open>Shared theories.\<close> \<open>Prelude\<close>: types of the target, collections of rules, generic lemmas.
  \<open>CLib\<close>: the functions of the C library the programs use (number parsing and printing, character
  classes) with the round trips between them. \<open>Getopt\<close>: \<open>getopt\<close> and \<open>getopt_long\<close>. \<open>Bytes\<close>:
  numbers as bytes. \<open>Sampling\<close>: the interface of the statistics objects as a locale.

  \<^bold>\<open>Memory test\<close> (\<open>src/memory_test/memtester\<close>). \<open>MemTests\<close> has one definition per test of
  \<open>tests.c\<close> on an abstract machine (reads, writes, random numbers, the shift by a whole word that
  C leaves undefined). \<open>MemSound\<close> states in the locale \<open>ram\<close> what working memory does, interprets it
  on memory made of bytes, and shows that the tests raise no false alarm; on memory behind an
  address decoder and memory with a stuck bit it shows that the stuck address test decides if
  the decoder is injective, and that solid bits finds the bit. \<open>Memtester\<close> is \<open>memtester.c\<close>: test mask, options, allocation and
  locking, the loops and the exit status.

  \<^bold>\<open>Timer latency\<close> (\<open>src/rt_test/latency\<close>). \<open>OnlineStats\<close> and \<open>Quantile\<close> are the two classes of
  the same name: running moments refine the moments of the list of samples, and the five markers
  keep their order. \<open>RtLatency\<close> is the timer thread of \<open>latency.cpp\<close> with its histogram and the
  calls that raise its priority.

  \<^bold>\<open>ping\<close> (\<open>src/ethernet_test/ping/ping.c\<close>). \<open>PingCore\<close>: checksum, packets, the table of
  duplicates, statistics. \<open>PingPrint\<close>: messages for other packets and IP options. \<open>Ping\<close>: options,
  signals as steps, and the main loop.

  \<^bold>\<open>CAN\<close> (\<open>src/can_test/utilities\<close>). \<open>Can\<close>: cansend, candump and canecho. \<open>CanSequence\<close>: the link
  test, as a machine with signals. \<open>CanConfig\<close>: canconfig over the operations of the library it is
  linked with.

  \<^bold>\<open>Boot loader\<close> (\<open>src/preloader-uboot\<close>). \<open>Uboot\<close>: the random numbers, creatf, the start-up code
  with its division routine, tftp-test and the address arithmetic of sdram-test.

  \<^bold>\<open>Tools.\<close> \<open>Memtool\<close> (\<open>src/memtool/memtool.c\<close>): reading and writing physical memory through a
  mapping. \<open>Macvlan\<close> and \<open>Vconfig\<close> (\<open>src/ethernet_test/vlan\<close>): the two VLAN utilities over a
  kernel module. \<open>Watchdog\<close> (\<open>src/watchdog/watchdog-test.c\<close>), \<open>SchedLatency\<close>
  (\<open>src/latency/latency.c\<close>), \<open>SpiTest\<close> (\<open>src/spi_test\<close>, \<open>src/spi_adc\<close>).

  \<^bold>\<open>Network test suite\<close> (\<open>src/ethernet_test/test-suite\<close>). \<open>NetTests\<close>: rawsend and rawrecv, sendmc
  and recvmc, and the programs that print the state of a link. \<open>NetOptions\<close>: addresses, sockets and
  the traffic generator \<open>options.cpp\<close>. Each of its threads is modelled on its own.

  \<^bold>\<open>ethtool\<close> (\<open>src/ethernet_test/ethtool\<close>, mainly \<open>ethtool.c\<close> and \<open>rxclass.c\<close>). \<open>Inet\<close>: fields of
  structures as bytes, addresses as text. \<open>EthCmdline\<close>: numbers in a range and the parser
  \<open>parse_generic_cmdline\<close> that the commands share; the variables it writes are a store, and its
  lemmas say that values end as given last and that flags are collected. \<open>RuleManager\<close>: the bitmap
  of locations behind the locale \<open>bitset\<close>, refined to the last free location. \<open>RuleOptions\<close>: reading a
  rule from options into the bytes of its structure. \<open>RxClass\<close>: printing rules, converting them to
  filters, and the commands for them. \<open>EthParams\<close>: pause, ring, channel and coalescing parameters and
  private flags. \<open>EthIndir\<close>: the indirection table from weights. \<open>EthFeatures\<close>: offload features and the
  old flags for them. \<open>EthSettings\<close>: link settings, where the locales \<open>setting\<close> and \<open>setting_group\<close>
  state once how an option sets its variable and are interpreted for each option. \<open>EthEeprom\<close>: reading and
  writing the EEPROM, with overruns of the allocated memory as outcomes.

  \<^bold>\<open>What the properties show.\<close> Most say what a program prints, sends or leaves behind on every
  input of a class, or that a run ends. Some of them, and some of the lemmas beside them, show a
  defect with the exact condition under which it occurs: the tested memory that passes the end of its block after EPERM, a late wake-up that
  writes outside the histogram, fill patterns and recorded routes that overrun arrays, the
  division routine that gives a multiple instead of a quotient, a read past a mapping, an unload
  that never ends, frames that are counted twice, bytes that are reported but were not sent, a rule
  table that refuses rules, filters with a shifted ethernet type, modes that autonegotiation leaves out, an
  EEPROM write outside its buffer.

  \<^bold>\<open>Not modelled.\<close> The vendored releases of netperf and sockperf; of ethtool the register dumps of
  particular network cards, which print tables of register names, its own tests, and the commands for
  driver information, modules, firmware, self tests, statistics and time stamping; the shell, expect and
  Python scripts, which only call programs and write files of the kernel; the calibrator, whose
  result is the timing of memory accesses; the programs of \<open>rt_test/rttest\<close> and \<open>rtver\<close> and
  \<open>mem.cpp\<close>, which burn time or print a version; client, server and the trial programs of the
  network test suite; the classes in \<open>src/ethernet_test/dut\<close>, which wrap single \<open>ioctl\<close> calls. Of
  \<open>latency.cpp\<close> the routine that touches the stack and a thread whose body is disabled are left
  out, of sdram-test the code behind its first return, of the start-up code the assembler, and of
  \<open>socket.h\<close> and \<open>ipaddr.h\<close> the calls and constructors that nothing uses.
\<close>

end
